(* ===== verification/Prelude.thy ===== *)
theory Prelude
  imports "HOL-Library.Word" "HOL-Library.Monad_Syntax"
begin

text \<open>
  What the components share: the C view of characters (the \<open>ctype\<close> tests of the C locale),
  decimal output, and the collections of lemmas that the component theories extend.

  A C pointer into the edited text is an \<open>int\<close>: its distance from \<open>text\<close>. The bytes are a
  total function from offsets to \<open>char\<close>, so a read outside the text is a read of whatever the
  memory holds there, and a theorem about it holds for every such content.
\<close>

named_theorems scan_simps \<open>characterisations of byte scans\<close>
named_theorems frame_simps \<open>components an operation does not touch\<close>
named_theorems end_nonneg \<open>operations that keep the end of the text at or after its start\<close>
named_theorems motion_bounds \<open>ranges of the pointers a motion returns\<close>

type_synonym ptr = int

subsection \<open>Characters\<close>

text \<open>The value of a byte, and the byte an \<open>int\<close> is truncated to when it is stored in a \<open>char\<close>.\<close>

abbreviation cval :: "char \<Rightarrow> int" where
  "cval c \<equiv> of_char c"

definition to_char :: "int \<Rightarrow> char" where
  "to_char n = char_of (nat (n mod 256))"

abbreviation NUL :: char where
  "NUL \<equiv> CHR 0x00"

abbreviation NL :: char where
  "NL \<equiv> CHR 0x0A"

abbreviation TAB :: char where
  "TAB \<equiv> CHR 0x09"

abbreviation ESC :: char where
  "ESC \<equiv> CHR 0x1B"

definition isdigit :: "char \<Rightarrow> bool" where
  "isdigit c \<longleftrightarrow> 48 \<le> cval c \<and> cval c \<le> 57"

definition isupper :: "char \<Rightarrow> bool" where
  "isupper c \<longleftrightarrow> 65 \<le> cval c \<and> cval c \<le> 90"

definition islower :: "char \<Rightarrow> bool" where
  "islower c \<longleftrightarrow> 97 \<le> cval c \<and> cval c \<le> 122"

definition isalpha :: "char \<Rightarrow> bool" where
  "isalpha c \<longleftrightarrow> isupper c \<or> islower c"

definition isalnum :: "char \<Rightarrow> bool" where
  "isalnum c \<longleftrightarrow> isalpha c \<or> isdigit c"

definition isblank :: "char \<Rightarrow> bool" where
  "isblank c \<longleftrightarrow> c = CHR '' '' \<or> c = TAB"

definition isspace :: "char \<Rightarrow> bool" where
  "isspace c \<longleftrightarrow> c = CHR '' '' \<or> (9 \<le> cval c \<and> cval c \<le> 13)"

definition ispunct :: "char \<Rightarrow> bool" where
  "ispunct c \<longleftrightarrow> 33 \<le> cval c \<and> cval c \<le> 126 \<and> \<not> isalnum c"

definition isxdigit :: "char \<Rightarrow> bool" where
  "isxdigit c \<longleftrightarrow> isdigit c \<or> (65 \<le> cval c \<and> cval c \<le> 70) \<or> (97 \<le> cval c \<and> cval c \<le> 102)"

definition toupper :: "char \<Rightarrow> char" where
  "toupper c = (if islower c then to_char (cval c - 32) else c)"

definition tolower :: "char \<Rightarrow> char" where
  "tolower c = (if isupper c then to_char (cval c + 32) else c)"

lemmas ctype_defs = isdigit_def isupper_def islower_def isalpha_def isalnum_def isblank_def
  isspace_def ispunct_def isxdigit_def

lemma cval_range: "0 \<le> cval c \<and> cval c < 256"
  using of_char_eq_iff [of c c] by (cases c) (auto simp: of_char_def split: bool.splits)

lemma cval_to_char:
  assumes "0 \<le> n" and "n < 256"
  shows "cval (to_char n) = n"
proof -
  have "cval (to_char n) = int (of_char (char_of (nat n) :: char))"
    using assms by (simp only: to_char_def mod_pos_pos_trivial of_nat_of_char)
  also have "\<dots> = int (nat n mod 256)"
    by (simp only: of_char_of)
  finally show ?thesis
    using assms by simp
qed

lemma to_char_cval [simp]: "to_char (cval c) = c"
proof -
  have "nat (cval c mod 256) = of_char c"
    using cval_range [of c] of_nat_of_char [of c, where ?'a = int] by simp
  then show ?thesis
    by (simp add: to_char_def)
qed

lemma cval_char_of:
  assumes "n < 256"
  shows "cval (char_of (n :: nat)) = int n"
proof -
  have "cval (char_of n) = int (of_char (char_of n :: char))" by (simp only: of_nat_of_char)
  also have "\<dots> = int (n mod 256)" by (simp only: of_char_of)
  finally show ?thesis using assms by simp
qed

text \<open>The C library's \<open>strchr\<close> on a constant set: the terminator itself is found too.\<close>

definition in_strchr :: "string \<Rightarrow> int \<Rightarrow> bool" where
  "in_strchr cs k \<longleftrightarrow> to_char k = NUL \<or> to_char k \<in> set cs"

text \<open>\<open>%d\<close>.\<close>

fun dec_nat :: "nat \<Rightarrow> string" where
  "dec_nat n = (if n < 10 then [char_of (48 + n)] else dec_nat (n div 10) @ [char_of (48 + n mod 10)])"

declare dec_nat.simps [simp del]

definition dec :: "int \<Rightarrow> string" where
  "dec k = (if k < 0 then CHR ''-'' # dec_nat (nat (- k)) else dec_nat (nat k))"

end
