(* ===== verification/TetrisDraw.thy ===== *)
theory TetrisDraw
  imports Prelude
begin

text \<open>
  The outside of the tetris game (\<open>sdl_tetris/graphics.c\<close>, \<open>input.c\<close>): the SDL events it reads and
  the SDL calls it makes, as values. A text is given by its string, the row it is put on and its
  font; its width, and so its exact column, is the font library's business.
\<close>

unbundle bit_operations_syntax

subsection \<open>The grid's dimensions and the calls to SDL\<close>

abbreviation GRID_WIDTH :: int where "GRID_WIDTH \<equiv> 10"
abbreviation GRID_HEIGHT :: int where "GRID_HEIGHT \<equiv> 20"
abbreviation BLOCK_SIZE :: int where "BLOCK_SIZE \<equiv> 14"

datatype font = Font_small | Font_big

datatype align = Right_panel | Centred

datatype sdl_call =
    SetRenderDrawColor int int int int
  | RenderClear
  | RenderFillRect int int int int
  | RenderDrawRect int int int int
  | RenderText align string int font
  | RenderPresent
  | Delay int

definition PANEL_WIDTH :: int where
  "PANEL_WIDTH = (GRID_WIDTH + 5) * BLOCK_SIZE"

definition PANEL_HEIGHT :: int where
  "PANEL_HEIGHT = (GRID_HEIGHT + 2) * BLOCK_SIZE"

text \<open>The panel's offset in a window of the given size; C's division truncates.\<close>

definition half :: "int \<Rightarrow> int" where
  "half k = (if k < 0 then - (- k div 2) else k div 2)"

definition panel_offset :: "int \<Rightarrow> int \<Rightarrow> int \<times> int" where
  "panel_offset w h = (half (w - PANEL_WIDTH), half (h - PANEL_HEIGHT))"

definition draw_block :: "int \<times> int \<Rightarrow> int \<Rightarrow> int \<Rightarrow> int \<Rightarrow> sdl_call list" where
  "draw_block off x y color =
     (case off of (xoff, yoff) \<Rightarrow>
        [SetRenderDrawColor 0x0c 0x0c 0x0c 0xff,
         RenderFillRect (xoff + (x + 1) * BLOCK_SIZE) (yoff + (y + 1) * BLOCK_SIZE) BLOCK_SIZE BLOCK_SIZE,
         SetRenderDrawColor (drop_bit 16 color AND 0xFF) (drop_bit 8 color AND 0xFF) (color AND 0xFF) 0xff,
         RenderFillRect (xoff + (x + 1) * BLOCK_SIZE + 1) (yoff + (y + 1) * BLOCK_SIZE + 1)
           (BLOCK_SIZE - 2) (BLOCK_SIZE - 2)])"

definition clear_screen :: "sdl_call list" where
  "clear_screen = [SetRenderDrawColor 0 0 0 0xFF, RenderClear]"

text \<open>\<open>%0*d\<close> into a buffer of \<open>n\<close> bytes: padded to \<open>n - 1\<close> digits and cut to what fits.\<close>

definition zero_padded :: "nat \<Rightarrow> int \<Rightarrow> string" where
  "zero_padded n k =
     (let ds = dec_nat (nat \<bar>k\<bar>); sg = (if k < 0 then ''-'' else '''')
      in take (n - 1) (sg @ replicate (n - 1 - length sg - length ds) (CHR ''0'') @ ds))"

definition render_score :: "int \<Rightarrow> int \<Rightarrow> sdl_call list" where
  "render_score score level =
     [RenderText Right_panel ''SCORE'' BLOCK_SIZE Font_small,
      RenderText Right_panel (zero_padded 7 score) (BLOCK_SIZE * 2) Font_big,
      RenderText Right_panel ''LEVEL'' (BLOCK_SIZE * 6) Font_small,
      RenderText Right_panel (zero_padded 3 level) (BLOCK_SIZE * 7) Font_big]"

definition render_game_over_message :: "int \<Rightarrow> sdl_call list" where
  "render_game_over_message score =
     [RenderText Centred ''GAME OVER'' (PANEL_HEIGHT div 2 - BLOCK_SIZE * 3) Font_big,
      RenderText Centred ''YOU SCORED:'' (PANEL_HEIGHT div 2 - BLOCK_SIZE * 2) Font_big,
      RenderText Centred (take 6 (dec score)) (PANEL_HEIGHT div 2) Font_big,
      RenderText Centred ''Press any key to restart...'' (PANEL_HEIGHT div 2 + BLOCK_SIZE * 2) Font_small,
      RenderPresent]"

definition render_frame :: "int \<times> int \<Rightarrow> int \<Rightarrow> int \<Rightarrow> sdl_call list" where
  "render_frame off score level =
     [SetRenderDrawColor 0x44 0x44 0x44 0xff,
      RenderDrawRect (fst off) (snd off) PANEL_WIDTH PANEL_HEIGHT] @
     render_score score level @ [RenderPresent]"

subsection \<open>Input\<close>

datatype sdl_key = SDLK_ESCAPE | SDLK_LEFT | SDLK_RIGHT | SDLK_UP | SDLK_a | SDLK_RETURN | SDLK_DOWN
  | SDLK_SPACE | SDLK_other

datatype sdl_event = SDL_QUIT | SDL_WINDOWCLOSE | SDL_KEYDOWN sdl_key | SDL_other

datatype input_event = QUIT | NO_INPUT | ANY_INPUT | LEFT | RIGHT | DOWN | ROTATE | SOFT_DROP | HARD_DROP

fun event_code :: "input_event \<Rightarrow> int" where
  "event_code QUIT = - 1"
| "event_code NO_INPUT = 0"
| "event_code ANY_INPUT = 99"
| "event_code LEFT = 2"
| "event_code RIGHT = 3"
| "event_code DOWN = 4"
| "event_code ROTATE = 5"
| "event_code SOFT_DROP = 6"
| "event_code HARD_DROP = 7"

fun handle_key_down :: "sdl_key \<Rightarrow> input_event" where
  "handle_key_down SDLK_ESCAPE = QUIT"
| "handle_key_down SDLK_LEFT = LEFT"
| "handle_key_down SDLK_RIGHT = RIGHT"
| "handle_key_down SDLK_UP = ROTATE"
| "handle_key_down SDLK_a = ROTATE"
| "handle_key_down SDLK_RETURN = ROTATE"
| "handle_key_down SDLK_DOWN = SOFT_DROP"
| "handle_key_down SDLK_SPACE = HARD_DROP"
| "handle_key_down SDLK_other = ANY_INPUT"

text \<open>\<open>listen_for_input\<close>: the pending events up to the first that matters; the rest stay pending.\<close>

fun listen_for_input :: "sdl_event list \<Rightarrow> input_event \<times> sdl_event list" where
  "listen_for_input [] = (NO_INPUT, [])"
| "listen_for_input (SDL_QUIT # es) = (QUIT, es)"
| "listen_for_input (SDL_WINDOWCLOSE # es) = (QUIT, es)"
| "listen_for_input (SDL_KEYDOWN k # es) = (handle_key_down k, es)"
| "listen_for_input (SDL_other # es) = listen_for_input es"

end
