(* ===== verification/Tetris.thy ===== *)
theory Tetris
  imports TetrisDraw
begin

text \<open>
  The tetris game (\<open>sdl_tetris/game.c\<close>, \<open>main.c\<close>). The file's globals are one record. \<open>uint8_t\<close> and
  \<open>uint32_t\<close> counters are words; \<open>int8_t\<close> coordinates are integers wrapped by \<open>int8\<close> where the code
  stores them. The grid is a function of column and row, 0 for an empty cell. \<open>rand()\<close> is the
  unknown sequence \<open>rands\<close>, \<open>drawn\<close> counts the calls; \<open>out\<close> collects the calls to SDL.
\<close>

record tetris =
  grid :: "int \<Rightarrow> int \<Rightarrow> int"
  to_destroy :: "int \<Rightarrow> bool"
  game_over :: bool
  score :: "32 word"
  iteration :: "8 word"
  lines_cleared :: "8 word"
  current_level :: "8 word"
  fall_freq :: "8 word"
  current_shape :: "int list"
  current_shape_color :: int
  current_shape_type :: nat
  current_x :: int
  current_y :: int
  state_changed :: bool
  rands :: "nat \<Rightarrow> nat"
  drawn :: nat
  panel :: "int \<times> int"
  out :: "sdl_call list"

definition int8 :: "int \<Rightarrow> int" where
  "int8 k = (k + 128) mod 256 - 128"

lemma int8_id [simp]: "- 128 \<le> k \<Longrightarrow> k < 128 \<Longrightarrow> int8 k = k"
  by (simp add: int8_def)

definition LEVEL_FREQS :: "8 word list" where
  "LEVEL_FREQS = [48, 43, 38, 33, 28, 23, 18, 13, 8, 6, 5, 4, 3, 2, 1]"

definition COLORS :: "int list" where
  "COLORS = [0x111111, 0xFFC82E, 0xFEFB34, 0x53DA3F, 0x01EDFA, 0xDD0AB2, 0xEA141C, 0xFE4819, 0xFF910C,
     0x39892F, 0x0077D3, 0x78256F, 0x2E2E84, 0x485DC5]"

definition SHAPES :: "int list list" where
  "SHAPES =
     [[0, 0, 1, 0, 0, 1, 1, 1],
      [0, 0, - 1, 0, 1, 0, 0, 1],
      [0, 0, 0, - 1, 0, 1, 1, 1],
      [0, 0, 0, - 1, 0, 1, - 1, 1],
      [0, 0, 0, - 1, 0, 1, 0, 2],
      [0, 0, 1, 0, 0, 1, - 1, 1],
      [0, 0, - 1, 0, 0, 1, 1, 1]]"

definition SOFT_FREQ :: "8 word" where "SOFT_FREQ = 3"
definition HARD_FREQ :: "8 word" where "HARD_FREQ = 1"

definition get_curr_fall_freq :: "tetris \<Rightarrow> 8 word" where
  "get_curr_fall_freq s =
     (if current_level s \<ge> 15 then LEVEL_FREQS ! 14 else LEVEL_FREQS ! unat (current_level s))"

definition reset_fall_freq :: "tetris \<Rightarrow> tetris" where
  "reset_fall_freq s = s\<lparr>fall_freq := get_curr_fall_freq s\<rparr>"

definition update_fall_freq :: "8 word \<Rightarrow> tetris \<Rightarrow> tetris" where
  "update_fall_freq new s =
     (let calculated = get_curr_fall_freq s
      in s\<lparr>fall_freq := (if calculated < new then calculated else new)\<rparr>)"

definition end_game :: "tetris \<Rightarrow> tetris" where
  "end_game s = s\<lparr>game_over := True, out := out s @ clear_screen\<rparr>"

subsection \<open>Spawning\<close>

text \<open>The coordinates of block \<open>i\<close> of a shape at a position, stored in \<open>int8_t\<close> variables.\<close>

definition block :: "int list \<Rightarrow> int \<Rightarrow> int \<Rightarrow> nat \<Rightarrow> int \<times> int" where
  "block shape cx cy i = (int8 (shape ! (i * 2) + cx), int8 (shape ! (i * 2 + 1) + cy))"

definition top_blocked :: "tetris \<Rightarrow> int \<Rightarrow> bool" where
  "top_blocked s cy =
     (\<exists>i \<in> set [0..<4]. case block (current_shape s) (current_x s) (cy + 1) i of
        (x, y) \<Rightarrow> y \<ge> 0 \<and> grid s x y \<noteq> 0)"

fun spawn_y :: "tetris \<Rightarrow> nat \<Rightarrow> int \<Rightarrow> int" where
  "spawn_y s 0 cy = cy"
| "spawn_y s (Suc n) cy = (if top_blocked s cy then cy else spawn_y s n (cy + 1))"

definition spawn_shape :: "tetris \<Rightarrow> tetris" where
  "spawn_shape s =
     (let t = rands s (drawn s) mod 7;
          c = int (rands s (drawn s + 1) mod 13) + 1;
          s1 = s\<lparr>state_changed := True, current_shape_type := t, current_shape_color := c,
                 current_shape := SHAPES ! t, current_x := GRID_WIDTH div 2, drawn := drawn s + 2\<rparr>
      in s1\<lparr>current_y := spawn_y s1 2 (- 2)\<rparr>)"

definition in_grid :: "int \<Rightarrow> int \<Rightarrow> bool" where
  "in_grid x y \<longleftrightarrow> 0 \<le> x \<and> x < GRID_WIDTH \<and> 0 \<le> y \<and> y < GRID_HEIGHT"

definition restart_game :: "tetris \<Rightarrow> tetris" where
  "restart_game s =
     (let s1 = spawn_shape (s\<lparr>grid := (\<lambda>x y. if in_grid x y then 0 else grid s x y),
                 game_over := False, current_level := 0, lines_cleared := 0, score := 0\<rparr>)
      in s1\<lparr>out := out s1 @ [Delay 300]\<rparr>)"

subsection \<open>Clearing rows\<close>

definition copy_row :: "int \<Rightarrow> (int \<Rightarrow> int \<Rightarrow> int) \<Rightarrow> (int \<Rightarrow> int \<Rightarrow> int)" where
  "copy_row j g = (\<lambda>x y. if 0 \<le> x \<and> x < GRID_WIDTH \<and> y = j then g x (j - 1) else g x y)"

fun shift_rows :: "nat \<Rightarrow> (int \<Rightarrow> int \<Rightarrow> int) \<Rightarrow> (int \<Rightarrow> int \<Rightarrow> int)" where
  "shift_rows 0 g = g"
| "shift_rows (Suc j) g = shift_rows j (copy_row (int (Suc j)) g)"

definition destroy_row :: "nat \<Rightarrow> tetris \<Rightarrow> tetris" where
  "destroy_row row s =
     (let n = lines_cleared s + 1
      in s\<lparr>grid := shift_rows row (grid s), lines_cleared := n,
           current_level := (if n mod 10 = 0 then current_level s + 1 else current_level s)\<rparr>)"

definition clear_row :: "int \<Rightarrow> (int \<Rightarrow> int \<Rightarrow> int) \<Rightarrow> (int \<Rightarrow> int \<Rightarrow> int)" where
  "clear_row j g = (\<lambda>x y. if 0 \<le> x \<and> x < GRID_WIDTH \<and> y = j then 0 else g x y)"

text \<open>The loop over the rows from \<open>j\<close> on, \<open>n\<close> of them, with the count of destroyed rows.\<close>

fun clean_rows :: "nat \<Rightarrow> nat \<Rightarrow> int \<Rightarrow> tetris \<Rightarrow> int \<times> tetris" where
  "clean_rows 0 j count s = (count, s)"
| "clean_rows (Suc n) j count s =
     (if to_destroy s (int j) then
        clean_rows n (j + 1) (count + 1)
          (destroy_row j (s\<lparr>to_destroy := (to_destroy s)(int j := False), grid := clear_row (int j) (grid s)\<rparr>))
      else clean_rows n (j + 1) count s)"

definition clean_destroyed_blocks :: "tetris \<Rightarrow> tetris" where
  "clean_destroyed_blocks s =
     (case clean_rows 20 0 0 s of
        (count, s1) \<Rightarrow> if count \<noteq> 0 then s1\<lparr>score := score s1 + of_int (100 * (1 + 2 * (count - 1)))\<rparr> else s1)"

definition row_is_full :: "int \<Rightarrow> tetris \<Rightarrow> bool \<times> tetris" where
  "row_is_full y s =
     (if y < 0 \<or> to_destroy s y then (True, s)
      else if \<exists>x \<in> set [0..9]. grid s x y = 0 then (False, s)
      else (True, s\<lparr>to_destroy := (to_destroy s)(y := True)\<rparr>))"

subsection \<open>Locking\<close>

definition lock_block :: "nat \<Rightarrow> bool \<times> tetris \<Rightarrow> bool \<times> tetris" where
  "lock_block i = (\<lambda>(destroy, s).
     (case block (current_shape s) (current_x s) (current_y s) i of
        (x, y) \<Rightarrow>
          (let s1 = (if in_grid x y
                     then s\<lparr>grid := (grid s)(x := (grid s x)(y := current_shape_color s))\<rparr> else s)
           in case row_is_full y s1 of
                (True, s2) \<Rightarrow> (True, s2)
              | (False, s2) \<Rightarrow> (destroy, if y \<le> 0 then end_game s2 else s2))))"

definition lock_shape :: "tetris \<Rightarrow> tetris" where
  "lock_shape s =
     (case fold lock_block [0..<4] (False, s) of
        (destroy, s1) \<Rightarrow>
          (let s2 = (if destroy then clean_destroyed_blocks s1 else s1)
           in spawn_shape (reset_fall_freq (s2\<lparr>iteration := 0, score := score s2 + 1\<rparr>))))"

subsection \<open>Moving\<close>

definition detect_collision :: "int \<Rightarrow> int \<Rightarrow> tetris \<Rightarrow> bool" where
  "detect_collision x y s \<longleftrightarrow>
     (if x < 0 \<or> x \<ge> GRID_WIDTH then True
      else if y \<ge> GRID_HEIGHT then True
      else y \<ge> 0 \<and> grid s x y \<noteq> 0)"

definition collides :: "int list \<Rightarrow> int \<Rightarrow> int \<Rightarrow> tetris \<Rightarrow> bool" where
  "collides shape cx cy s \<longleftrightarrow>
     (\<exists>i \<in> set [0..<4]. case block shape cx cy i of (x, y) \<Rightarrow> detect_collision x y s)"

definition rotated :: "int list \<Rightarrow> int list" where
  "rotated sh = concat (map (\<lambda>i. [sh ! (i * 2 + 1), int8 (- (sh ! (i * 2)))]) [0..<4])"

definition rotate_shape :: "tetris \<Rightarrow> tetris" where
  "rotate_shape s =
     (let s1 = reset_fall_freq s
      in if current_shape_type s1 = 0 then s1
         else
           (let s2 = s1\<lparr>state_changed := True\<rparr>; temp = rotated (current_shape s2)
            in if collides temp (current_x s2) (current_y s2) s2 then s2 else s2\<lparr>current_shape := temp\<rparr>))"

definition move_side :: "int \<Rightarrow> tetris \<Rightarrow> tetris" where
  "move_side direction s =
     (let s1 = reset_fall_freq s
      in if collides (current_shape s1) (current_x s1 + direction) (current_y s1) s1 then s1
         else s1\<lparr>current_x := int8 (current_x s1 + direction), state_changed := True\<rparr>)"

definition fall :: "tetris \<Rightarrow> tetris" where
  "fall s =
     (let s1 = s\<lparr>iteration := iteration s + 1\<rparr>
      in if iteration s1 < fall_freq s1 then s1
         else
           (let s2 = s1\<lparr>iteration := 0\<rparr>
            in if collides (current_shape s2) (current_x s2) (current_y s2 + 1) s2 then lock_shape s2
               else s2\<lparr>current_y := int8 (current_y s2 + 1), state_changed := True\<rparr>))"

subsection \<open>The loop\<close>

fun handle_input_event :: "input_event \<Rightarrow> tetris \<Rightarrow> tetris" where
  "handle_input_event LEFT s = move_side (- 1) s"
| "handle_input_event RIGHT s = move_side 1 s"
| "handle_input_event ROTATE s = rotate_shape s"
| "handle_input_event HARD_DROP s = update_fall_freq HARD_FREQ s"
| "handle_input_event SOFT_DROP s = update_fall_freq SOFT_FREQ s"
| "handle_input_event _ s = s"

definition draw_grid :: "tetris \<Rightarrow> sdl_call list" where
  "draw_grid s = concat (map (\<lambda>x. concat (map (\<lambda>y. draw_block (panel s) x y (COLORS ! nat (grid s x y)))
     [0..19])) [0..9])"

definition draw_shape :: "tetris \<Rightarrow> sdl_call list" where
  "draw_shape s = concat (map (\<lambda>i. case block (current_shape s) (current_x s) (current_y s) i of
     (x, y) \<Rightarrow> if y \<ge> 0 then draw_block (panel s) x y (COLORS ! nat (current_shape_color s)) else []) [0..<4])"

definition update_frame :: "tetris \<Rightarrow> tetris" where
  "update_frame s =
     (if game_over s then s\<lparr>out := out s @ render_game_over_message (sint (score s))\<rparr>
      else if \<not> state_changed s then s
      else s\<lparr>out := out s @ clear_screen @ draw_grid s @ draw_shape s @
               render_frame (panel s) (sint (score s)) (uint (current_level s)),
             state_changed := False\<rparr>)"

text \<open>One frame; the result's first component is \<open>game_loop\<close>'s return value.\<close>

definition game_loop :: "sdl_event list \<Rightarrow> tetris \<Rightarrow> int \<times> sdl_event list \<times> tetris" where
  "game_loop pending s =
     (case listen_for_input pending of
        (event, rest) \<Rightarrow>
          if event = QUIT then (1, rest, s)
          else if game_over s then (0, rest, if event_code event > 0 then restart_game s else s)
          else
            (let s1 = update_frame (fall (handle_input_event event s))
             in (0, rest, s1\<lparr>out := out s1 @ [Delay 16]\<rparr>)))"

definition init_game :: "tetris \<Rightarrow> tetris" where
  "init_game = spawn_shape"

text \<open>
  The loop of \<open>main\<close> over the frames of a session: each frame's arrivals join the pending events.
  The result tells whether the loop was left.
\<close>

fun run_frames :: "sdl_event list list \<Rightarrow> sdl_event list \<Rightarrow> tetris \<Rightarrow> bool \<times> tetris" where
  "run_frames [] pending s = (False, s)"
| "run_frames (arrived # frames) pending s =
     (case game_loop (pending @ arrived) s of
        (res, rest, s1) \<Rightarrow> if res \<noteq> 0 then (True, s1) else run_frames frames rest s1)"

definition fresh_game :: "(nat \<Rightarrow> nat) \<Rightarrow> int \<times> int \<Rightarrow> tetris" where
  "fresh_game rs off =
     \<lparr>grid = (\<lambda>_ _. 0), to_destroy = (\<lambda>_. False), game_over = False, score = 0, iteration = 0,
      lines_cleared = 0, current_level = 0, fall_freq = 48, current_shape = replicate 8 0,
      current_shape_color = 0, current_shape_type = 0, current_x = 0, current_y = 0,
      state_changed = False, rands = rs, drawn = 0, panel = off, out = []\<rparr>"

end
