(* ===== verification/TetrisBoard.thy ===== *)
theory TetrisBoard
  imports Tetris
begin

text \<open>
  What locking a piece and clearing rows do to the board, stated on an abstract board: the list of
  its 20 rows from the top, each a list of 10 cells. The code marks rows while it puts the four
  blocks and then shifts the grid down in place, once for each marked row; the abstract operation
  drops the full rows and puts as many empty ones on top.
\<close>

subsection \<open>The board as a list of rows\<close>

definition row_of :: "(int \<Rightarrow> int \<Rightarrow> int) \<Rightarrow> int \<Rightarrow> int list" where
  "row_of g y = map (\<lambda>x. g x y) [0..9]"

definition rows :: "(int \<Rightarrow> int \<Rightarrow> int) \<Rightarrow> int list list" where
  "rows g = map (\<lambda>i. row_of g (int i)) [0..<20]"

definition empty_row :: "int list" where
  "empty_row = replicate 10 0"

definition full :: "int list \<Rightarrow> bool" where
  "full r \<longleftrightarrow> 0 \<notin> set r"

definition clear_full :: "int list list \<Rightarrow> int list list" where
  "clear_full rs =
     (let keep = filter (\<lambda>r. \<not> full r) rs
      in replicate (length rs - length keep) empty_row @ keep)"

lemma length_rows [simp]: "length (rows g) = 20"
  by (simp add: rows_def)

lemma nth_rows [simp]: "i < 20 \<Longrightarrow> rows g ! i = row_of g (int i)"
  by (simp add: rows_def)

lemma row_of_cong: "(\<And>x. 0 \<le> x \<Longrightarrow> x \<le> 9 \<Longrightarrow> g x y = h x z) \<Longrightarrow> row_of g y = row_of h z"
  by (simp add: row_of_def)

lemma row_of_empty: "row_of g y = empty_row \<longleftrightarrow> (\<forall>x. 0 \<le> x \<longrightarrow> x \<le> 9 \<longrightarrow> g x y = 0)"
proof -
  have e: "empty_row = map (\<lambda>_. 0) [0..9::int]"
    by (simp add: empty_row_def map_replicate_const)
  show ?thesis unfolding e row_of_def by auto
qed

lemma full_row_of: "full (row_of g y) \<longleftrightarrow> (\<forall>x. 0 \<le> x \<longrightarrow> x \<le> 9 \<longrightarrow> g x y \<noteq> 0)"
  by (auto simp: full_def row_of_def image_iff)

lemma empty_row_not_full [simp]: "\<not> full empty_row"
  by (simp add: full_def empty_row_def)

subsection \<open>Clearing the marked rows\<close>

lemma shift_rows_nth:
  "shift_rows j g x y =
     (if 0 \<le> x \<and> x < GRID_WIDTH \<and> 1 \<le> y \<and> y \<le> int j then g x (y - 1) else g x y)"
  by (induction j arbitrary: g) (auto simp: copy_row_def)

lemma shift_rows_rows:
  assumes "j < 20" and "row_of g 0 = r0" and "j = 0 \<Longrightarrow> r0 = empty_row"
  shows "rows (shift_rows j (clear_row (int j) g)) = r0 # take j (rows g) @ drop (Suc j) (rows g)"
proof (rule nth_equalityI)
  show "length (rows (shift_rows j (clear_row (int j) g))) =
      length (r0 # take j (rows g) @ drop (Suc j) (rows g))"
    using assms(1) by simp
next
  fix i assume "i < length (rows (shift_rows j (clear_row (int j) g)))"
  then have i: "i < 20" by simp
  consider "i = 0" | "0 < i" "i \<le> j" | "j < i" by linarith
  then show "rows (shift_rows j (clear_row (int j) g)) ! i =
      (r0 # take j (rows g) @ drop (Suc j) (rows g)) ! i"
  proof cases
    case 1
    show ?thesis
    proof (cases "j = 0")
      case True
      then have "row_of (clear_row 0 g) 0 = empty_row" by (simp add: row_of_empty clear_row_def)
      then show ?thesis using 1 True assms(3) by simp
    next
      case False
      then have "row_of (shift_rows j (clear_row (int j) g)) 0 = row_of g 0"
        by (intro row_of_cong) (auto simp: shift_rows_nth clear_row_def)
      then show ?thesis using 1 assms(2) by simp
    qed
  next
    case 2
    then have "i - 1 < j" and "i = Suc (i - 1)" by auto
    then have "(r0 # take j (rows g) @ drop (Suc j) (rows g)) ! i = rows g ! (i - 1)"
      using assms(1) by (metis length_rows length_take min.absorb4 nth_Cons_Suc nth_append_left nth_take)
    moreover have "row_of (shift_rows j (clear_row (int j) g)) (int i) = row_of g (int (i - 1))"
      using 2 by (intro row_of_cong) (auto simp: shift_rows_nth clear_row_def of_nat_diff)
    ultimately show ?thesis using i 2 by simp
  next
    case 3
    then have "\<not> i - 1 < j" and "i \<noteq> 0" and "Suc j + (i - 1 - j) = i" by auto
    then have "(r0 # take j (rows g) @ drop (Suc j) (rows g)) ! i = rows g ! i"
      using assms(1) i by (simp add: nth_Cons' nth_append)
    moreover have "row_of (shift_rows j (clear_row (int j) g)) (int i) = row_of g (int i)"
      using 3 by (intro row_of_cong) (auto simp: shift_rows_nth clear_row_def)
    ultimately show ?thesis using i by simp
  qed
qed

text \<open>The rows left to visit: \<open>destroy_row\<close> has moved the visited ones down, so they follow the empty ones.\<close>

lemma destroy_row_marks [simp]:
  "to_destroy (destroy_row j s) = to_destroy s" "game_over (destroy_row j s) = game_over s"
  "score (destroy_row j s) = score s" "lines_cleared (destroy_row j s) = lines_cleared s + 1"
  "grid (destroy_row j s) = shift_rows j (grid s)"
  by (simp_all add: destroy_row_def Let_def)

definition marked :: "(int \<Rightarrow> bool) \<Rightarrow> nat \<Rightarrow> nat \<Rightarrow> nat list" where
  "marked m j n = filter (\<lambda>i. m (int i)) [j..<n]"

lemma clean_rows_result:
  assumes "n + j = 20" and "row_of (grid s) 0 = r0" and "to_destroy s 0 \<Longrightarrow> r0 = empty_row"
    and "clean_rows n j c s = (c', s')"
  defines "k \<equiv> length (marked (to_destroy s) j 20)"
  shows "c' = c + int k \<and> lines_cleared s' = lines_cleared s + of_nat k \<and> score s' = score s \<and>
    game_over s' = game_over s \<and> (\<forall>y. to_destroy s' y \<longleftrightarrow> to_destroy s y \<and> \<not> (int j \<le> y \<and> y < 20)) \<and>
    rows (grid s') = replicate k r0 @ take j (rows (grid s)) @
      nths (drop j (rows (grid s))) {i. \<not> to_destroy s (int (j + i))}"
  using assms(1-4) unfolding k_def
proof (induction n arbitrary: j c s)
  case 0
  then show ?case by (auto simp: marked_def nths_def)
next
  case (Suc n)
  then have j: "j < 20" by simp
  let ?R = "rows (grid s)"
  have upt: "[j..<20] = j # [Suc j..<20]" using j by (simp add: upt_conv_Cons)
  have drop: "drop j ?R = row_of (grid s) (int j) # drop (Suc j) ?R"
    using j by (metis Cons_nth_drop_Suc length_rows nth_rows)
  show ?case
  proof (cases "to_destroy s (int j)")
    case False
    have r: "clean_rows n (Suc j) c s = (c', s')" using Suc.prems(4) False by simp
    have t: "take (Suc j) ?R = take j ?R @ [row_of (grid s) (int j)]"
      using j by (simp add: take_Suc_conv_app_nth)
    have mj: "marked (to_destroy s) j 20 = marked (to_destroy s) (Suc j) 20"
      using False by (simp add: marked_def upt)
    have n: "nths (drop j ?R) {i. \<not> to_destroy s (int (j + i))} =
        row_of (grid s) (int j) # nths (drop (Suc j) ?R) {i. \<not> to_destroy s (int (Suc j + i))}"
      using False by (simp add: drop nths_Cons ac_simps)
    have ge: "int (Suc j) \<le> y \<longleftrightarrow> int j \<le> y" if "to_destroy s y" for y
      using that False by (cases "y = int j") auto
    have IH: "c' = c + int (length (marked (to_destroy s) (Suc j) 20)) \<and>
      lines_cleared s' = lines_cleared s + of_nat (length (marked (to_destroy s) (Suc j) 20)) \<and>
      score s' = score s \<and> game_over s' = game_over s \<and>
      (\<forall>y. to_destroy s' y \<longleftrightarrow> to_destroy s y \<and> \<not> (int (Suc j) \<le> y \<and> y < 20)) \<and>
      rows (grid s') = replicate (length (marked (to_destroy s) (Suc j) 20)) r0 @
        take (Suc j) ?R @ nths (drop (Suc j) ?R) {i. \<not> to_destroy s (int (Suc j + i))}"
      by (rule Suc.IH [OF _ Suc.prems(2) _ r]) (use Suc.prems(1,3) in simp_all)
    show ?thesis
      using IH ge unfolding mj n t by (simp only: append.assoc append_Cons append_Nil) blast
  next
    case True
    let ?s = "destroy_row j (s\<lparr>to_destroy := (to_destroy s)(int j := False), grid := clear_row (int j) (grid s)\<rparr>)"
    have r: "clean_rows n (Suc j) (c + 1) ?s = (c', s')" using Suc.prems(4) True by simp
    have R: "rows (grid ?s) = r0 # take j ?R @ drop (Suc j) ?R"
      using shift_rows_rows [OF j Suc.prems(2)] Suc.prems(3) True by (cases "j = 0") simp_all
    have "rows (grid ?s) ! 0 = r0" by (simp only: R nth_Cons_0)
    then have e: "row_of (grid ?s) 0 = r0" by simp
    have m: "marked (to_destroy ?s) (Suc j) 20 = marked (to_destroy s) (Suc j) 20"
      by (auto simp: marked_def intro!: filter_cong)
    have mj: "marked (to_destroy s) j 20 = j # marked (to_destroy s) (Suc j) 20"
      using True by (simp add: marked_def upt)
    have sets: "{i. \<not> to_destroy ?s (int (Suc j + i))} = {i. \<not> to_destroy s (int (Suc j + i))}"
      by auto
    have t: "take (Suc j) (rows (grid ?s)) = r0 # take j ?R"
      "drop (Suc j) (rows (grid ?s)) = drop (Suc j) ?R"
      unfolding R using j by simp_all
    have n: "nths (drop j ?R) {i. \<not> to_destroy s (int (j + i))} =
        nths (drop (Suc j) ?R) {i. \<not> to_destroy s (int (Suc j + i))}"
      using True by (simp add: drop nths_Cons ac_simps)
    have IH: "c' = c + 1 + int (length (marked (to_destroy ?s) (Suc j) 20)) \<and>
      lines_cleared s' = lines_cleared ?s + of_nat (length (marked (to_destroy ?s) (Suc j) 20)) \<and>
      score s' = score ?s \<and> game_over s' = game_over ?s \<and>
      (\<forall>y. to_destroy s' y \<longleftrightarrow> to_destroy ?s y \<and> \<not> (int (Suc j) \<le> y \<and> y < 20)) \<and>
      rows (grid s') = replicate (length (marked (to_destroy ?s) (Suc j) 20)) r0 @
        take (Suc j) (rows (grid ?s)) @
        nths (drop (Suc j) (rows (grid ?s))) {i. \<not> to_destroy ?s (int (Suc j + i))}"
      by (rule Suc.IH [OF _ e _ r]) (use Suc.prems(1,3) in \<open>simp_all split: if_splits\<close>)
    have td: "to_destroy ?s y \<and> \<not> (int (Suc j) \<le> y \<and> y < 20) \<longleftrightarrow>
        to_destroy s y \<and> \<not> (int j \<le> y \<and> y < 20)" for y
      using j by auto
    have lc: "lines_cleared ?s = lines_cleared s + 1" "score ?s = score s" "game_over ?s = game_over s"
      by simp_all
    have rep: "replicate k r0 @ r0 # xs = replicate (Suc k) r0 @ xs" for k xs
      by (simp add: replicate_app_Cons_same)
    show ?thesis
      using IH unfolding m t sets mj n lc td
      by (simp add: rep del: replicate_Suc)
  qed
qed

subsection \<open>Locking the piece\<close>

definition cells :: "tetris \<Rightarrow> (int \<times> int) list" where
  "cells s = map (block (current_shape s) (current_x s) (current_y s)) [0..<4]"

definition put_cells :: "int \<Rightarrow> (int \<times> int) list \<Rightarrow> (int \<Rightarrow> int \<Rightarrow> int) \<Rightarrow> (int \<Rightarrow> int \<Rightarrow> int)" where
  "put_cells c cs g = (\<lambda>x y. if in_grid x y \<and> (x, y) \<in> set cs then c else g x y)"

lemma length_cells [simp]: "length (cells s) = 4"
  by (simp add: cells_def)

lemma nth_cells [simp]: "i < 4 \<Longrightarrow> cells s ! i = block (current_shape s) (current_x s) (current_y s) i"
  by (simp add: cells_def)

lemma top_row_not_full:
  assumes "row_of g 0 = empty_row" and "length cs < 10"
  shows "\<not> full (row_of (put_cells c cs g) 0)"
proof
  assume f: "full (row_of (put_cells c cs g) 0)"
  have "x \<in> fst ` set cs" if "x \<in> {0..9}" for x
  proof -
    have "put_cells c cs g x 0 \<noteq> 0" and "g x 0 = 0"
      using f assms(1) that by (auto simp: full_row_of row_of_empty)
    then show ?thesis by (force simp: put_cells_def split: if_splits)
  qed
  then have "card {0..9::int} \<le> card (fst ` set cs)" by (intro card_mono) auto
  also have "\<dots> \<le> length cs" using card_image_le [of "set cs" fst] card_length [of cs] by simp
  finally show False using assms(2) by simp
qed

lemma row_is_full_result:
  "row_is_full y s =
     (if y < 0 \<or> to_destroy s y \<or> full (row_of (grid s) y)
      then (True, if y < 0 \<or> to_destroy s y then s else s\<lparr>to_destroy := (to_destroy s)(y := True)\<rparr>)
      else (False, s))"
  by (auto simp: row_is_full_def full_row_of)

lemma lock_blocks_result:
  assumes "\<And>i. i < 4 \<Longrightarrow> fst (cells s ! i) \<in> {0..9} \<and> snd (cells s ! i) < 20"
    and "current_shape_color s \<noteq> 0" and "row_of (grid s) 0 = empty_row"
    and "\<And>y. \<not> to_destroy s y" and "\<not> game_over s" and "n \<le> 4"
  shows "\<exists>d td os. fold lock_block [0..<n] (False, s) =
      (d, s\<lparr>grid := put_cells (current_shape_color s) (take n (cells s)) (grid s), to_destroy := td,
            game_over := (\<exists>i<n. snd (cells s ! i) = 0), out := os\<rparr>) \<and>
    (\<forall>y. td y \<longleftrightarrow> 0 \<le> y \<and> (\<exists>i<n. snd (cells s ! i) = y) \<and>
      full (row_of (put_cells (current_shape_color s) (take n (cells s)) (grid s)) y)) \<and>
    (\<not> d \<longrightarrow> (\<forall>y. \<not> td y))"
  using assms(6)
proof (induction n)
  case 0
  have e: "put_cells c [] g = g" for c g by (simp add: put_cells_def)
  have "to_destroy s = (\<lambda>_. False)" using assms(4) by auto
  then have "s = s\<lparr>to_destroy := \<lambda>_. False, game_over := False\<rparr>"
    using assms(5) by (cases s) simp
  then show ?case
    by (intro exI [of _ False] exI [of _ "\<lambda>_. False"] exI [of _ "out s"]) (simp add: e)
next
  case (Suc n)
  let ?c = "current_shape_color s"
  let ?g = "\<lambda>n. put_cells ?c (take n (cells s)) (grid s)"
  from Suc obtain d td os where
    f: "fold lock_block [0..<n] (False, s) = (d, s\<lparr>grid := ?g n, to_destroy := td,
            game_over := (\<exists>i<n. snd (cells s ! i) = 0), out := os\<rparr>)" and
    td: "\<And>y. td y \<longleftrightarrow> 0 \<le> y \<and> (\<exists>i<n. snd (cells s ! i) = y) \<and> full (row_of (?g n) y)" and
    d: "\<not> d \<Longrightarrow> (\<forall>y. \<not> td y)"
    by auto
  obtain x y where xy: "cells s ! n = (x, y)" by fastforce
  have n: "n < 4" using Suc.prems by simp
  have b: "block (current_shape s) (current_x s) (current_y s) n = (x, y)" using xy n by simp
  have r: "0 \<le> x" "x \<le> 9" "y < 20" using assms(1) [OF n] xy by auto
  have tk: "take (Suc n) (cells s) = take n (cells s) @ [(x, y)]"
    using n xy by (simp add: take_Suc_conv_app_nth)
  have g: "(if in_grid x y then (?g n)(x := (?g n x)(y := ?c)) else ?g n) = ?g (Suc n)"
    by (auto simp: tk put_cells_def fun_eq_iff)
  have ex: "(\<exists>i<Suc n. P (snd (cells s ! i))) \<longleftrightarrow> (\<exists>i<n. P (snd (cells s ! i))) \<or> P y" for P
    using xy by (auto simp: less_Suc_eq)
  have mono: "full (row_of (?g n) z) \<Longrightarrow> full (row_of (?g (Suc n)) z)" for z
    using assms(2) by (auto simp: full_row_of tk put_cells_def split: if_splits)
  have same: "z \<noteq> y \<Longrightarrow> row_of (?g (Suc n)) z = row_of (?g n) z" for z
    by (intro row_of_cong) (auto simp: tk put_cells_def)
  have top: "\<not> full (row_of (?g (Suc n)) 0)"
    by (rule top_row_not_full) (use assms(3) in simp_all)
  have td0: "\<not> td 0" using td top mono by blast
  define s0 where "s0 = s\<lparr>grid := ?g n, to_destroy := td,
            game_over := (\<exists>i<n. snd (cells s ! i) = 0), out := os\<rparr>"
  define s1 where "s1 = s0\<lparr>grid := ?g (Suc n)\<rparr>"
  have put: "(if in_grid x y then s0\<lparr>grid := (grid s0)(x := (grid s0 x)(y := current_shape_color s0))\<rparr> else s0) = s1"
    unfolding s1_def g [symmetric] by (simp add: s0_def)
  have b0: "block (current_shape s0) (current_x s0) (current_y s0) n = (x, y)"
    by (simp add: s0_def b)
  have "fold lock_block [0..<Suc n] (False, s) = lock_block n (d, s0)"
    using f by (simp add: s0_def)
  also have "\<dots> = (case row_is_full y s1 of (True, s2) \<Rightarrow> (True, s2) | (False, s2) \<Rightarrow> (d, if y \<le> 0 then end_game s2 else s2))"
    by (simp only: lock_block_def prod.case b0 put Let_def)
  finally have step: "fold lock_block [0..<Suc n] (False, s) = \<dots>" .
  let ?full = "full (row_of (?g (Suc n)) y)"
  have td_y: "td y \<Longrightarrow> ?full" using td mono by blast
  have rf: "row_is_full y s1 = (y < 0 \<or> ?full,
      if 0 \<le> y \<and> ?full then s1\<lparr>to_destroy := td(y := True)\<rparr> else s1)"
    using td_y by (auto simp: row_is_full_result s1_def s0_def fun_upd_idem)
  define td' where "td' = (if 0 \<le> y \<and> ?full then td(y := True) else td)"
  have td': "td' z \<longleftrightarrow> 0 \<le> z \<and> (\<exists>i<Suc n. snd (cells s ! i) = z) \<and> full (row_of (?g (Suc n)) z)" for z
    using td [of z] td_y mono [of z] same [of z] unfolding ex [of "\<lambda>v. v = z"] td'_def
    by (cases "z = y") auto
  have over: "(\<exists>i<Suc n. snd (cells s ! i) = 0) \<longleftrightarrow> (\<exists>i<n. snd (cells s ! i) = 0) \<or> y = 0"
    by (rule ex)
  show ?case
  proof (cases "y < 0 \<or> ?full")
    case True
    then have "y \<noteq> 0" using top by auto
    then have "s1\<lparr>to_destroy := td'\<rparr> = s\<lparr>grid := ?g (Suc n), to_destroy := td',
        game_over := (\<exists>i<Suc n. snd (cells s ! i) = 0), out := os\<rparr>"
      using over by (simp add: s1_def s0_def)
    moreover have "fold lock_block [0..<Suc n] (False, s) = (True, s1\<lparr>to_destroy := td'\<rparr>)"
      unfolding step rf using True by (simp add: td'_def s1_def s0_def)
    ultimately have "fold lock_block [0..<Suc n] (False, s) = (True, s\<lparr>grid := ?g (Suc n), to_destroy := td',
        game_over := (\<exists>i<Suc n. snd (cells s ! i) = 0), out := os\<rparr>)"
      by (simp only:)
    then show ?thesis
      by (intro exI conjI allI impI) (assumption, rule td', simp)
  next
    case False
    then have dd: "\<not> d \<Longrightarrow> \<not> td' y" for y using d by (simp add: td'_def)
    have "(if y \<le> 0 then end_game s1 else s1) = s\<lparr>grid := ?g (Suc n), to_destroy := td',
        game_over := (\<exists>i<Suc n. snd (cells s ! i) = 0), out := (if y \<le> 0 then os @ clear_screen else os)\<rparr>"
      using over False by (simp add: s1_def s0_def end_game_def td'_def)
    moreover have "fold lock_block [0..<Suc n] (False, s) = (d, if y \<le> 0 then end_game s1 else s1)"
      unfolding step rf using False by simp
    ultimately have "fold lock_block [0..<Suc n] (False, s) = (d, s\<lparr>grid := ?g (Suc n), to_destroy := td',
        game_over := (\<exists>i<Suc n. snd (cells s ! i) = 0), out := (if y \<le> 0 then os @ clear_screen else os)\<rparr>)"
      by (simp only:)
    then show ?thesis
      by (intro exI conjI allI impI) (assumption, rule td', rule dd)
  qed
qed

text \<open>
  What locking needs of the state, and what the play keeps (theory \<open>TetrisPlay\<close>): the blocks are in
  the columns of the grid and above its bottom, no row is marked or full, and the top row is empty.
\<close>

definition lockable :: "tetris \<Rightarrow> bool" where
  "lockable s \<longleftrightarrow>
     (\<forall>i<4. fst (cells s ! i) \<in> {0..9} \<and> snd (cells s ! i) < 20) \<and>
     current_shape_color s \<noteq> 0 \<and> row_of (grid s) 0 = empty_row \<and>
     (\<forall>y. \<not> to_destroy s y) \<and> \<not> game_over s \<and> (\<forall>i<20. \<not> full (row_of (grid s) (int i)))"

definition placed :: "tetris \<Rightarrow> int list list" where
  "placed s = rows (put_cells (current_shape_color s) (cells s) (grid s))"

definition full_count :: "int list list \<Rightarrow> nat" where
  "full_count rs = length (filter full rs)"

lemma spawn_shape_frame [simp]:
  "grid (spawn_shape s) = grid s" "to_destroy (spawn_shape s) = to_destroy s"
  "game_over (spawn_shape s) = game_over s" "score (spawn_shape s) = score s"
  "iteration (spawn_shape s) = iteration s" "lines_cleared (spawn_shape s) = lines_cleared s"
  "fall_freq (spawn_shape s) = fall_freq s"
  "drawn (spawn_shape s) = drawn s + 2" "state_changed (spawn_shape s)"
  by (simp_all add: spawn_shape_def Let_def)

lemma nths_cong: "(\<And>i. i < length xs \<Longrightarrow> i \<in> A \<longleftrightarrow> i \<in> B) \<Longrightarrow> nths xs A = nths xs B"
proof (induction xs arbitrary: A B)
  case (Cons x xs)
  have "nths xs {j. Suc j \<in> A} = nths xs {j. Suc j \<in> B}"
    using Cons.prems by (intro Cons.IH) force
  moreover have "0 \<in> A \<longleftrightarrow> 0 \<in> B" using Cons.prems by simp
  ultimately show ?case by (simp add: nths_Cons)
qed simp

lemma clean_full_rows:
  assumes "row_of (grid s) 0 = r0" and "\<not> to_destroy s 0" and "\<And>i. i < 20 \<Longrightarrow> to_destroy s (int i) = full (row_of (grid s) (int i))"
    and "\<And>y. to_destroy s y \<Longrightarrow> 0 \<le> y \<and> y < 20"
  defines "k \<equiv> full_count (rows (grid s))" and "s' \<equiv> clean_destroyed_blocks s"
  shows "rows (grid s') = replicate k r0 @ filter (\<lambda>r. \<not> full r) (rows (grid s))" "lines_cleared s' = lines_cleared s + of_nat k"
    "score s' = score s + (if k = 0 then 0 else of_nat (100 * (2 * k - 1)))"
    "game_over s' = game_over s" "\<not> to_destroy s' y"
proof -
  let ?R = "rows (grid s)"
  obtain c s1 where r: "clean_rows 20 0 0 s = (c, s1)" by fastforce
  have "full_count ?R = length (filter (\<lambda>i. full (row_of (grid s) (int i))) [0..<20])"
    by (simp only: full_count_def rows_def filter_map length_map comp_def)
  also have "filter (\<lambda>i. full (row_of (grid s) (int i))) [0..<20] = marked (to_destroy s) 0 20"
    unfolding marked_def by (rule filter_cong) (simp_all add: assms(3))
  finally have k: "length (marked (to_destroy s) 0 20) = k" by (simp add: k_def)
  have "nths ?R {i. \<not> to_destroy s (int i)} = nths ?R {i. i < length ?R \<and> \<not> full (?R ! i)}"
    by (rule nths_cong) (simp add: assms(3))
  then have keep: "nths ?R {i. \<not> to_destroy s (int i)} = filter (\<lambda>r. \<not> full r) ?R"
    by (simp only: filter_eq_nths)
  have res: "c = int k \<and> lines_cleared s1 = lines_cleared s + of_nat k \<and> score s1 = score s \<and>
      game_over s1 = game_over s \<and> (\<forall>y. to_destroy s1 y \<longleftrightarrow> to_destroy s y \<and> \<not> (0 \<le> y \<and> y < 20)) \<and>
      rows (grid s1) = replicate k r0 @ filter (\<lambda>r. \<not> full r) ?R"
    using clean_rows_result [OF _ assms(1) _ r] assms(2) by (simp add: k keep)
  have s': "s' = (if k \<noteq> 0 then s1\<lparr>score := score s1 + of_int (100 * (1 + 2 * (int k - 1)))\<rparr> else s1)"
    using res by (simp add: s'_def clean_destroyed_blocks_def r)
  have n: "100 * (1 + 2 * (int k - 1)) = int (100 * (2 * k - 1))" if "k \<noteq> 0" using that by (simp add: of_nat_diff)
  show "rows (grid s') = replicate k r0 @ filter (\<lambda>r. \<not> full r) ?R" "lines_cleared s' = lines_cleared s + of_nat k"
    "game_over s' = game_over s" "\<not> to_destroy s' y"
    using res assms(4) by (auto simp: s')
  show "score s' = score s + (if k = 0 then 0 else of_nat (100 * (2 * k - 1)))"
    using res n by (simp add: s' del: of_int_mult of_int_add of_nat_mult)
qed

lemma clear_full_count:
  "clear_full rs = replicate (full_count rs) empty_row @ filter (\<lambda>r. \<not> full r) rs"
  using sum_length_filter_compl [of full rs]
  by (simp add: clear_full_def full_count_def Let_def)

lemma lock_shape_result:
  assumes "lockable s"
  defines "k \<equiv> full_count (placed s)" and "s' \<equiv> lock_shape s"
  shows "rows (grid s') = replicate k (hd (placed s)) @ filter (\<lambda>r. \<not> full r) (placed s)"
    and "lines_cleared s' = lines_cleared s + of_nat k"
    and "score s' = score s + (if k = 0 then 1 else of_nat (100 * (2 * k - 1) + 1))"
    and "game_over s' \<longleftrightarrow> (\<exists>i<4. snd (cells s ! i) = 0)" and "\<not> to_destroy s' y"
proof -
  let ?g = "put_cells (current_shape_color s) (cells s) (grid s)"
  have ok: "\<And>i. i < 4 \<Longrightarrow> fst (cells s ! i) \<in> {0..9} \<and> snd (cells s ! i) < 20"
    "current_shape_color s \<noteq> 0" "row_of (grid s) 0 = empty_row" "\<And>y. \<not> to_destroy s y" "\<not> game_over s"
    "\<And>i. i < 20 \<Longrightarrow> \<not> full (row_of (grid s) (int i))"
    using assms(1) unfolding lockable_def by blast+
  from lock_blocks_result [OF ok(1-5), of 4] obtain d td os where
    l: "fold lock_block [0..<4] (False, s) = (d, s\<lparr>grid := ?g, to_destroy := td,
          game_over := (\<exists>i<4. snd (cells s ! i) = 0), out := os\<rparr>)" and
    td: "\<And>y. td y \<longleftrightarrow> 0 \<le> y \<and> (\<exists>i<4. snd (cells s ! i) = y) \<and> full (row_of ?g y)" and
    d: "\<not> d \<Longrightarrow> (\<forall>y. \<not> td y)"
    by (auto simp del: upt_Suc)
  define s1 where "s1 = s\<lparr>grid := ?g, to_destroy := td, game_over := (\<exists>i<4. snd (cells s ! i) = 0), out := os\<rparr>"
  define s2 where "s2 = (if d then clean_destroyed_blocks s1 else s1)"
  have s': "s' = spawn_shape (reset_fall_freq (s2\<lparr>iteration := 0, score := score s2 + 1\<rparr>))"
    unfolding s'_def lock_shape_def l s2_def s1_def by (simp only: prod.case Let_def)
  have top: "\<not> full (row_of ?g 0)" by (rule top_row_not_full) (simp_all add: ok(3))
  have td_full: "td (int i) = full (row_of ?g (int i))" if "i < 20" for i
  proof (cases "\<exists>j<4. snd (cells s ! j) = int i")
    case False
    then have "(x, int i) \<notin> set (cells s)" for x by (force simp: in_set_conv_nth)
    then have "row_of ?g (int i) = row_of (grid s) (int i)" by (intro row_of_cong) (simp add: put_cells_def)
    then show ?thesis using ok(6) [OF that] td [of "int i"] False by (simp only:) blast
  next
    case True
    then show ?thesis using td [of "int i"] of_nat_0_le_iff [of i, where ?'a = int] by blast
  qed
  have td_range: "0 \<le> y \<and> y < 20" if "td y" for y
  proof -
    from that td obtain i where "i < 4" "snd (cells s ! i) = y" "0 \<le> y" by blast
    with ok(1) [of i] show ?thesis by simp
  qed
  have R: "rows (grid s1) = placed s" "row_of (grid s1) 0 = hd (placed s)"
    by (simp_all add: s1_def placed_def rows_def upt_conv_Cons)
  have "rows (grid s2) = replicate k (hd (placed s)) @ filter (\<lambda>r. \<not> full r) (placed s) \<and>
    lines_cleared s2 = lines_cleared s + of_nat k \<and>
    score s2 = score s + (if k = 0 then 0 else of_nat (100 * (2 * k - 1))) \<and>
    (game_over s2 \<longleftrightarrow> (\<exists>i<4. snd (cells s ! i) = 0)) \<and> (\<forall>y. \<not> to_destroy s2 y)"
  proof (cases d)
    case True
    have "\<not> to_destroy s1 0" using td top by (simp add: s1_def)
    note c = clean_full_rows [OF R(2) this, unfolded R(1), folded k_def]
    show ?thesis
      using c td_full td_range by (simp add: s2_def True s1_def)
  next
    case False
    then have nf: "\<not> full (row_of ?g (int i))" if "i < 20" for i using d td_full that by blast
    then have "\<not> full r" if "r \<in> set (placed s)" for r
      using that by (auto simp: placed_def rows_def)
    then have "filter full (placed s) = []" "filter (\<lambda>r. \<not> full r) (placed s) = placed s"
      by (auto simp: filter_empty_conv)
    then show ?thesis using R(1) d False by (simp add: s2_def k_def full_count_def s1_def)
  qed
  then show "rows (grid s') = replicate k (hd (placed s)) @ filter (\<lambda>r. \<not> full r) (placed s)"
    and "lines_cleared s' = lines_cleared s + of_nat k"
    and "score s' = score s + (if k = 0 then 1 else of_nat (100 * (2 * k - 1) + 1))"
    and "game_over s' \<longleftrightarrow> (\<exists>i<4. snd (cells s ! i) = 0)" and "\<not> to_destroy s' y"
    by (simp_all add: s' reset_fall_freq_def)
qed

lemma lock_clears_rows:
  assumes "lockable s"
  shows "(\<not> game_over (lock_shape s) \<longrightarrow>
      rows (grid (lock_shape s)) = clear_full (placed s) \<and> hd (placed s) = empty_row) \<and>
    (game_over (lock_shape s) \<longleftrightarrow> (\<exists>i<4. snd (cells s ! i) = 0))"
proof -
  have "hd (placed s) = empty_row" if "\<not> (\<exists>i<4. snd (cells s ! i) = 0)"
  proof -
    have "(x, 0) \<notin> set (cells s)" for x using that by (force simp: in_set_conv_nth)
    then have "row_of (put_cells (current_shape_color s) (cells s) (grid s)) 0 = row_of (grid s) 0"
      by (intro row_of_cong) (simp add: put_cells_def)
    then show ?thesis using assms by (simp add: lockable_def placed_def rows_def upt_conv_Cons)
  qed
  then show ?thesis
    using lock_shape_result(1,4) [OF assms] by (simp add: clear_full_count del: nth_cells)
qed

text \<open>
  C31. Locking a piece implements the abstract move: the four blocks are put on the board, the full
  rows are dropped and as many empty rows appear on top; a line is counted for each of them and the
  score grows by one and by 100, 300, 500 or 700 for the lines. The game ends exactly if a block
  was put in the top row, and then the board keeps that row (nothing is cleared above it).
\<close>

theorem lock_clears_full_rows:
  assumes "lockable s"
  shows "(\<not> game_over (lock_shape s) \<longrightarrow> rows (grid (lock_shape s)) = clear_full (placed s)) \<and>
    (game_over (lock_shape s) \<longleftrightarrow> (\<exists>i<4. snd (cells s ! i) = 0)) \<and>
    lines_cleared (lock_shape s) = lines_cleared s + of_nat (full_count (placed s)) \<and>
    score (lock_shape s) = score s + 1 +
      (if full_count (placed s) = 0 then 0 else of_nat (100 * (2 * full_count (placed s) - 1)))"
  using lock_clears_rows [OF assms] lock_shape_result(2,3) [OF assms] by simp

definition two_gaps :: tetris where
  "two_gaps = (fresh_game (\<lambda>_. 0) (0, 0))\<lparr>
     grid := (\<lambda>x y. if y \<ge> 18 \<and> x \<noteq> 5 \<and> x \<noteq> 6 then 3 else if y = 17 \<and> x = 0 then 4 else 0),
     current_shape := SHAPES ! 0, current_shape_color := 7, current_x := 5, current_y := 18\<rparr>"

lemma two_gaps_parts:
  "cells two_gaps = [(5, 18), (6, 18), (5, 19), (6, 19)]"
  "grid two_gaps = (\<lambda>x y. if y \<ge> 18 \<and> x \<noteq> 5 \<and> x \<noteq> 6 then 3 else if y = 17 \<and> x = 0 then 4 else 0)"
  "current_shape_color two_gaps = 7" "score two_gaps = 0"
  "\<not> to_destroy two_gaps y" "\<not> game_over two_gaps"
proof -
  show "cells two_gaps = [(5, 18), (6, 18), (5, 19), (6, 19)]" by code_simp
qed (simp_all add: two_gaps_def fresh_game_def)

lemma two_gaps_placed:
  "placed two_gaps = replicate 17 empty_row @ [4 # replicate 9 0] @ replicate 2 [3, 3, 3, 3, 3, 7, 7, 3, 3, 3]"
proof -
  have "[0..9 :: int] = [0, 1, 2, 3, 4, 5, 6, 7, 8, 9]"
    and "[0..<20] = [0, 1, 2, 3, 4, 5, 6, 7, 8, 9, 10, 11, 12, 13, 14, 15, 16, 17, 18, 19]"
    by (code_simp+)
  then show ?thesis
    by (simp add: placed_def rows_def row_of_def two_gaps_parts empty_row_def put_cells_def in_grid_def eval_nat_numeral)
qed

theorem lock_clears_full_rows_witness:
  "rows (grid (lock_shape two_gaps)) = replicate 19 empty_row @ [4 # replicate 9 0] \<and>
   score (lock_shape two_gaps) = 301"
proof -
  have "\<forall>i<20. \<not> full (row_of (grid two_gaps) (int i))"
    by (auto simp: full_row_of two_gaps_parts intro!: exI [of _ 5])
  moreover have "row_of (grid two_gaps) 0 = empty_row" by (simp add: row_of_empty two_gaps_parts)
  moreover have "\<forall>i<4. fst (cells two_gaps ! i) \<in> {0..9} \<and> snd (cells two_gaps ! i) < 20" by code_simp
  ultimately have l: "lockable two_gaps"
    unfolding lockable_def by (simp add: two_gaps_parts(3,5,6) del: nth_cells)
  have c: "clear_full (placed two_gaps) = replicate 19 empty_row @ [4 # replicate 9 0]"
      "full_count (placed two_gaps) = 2"
    unfolding two_gaps_placed clear_full_def full_count_def by (code_simp+)
  have "\<not> (\<exists>i<4. snd (cells two_gaps ! i) = 0)" by code_simp
  with lock_clears_full_rows [OF l] show ?thesis
    by (simp add: c two_gaps_parts(4) del: nth_cells)
qed

end
