(* ===== verification/TetrisPlay.thy ===== *)
theory TetrisPlay
  imports TetrisBoard
begin

text \<open>
  The play as a whole: an invariant of the game's globals kept by every frame of every session,
  which puts each array access of \<open>game.c\<close> in bounds and the falling piece over empty cells, and
  the progress of the falling piece whatever the player does.
\<close>

subsection \<open>The invariant\<close>

definition shape_ok :: "int list \<Rightarrow> bool" where
  "shape_ok sh \<longleftrightarrow> length sh = 8 \<and> (\<forall>i<8. - 2 \<le> sh ! i \<and> sh ! i \<le> 2)"

definition inside :: "int list \<Rightarrow> int \<Rightarrow> int \<Rightarrow> bool" where
  "inside sh cx cy \<longleftrightarrow> - 2 \<le> cy \<and>
     (\<forall>i<4. 0 \<le> sh ! (i * 2) + cx \<and> sh ! (i * 2) + cx \<le> 9 \<and> sh ! (i * 2 + 1) + cy \<le> 19)"

definition clear_below :: "tetris \<Rightarrow> bool" where
  "clear_below s \<longleftrightarrow>
     row_of (grid s) 0 = empty_row \<and> (\<forall>i<20. \<not> full (row_of (grid s) (int i))) \<and>
     (\<forall>i<4. 0 \<le> snd (cells s ! i) \<longrightarrow> grid s (fst (cells s ! i)) (snd (cells s ! i)) = 0)"

definition playing :: "tetris \<Rightarrow> bool" where
  "playing s \<longleftrightarrow>
     shape_ok (current_shape s) \<and> inside (current_shape s) (current_x s) (current_y s) \<and>
     current_shape_type s < 7 \<and> 1 \<le> current_shape_color s \<and> current_shape_color s \<le> 13 \<and>
     (\<forall>x y. in_grid x y \<longrightarrow> 0 \<le> grid s x y \<and> grid s x y \<le> 13) \<and> (\<forall>y. \<not> to_destroy s y) \<and>
     1 \<le> fall_freq s \<and> fall_freq s \<le> 48 \<and> iteration s < 48 \<and>
     (game_over s \<or> clear_below s)"

lemma playing_parts:
  assumes "playing s"
  shows "shape_ok (current_shape s)" "inside (current_shape s) (current_x s) (current_y s)"
    "current_shape_type s < 7" "1 \<le> current_shape_color s" "current_shape_color s \<le> 13"
    "in_grid x y \<Longrightarrow> 0 \<le> grid s x y \<and> grid s x y \<le> 13" "\<not> to_destroy s y"
    "1 \<le> fall_freq s" "fall_freq s \<le> 48" "iteration s < 48"
  using assms by (simp_all add: playing_def)

lemma shape_ok_nth:
  assumes "shape_ok sh" and "i < 4"
  shows "- 2 \<le> sh ! (i * 2) \<and> sh ! (i * 2) \<le> 2 \<and> - 2 \<le> sh ! (i * 2 + 1) \<and> sh ! (i * 2 + 1) \<le> 2"
proof -
  have "i * 2 < 8" "i * 2 + 1 < 8" using assms(2) by auto
  with assms(1) show ?thesis unfolding shape_ok_def by blast
qed

lemma block_inside:
  assumes "shape_ok sh" and "- 12 \<le> cx" and "cx \<le> 12" and "- 3 \<le> cy" and "cy \<le> 22" and "i < 4"
  shows "block sh cx cy i = (sh ! (i * 2) + cx, sh ! (i * 2 + 1) + cy)"
  using shape_ok_nth [OF assms(1,6)] assms(2-5) unfolding block_def by (intro prod.expand) simp

lemma inside_range:
  assumes "shape_ok sh" and "inside sh cx cy"
  shows "- 2 \<le> cx \<and> cx \<le> 11 \<and> - 2 \<le> cy \<and> cy \<le> 21"
proof -
  have "- 2 \<le> sh ! 0 \<and> sh ! 0 \<le> 2" "- 2 \<le> sh ! 1" using assms(1) by (simp_all add: shape_ok_def)
  moreover have "0 \<le> sh ! 0 + cx \<and> sh ! 0 + cx \<le> 9 \<and> sh ! 1 + cy \<le> 19 \<and> - 2 \<le> cy"
    using assms(2) unfolding inside_def by force
  ultimately show ?thesis by auto
qed

text \<open>A position the code's test accepts is a position of the invariant.\<close>

lemma not_collides:
  assumes "\<not> collides sh cx cy s" and "shape_ok sh" and "- 12 \<le> cx" and "cx \<le> 12" and "- 2 \<le> cy" and "cy \<le> 22"
  shows "inside sh cx cy \<and> (\<forall>i<4. case block sh cx cy i of (x, y) \<Rightarrow> 0 \<le> y \<longrightarrow> grid s x y = 0)"
proof -
  have c: "\<not> (case block sh cx cy i of (x, y) \<Rightarrow> detect_collision x y s)" if "i < 4" for i
    using assms(1) that by (simp add: collides_def)
  have b: "block sh cx cy i = (sh ! (i * 2) + cx, sh ! (i * 2 + 1) + cy)" if "i < 4" for i
    using block_inside [OF assms(2-4) _ assms(6) that] assms(5) by simp
  have "0 \<le> sh ! (i * 2) + cx \<and> sh ! (i * 2) + cx \<le> 9 \<and> sh ! (i * 2 + 1) + cy \<le> 19 \<and>
      (0 \<le> sh ! (i * 2 + 1) + cy \<longrightarrow> grid s (sh ! (i * 2) + cx) (sh ! (i * 2 + 1) + cy) = 0)" if "i < 4" for i
    using c [OF that] b [OF that] by (auto simp: detect_collision_def split: if_splits)
  then show ?thesis using assms(5) b by (simp add: inside_def)
qed

lemma playing_lockable:
  assumes "playing s" and "\<not> game_over s"
  shows "lockable s"
proof -
  note r = inside_range [OF playing_parts(1,2) [OF assms(1)]]
  have b: "cells s ! i = (current_shape s ! (i * 2) + current_x s, current_shape s ! (i * 2 + 1) + current_y s)" if "i < 4" for i
    using block_inside [OF playing_parts(1) [OF assms(1)] _ _ _ _ that] r that by simp
  have "fst (cells s ! i) \<in> {0..9} \<and> snd (cells s ! i) < 20" if "i < 4" for i
    using playing_parts(2) [OF assms(1)] that unfolding b [OF that] inside_def by force
  then show ?thesis
    using assms by (simp add: lockable_def playing_def clear_below_def del: nth_cells)
qed

subsection \<open>Spawning\<close>

lemma SHAPES_ok:
  assumes "t < 7"
  shows "shape_ok (SHAPES ! t) \<and>
    (\<forall>i<4. - 1 \<le> SHAPES ! t ! (i * 2) \<and> SHAPES ! t ! (i * 2) \<le> 1 \<and> - 1 \<le> SHAPES ! t ! (i * 2 + 1))"
proof -
  have "\<forall>t<7. shape_ok (SHAPES ! t) \<and>
    (\<forall>i<4. - 1 \<le> SHAPES ! t ! (i * 2) \<and> SHAPES ! t ! (i * 2) \<le> 1 \<and> - 1 \<le> SHAPES ! t ! (i * 2 + 1))"
    by code_simp
  with assms show ?thesis by blast
qed

lemma spawn_y_range: "cy \<le> spawn_y s n cy \<and> spawn_y s n cy \<le> cy + int n"
  by (induction s n cy rule: spawn_y.induct) auto

text \<open>The piece goes down from row -2 as long as its next position is free.\<close>

lemma spawn_y_free:
  assumes "\<And>i. i < 4 \<Longrightarrow> case block (current_shape s) (current_x s) cy i of (x, y) \<Rightarrow> 0 \<le> y \<longrightarrow> grid s x y = 0"
    and "i < 4"
  shows "case block (current_shape s) (current_x s) (spawn_y s n cy) i of (x, y) \<Rightarrow> 0 \<le> y \<longrightarrow> grid s x y = 0"
  using assms
proof (induction s n cy rule: spawn_y.induct)
  case (2 s n cy)
  show ?case
  proof (cases "top_blocked s cy")
    case False
    then have "case block (current_shape s) (current_x s) (cy + 1) i of (x, y) \<Rightarrow> 0 \<le> y \<longrightarrow> grid s x y = 0"
      if "i < 4" for i
      using that by (fastforce simp: top_blocked_def split: prod.splits)
    then show ?thesis using 2 False by simp
  qed (use 2 in simp)
qed simp

lemma spawn_shape_playing:
  assumes "\<And>x y. in_grid x y \<Longrightarrow> 0 \<le> grid s x y \<and> grid s x y \<le> 13" and "\<And>y. \<not> to_destroy s y"
    and "1 \<le> fall_freq s" and "fall_freq s \<le> 48" and "iteration s < 48"
    and "game_over s \<or> row_of (grid s) 0 = empty_row \<and> (\<forall>i<20. \<not> full (row_of (grid s) (int i)))"
  shows "playing (spawn_shape s)"
proof -
  define t where "t = rands s (drawn s) mod 7"
  define s1 where "s1 = s\<lparr>state_changed := True, current_shape_type := t,
      current_shape_color := int (rands s (drawn s + 1) mod 13) + 1,
      current_shape := SHAPES ! t, current_x := GRID_WIDTH div 2, drawn := drawn s + 2\<rparr>"
  define cy where "cy = spawn_y s1 2 (- 2)"
  have s': "spawn_shape s = s1\<lparr>current_y := cy\<rparr>"
    by (simp add: spawn_shape_def Let_def s1_def t_def cy_def)
  have t: "t < 7" by (simp add: t_def)
  note sh = SHAPES_ok [OF t]
  have cy: "- 2 \<le> cy \<and> cy \<le> 0" using spawn_y_range [of "- 2" s1 2] by (simp add: cy_def)
  have in5: "inside (SHAPES ! t) 5 y" if "- 2 \<le> y" "y \<le> 0" for y
    unfolding inside_def
  proof (intro conjI allI impI)
    fix i :: nat assume "i < 4"
    with sh have "- 1 \<le> SHAPES ! t ! (i * 2) \<and> SHAPES ! t ! (i * 2) \<le> 1" "SHAPES ! t ! (i * 2 + 1) \<le> 2"
      using shape_ok_nth by blast+
    then show "0 \<le> SHAPES ! t ! (i * 2) + 5" "SHAPES ! t ! (i * 2) + 5 \<le> 9" "SHAPES ! t ! (i * 2 + 1) + y \<le> 19"
      using that by auto
  qed (rule that)
  have free: "case block (SHAPES ! t) 5 cy i of (x, y) \<Rightarrow> 0 \<le> y \<longrightarrow> grid s x y = 0"
    if r0: "row_of (grid s) 0 = empty_row" and "i < 4" for i
  proof -
    have "case block (SHAPES ! t) 5 (- 2) i of (x, y) \<Rightarrow> 0 \<le> y \<longrightarrow> grid s x y = 0" if "i < 4" for i
    proof -
      have "block (SHAPES ! t) 5 (- 2) i = (SHAPES ! t ! (i * 2) + 5, SHAPES ! t ! (i * 2 + 1) + - 2)"
        using sh that by (intro block_inside) auto
      moreover have "SHAPES ! t ! (i * 2 + 1) \<le> 2" "- 1 \<le> SHAPES ! t ! (i * 2)" "SHAPES ! t ! (i * 2) \<le> 1"
        using sh shape_ok_nth that by blast+
      ultimately show ?thesis using r0 by (auto simp: row_of_empty)
    qed
    then show ?thesis
      using spawn_y_free [of s1 "- 2" i 2] that by (simp add: s1_def cy_def)
  qed
  have "rands s (drawn s + 1) mod 13 < 13" by simp
  then show ?thesis
    using assms sh t in5 [of cy] cy free [unfolded case_prod_unfold]
    unfolding s' playing_def clear_below_def
    by (auto simp: s1_def cells_def split: prod.splits)
qed

subsection \<open>Every operation keeps the invariant\<close>

lemma get_curr_fall_freq_range: "1 \<le> get_curr_fall_freq s \<and> get_curr_fall_freq s \<le> 48"
proof -
  have all: "\<forall>f \<in> set LEVEL_FREQS. 1 \<le> f \<and> f \<le> 48" by code_simp
  have len: "length LEVEL_FREQS = 15" by (simp add: LEVEL_FREQS_def)
  have "unat (current_level s) < 15" if "\<not> 15 \<le> current_level s"
    using that by (simp add: word_le_nat_alt)
  then have "get_curr_fall_freq s \<in> set LEVEL_FREQS"
    unfolding get_curr_fall_freq_def by (simp add: len)
  with all show ?thesis by blast
qed

lemma reset_fall_freq_playing: "playing s \<Longrightarrow> playing (reset_fall_freq s)"
  using get_curr_fall_freq_range [of s]
  by (simp add: playing_def clear_below_def reset_fall_freq_def cells_def)

lemma update_fall_freq_playing:
  assumes "playing s" and "1 \<le> new" and "new \<le> 48"
  shows "playing (update_fall_freq new s)"
  using get_curr_fall_freq_range [of s] assms
  by (simp add: playing_def clear_below_def update_fall_freq_def cells_def Let_def)

lemma reset_fall_freq_frame [simp]:
  "current_shape (reset_fall_freq s) = current_shape s" "current_x (reset_fall_freq s) = current_x s"
  "current_y (reset_fall_freq s) = current_y s" "grid (reset_fall_freq s) = grid s"
  "game_over (reset_fall_freq s) = game_over s" "drawn (reset_fall_freq s) = drawn s"
  "iteration (reset_fall_freq s) = iteration s"
  by (simp_all add: reset_fall_freq_def)

text \<open>Moving the piece to a position that does not collide.\<close>

lemma moved_playing:
  assumes "playing s" and "\<not> collides sh cx cy s" and "shape_ok sh" and "- 12 \<le> cx" and "cx \<le> 12"
    and "- 2 \<le> cy" and "cy \<le> 22" and "it < 48"
  shows "playing (s\<lparr>current_shape := sh, current_x := cx, current_y := cy, state_changed := ch, iteration := it\<rparr>)"
  using not_collides [OF assms(2-7)] assms(1,3,8)
  unfolding playing_def clear_below_def by (auto simp: cells_def case_prod_unfold)

lemma move_side_playing:
  assumes "playing s" and "d = - 1 \<or> d = 1"
  shows "playing (move_side d s)"
proof -
  define s1 where "s1 = reset_fall_freq s"
  have p: "playing s1" using reset_fall_freq_playing [OF assms(1)] by (simp add: s1_def)
  note r = inside_range [OF playing_parts(1,2) [OF p]]
  show ?thesis
  proof (cases "collides (current_shape s1) (current_x s1 + d) (current_y s1) s1")
    case False
    have "int8 (current_x s1 + d) = current_x s1 + d" using r assms(2) by (intro int8_id) auto
    then have "move_side d s = s1\<lparr>current_shape := current_shape s1, current_x := current_x s1 + d,
        current_y := current_y s1, state_changed := True, iteration := iteration s1\<rparr>"
      using False by (simp add: move_side_def Let_def s1_def [symmetric])
    then show ?thesis
      using moved_playing [OF p False playing_parts(1) [OF p] _ _ _ _ playing_parts(10) [OF p]] r assms(2) by auto
  qed (use p in \<open>simp add: move_side_def Let_def s1_def [symmetric]\<close>)
qed

lemma rotated_ok:
  assumes "shape_ok sh"
  shows "shape_ok (rotated sh)"
proof -
  note n = shape_ok_nth [OF assms]
  have i8: "int8 (- (sh ! (i * 2))) = - (sh ! (i * 2))" if "i < 4" for i
    using n [OF that] by (intro int8_id) auto
  have r: "rotated sh = [sh ! 1, - (sh ! 0), sh ! 3, - (sh ! 2), sh ! 5, - (sh ! 4), sh ! 7, - (sh ! 6)]"
    using i8 [of 0] i8 [of 1] i8 [of 2] i8 [of 3] by (simp add: rotated_def upt_rec numeral_eq_Suc)
  have "\<forall>v \<in> set (rotated sh). - 2 \<le> v \<and> v \<le> 2"
    unfolding r using n [of 0] n [of 1] n [of 2] n [of 3] by simp
  moreover have "length (rotated sh) = 8" by (simp add: r)
  ultimately show ?thesis unfolding shape_ok_def by (metis nth_mem)
qed

lemma rotate_shape_playing:
  assumes "playing s"
  shows "playing (rotate_shape s)"
proof -
  define s1 where "s1 = reset_fall_freq s"
  define sh where "sh = rotated (current_shape s1)"
  have p: "playing s1" using reset_fall_freq_playing [OF assms(1)] by (simp add: s1_def)
  then have p2: "playing (s1\<lparr>state_changed := True\<rparr>)" by (simp add: playing_def clear_below_def cells_def)
  note r = inside_range [OF playing_parts(1,2) [OF p]]
  have ok: "shape_ok sh" using rotated_ok [OF playing_parts(1) [OF p]] by (simp add: sh_def)
  have u: "rotate_shape s = (if current_shape_type s1 = 0 then s1
     else if collides sh (current_x s1) (current_y s1) (s1\<lparr>state_changed := True\<rparr>) then s1\<lparr>state_changed := True\<rparr>
     else s1\<lparr>current_shape := sh, current_x := current_x s1, current_y := current_y s1, state_changed := True,
       iteration := iteration s1\<rparr>)"
    by (simp add: rotate_shape_def Let_def s1_def [symmetric] sh_def)
  have "collides sh x y (s1\<lparr>state_changed := True\<rparr>) = collides sh x y s1" for x y
    by (simp add: collides_def detect_collision_def)
  then show ?thesis
    unfolding u
    using p p2 moved_playing [OF p _ ok _ _ _ _ playing_parts(10) [OF p], of "current_x s1" "current_y s1" True] r
    by auto
qed

text \<open>Locking: what the abstract board says about the next state's grid.\<close>

lemma cell_in_rows: "in_grid x y \<Longrightarrow> \<exists>r \<in> set (rows g). g x y \<in> set r"
proof -
  assume "in_grid x y"
  then have "nat y < 20" "int (nat y) = y" "x \<in> {0..9}" by (auto simp: in_grid_def)
  moreover from this have "row_of g y \<in> set (rows g)" by (metis length_rows nth_mem nth_rows)
  ultimately show ?thesis by (intro bexI [of _ "row_of g y"]) (simp_all add: row_of_def)
qed

lemma rows_cells:
  assumes "r \<in> set (rows g)" and "v \<in> set r"
  shows "\<exists>x y. in_grid x y \<and> v = g x y"
proof -
  from assms(1) obtain i where "i < 20" "r = row_of g (int i)" by (auto simp: rows_def)
  with assms(2) obtain x where "0 \<le> x" "x \<le> 9" "v = g x (int i)" by (auto simp: row_of_def)
  with \<open>i < 20\<close> show ?thesis by (intro exI [of _ x] exI [of _ "int i"]) (simp add: in_grid_def)
qed

lemma lock_shape_playing:
  assumes "playing s" and "\<not> game_over s"
  shows "playing (lock_shape s) \<and> iteration (lock_shape s) = 0"
proof -
  note l = lock_shape_result [OF playing_lockable [OF assms]]
  note over = lock_clears_rows [OF playing_lockable [OF assms]]
  obtain s2 where s2: "lock_shape s = spawn_shape (reset_fall_freq (s2\<lparr>iteration := 0, score := score s2 + 1\<rparr>))"
    by (cases "fold lock_block [0..<4] (False, s)") (simp only: lock_shape_def prod.case Let_def)
  define s3 where "s3 = reset_fall_freq (s2\<lparr>iteration := 0, score := score s2 + 1\<rparr>)"
  have s3: "lock_shape s = spawn_shape s3" "iteration s3 = 0" "fall_freq s3 = get_curr_fall_freq s3"
    by (simp_all add: s2 s3_def) (simp add: reset_fall_freq_def get_curr_fall_freq_def)
  have "length (placed s) = 20" by (simp add: placed_def)
  then have "hd (placed s) \<in> set (placed s)" by (intro hd_in_set) auto
  moreover have "rows (grid s3) = replicate (full_count (placed s)) (hd (placed s)) @
      filter (\<lambda>r. \<not> full r) (placed s)"
    using l(1) unfolding s3(1) by simp
  ultimately have sub: "set (rows (grid s3)) \<subseteq> set (placed s)" by (auto simp: set_replicate_conv_if)
  have col: "0 \<le> put_cells (current_shape_color s) (cells s) (grid s) x y \<and>
      put_cells (current_shape_color s) (cells s) (grid s) x y \<le> 13" if "in_grid x y" for x y
    using playing_parts(4-6) [OF assms(1)] that by (auto simp: put_cells_def)
  have "playing (spawn_shape s3)"
  proof (rule spawn_shape_playing)
    fix x y assume "in_grid x y"
    from cell_in_rows [OF this] sub obtain r where "r \<in> set (placed s)" "grid s3 x y \<in> set r" by blast
    then obtain u v where "in_grid u v"
      "grid s3 x y = put_cells (current_shape_color s) (cells s) (grid s) u v"
      using rows_cells unfolding placed_def by blast
    with col show "0 \<le> grid s3 x y \<and> grid s3 x y \<le> 13" by simp
  next
    show "\<not> to_destroy s3 y" for y using l(5) by (simp add: s3)
    show "1 \<le> fall_freq s3" "fall_freq s3 \<le> 48" using get_curr_fall_freq_range s3(3) by simp_all
    show "iteration s3 < 48" by (simp add: s3)
    show "game_over s3 \<or> row_of (grid s3) 0 = empty_row \<and> (\<forall>i<20. \<not> full (row_of (grid s3) (int i)))"
    proof (cases "game_over s3")
      case False
      then have r: "rows (grid s3) = clear_full (placed s)" and h: "hd (placed s) = empty_row"
        using over by (simp_all add: s3)
      have "\<not> full x" if "x \<in> set (rows (grid s3))" for x
        using that unfolding r by (auto simp: clear_full_count)
      then have "\<not> full (row_of (grid s3) (int i))" if "i < 20" for i
        using that by (metis length_rows nth_mem nth_rows)
      moreover have "row_of (grid s3) 0 = hd (clear_full (placed s))"
        unfolding r [symmetric] by (simp add: rows_def upt_conv_Cons)
      moreover have "hd (clear_full (placed s)) = empty_row"
      proof (cases "full_count (placed s)")
        case 0
        then have "filter (\<lambda>r. \<not> full r) (placed s) = placed s"
          by (auto simp: full_count_def filter_empty_conv intro!: filter_True)
        then show ?thesis using 0 h by (simp add: clear_full_count)
      qed (simp add: clear_full_count)
      ultimately show ?thesis by simp
    qed simp
  qed
  then show ?thesis by (simp add: s3)
qed

lemma fall_playing:
  assumes "playing s" and "\<not> game_over s"
  shows "playing (fall s)"
proof -
  note r = inside_range [OF playing_parts(1,2) [OF assms(1)]]
  note it = playing_parts(9,10) [OF assms(1)]
  have it1: "iteration s + 1 < 48" if "iteration s + 1 < fall_freq s" using it that by simp
  have p: "playing (s\<lparr>iteration := i\<rparr>)" if "i < 48" for i
    using assms(1) that by (simp add: playing_def clear_below_def cells_def)
  have e: "s\<lparr>iteration := 0, current_y := y, state_changed := True\<rparr> = s\<lparr>current_y := y, state_changed := True, iteration := 0\<rparr>" for y
    by (cases s) simp
  have "int8 (current_y s + 1) = current_y s + 1" using r by (intro int8_id) auto
  moreover have "collides sh cx cy (s\<lparr>iteration := 0\<rparr>) = collides sh cx cy s" for sh cx cy
    by (simp add: collides_def detect_collision_def)
  moreover have "playing (lock_shape (s\<lparr>iteration := 0\<rparr>))"
    using lock_shape_playing [OF p [of 0]] assms(2) by simp
  ultimately show ?thesis
    using p it1 moved_playing [OF p [of 0], of "current_shape s" "current_x s" "current_y s + 1" 0 True]
      playing_parts(1) [OF assms(1)] r
    by (auto simp: fall_def Let_def e)
qed

lemma restart_game_playing:
  assumes "playing s"
  shows "playing (restart_game s)"
proof -
  define s0 where "s0 = s\<lparr>grid := (\<lambda>x y. if in_grid x y then 0 else grid s x y),
                 game_over := False, current_level := 0, lines_cleared := 0, score := 0\<rparr>"
  have z: "row_of (grid s0) (int i) = empty_row" if "i < 20" for i
    using that by (simp add: row_of_empty s0_def in_grid_def)
  have "playing (spawn_shape s0)"
  proof (rule spawn_shape_playing)
    show "in_grid x y \<Longrightarrow> 0 \<le> grid s0 x y \<and> grid s0 x y \<le> 13" for x y by (simp add: s0_def)
    show "game_over s0 \<or> row_of (grid s0) 0 = empty_row \<and> (\<forall>i<20. \<not> full (row_of (grid s0) (int i)))"
      using z z [of 0] by simp
  qed (use assms in \<open>simp_all add: s0_def playing_def\<close>)
  then have "playing (spawn_shape s0\<lparr>out := out (spawn_shape s0) @ [Delay 300]\<rparr>)"
    by (simp add: playing_def clear_below_def cells_def)
  then show ?thesis by (simp add: restart_game_def Let_def s0_def)
qed

lemma update_frame_playing:
  assumes "playing s"
  shows "playing ((update_frame s)\<lparr>out := os\<rparr>)"
  using assms by (auto simp: update_frame_def playing_def clear_below_def cells_def)

lemma handle_input_event_frame [simp]:
  "game_over (handle_input_event e s) = game_over s" "drawn (handle_input_event e s) = drawn s"
  "current_y (handle_input_event e s) = current_y s" "iteration (handle_input_event e s) = iteration s"
  by (cases e; simp add: move_side_def rotate_shape_def update_fall_freq_def Let_def)+

lemma handle_input_event_playing:
  assumes "playing s"
  shows "playing (handle_input_event e s)"
proof (cases e)
  case HARD_DROP
  then show ?thesis using update_fall_freq_playing [OF assms, of HARD_FREQ] by (simp add: HARD_FREQ_def)
next
  case SOFT_DROP
  then show ?thesis using update_fall_freq_playing [OF assms, of SOFT_FREQ] by (simp add: SOFT_FREQ_def)
qed (use assms in \<open>simp_all add: move_side_playing rotate_shape_playing\<close>)

lemma game_loop_playing:
  assumes "playing s" and "game_loop pending s = (r, rest, s')"
  shows "playing s'"
proof -
  obtain e es where l: "listen_for_input pending = (e, es)" by fastforce
  define s1 where "s1 = update_frame (fall (handle_input_event e s))"
  have "\<not> game_over s \<Longrightarrow> playing (s1\<lparr>out := os\<rparr>)" for os
    unfolding s1_def using assms(1)
    by (intro update_frame_playing fall_playing handle_input_event_playing) simp_all
  then show ?thesis
    using assms restart_game_playing [OF assms(1)] unfolding game_loop_def l
    by (auto simp: s1_def [symmetric] Let_def split: if_splits)
qed

lemma run_frames_playing: "playing s \<Longrightarrow> playing (snd (run_frames frames pending s))"
  by (induction frames pending s rule: run_frames.induct)
    (auto split: prod.splits dest: game_loop_playing)

lemma init_game_playing: "playing (init_game (fresh_game rs off))"
  unfolding init_game_def
  by (rule spawn_shape_playing) (simp_all add: fresh_game_def row_of_empty full_row_of, auto)

text \<open>
  C30. The invariant of the game holds after every frame of every session, whatever the random
  numbers and the player's events: the piece's blocks are in the columns of the grid and above its
  bottom, so the reads and writes of the grid are in bounds; colours and levels index their tables;
  no row is left marked; and while the game is on, no row is full, the top row is empty and the
  piece is over empty cells, so locking it never overwrites a block.
\<close>

theorem session_playing:
  "playing (snd (run_frames frames pending (init_game (fresh_game rs off))))"
  by (rule run_frames_playing [OF init_game_playing])

subsection \<open>The falling piece makes progress\<close>

text \<open>The frames left before the piece must have been locked: 48 for each row below it.\<close>

definition fall_room :: "tetris \<Rightarrow> nat" where
  "fall_room s = 48 * nat (22 - current_y s) + (48 - unat (iteration s))"

lemma lock_block_drawn: "drawn (snd (lock_block i p)) = drawn (snd p)"
  by (cases p) (auto simp: lock_block_def Let_def row_is_full_def end_game_def split: prod.splits if_splits)

lemma lock_blocks_drawn: "drawn (snd (fold lock_block is p)) = drawn (snd p)"
  by (induction "is" arbitrary: p) (simp_all add: lock_block_drawn)

lemma clean_rows_drawn: "drawn (snd (clean_rows n j c s)) = drawn s"
  by (induction n j c s rule: clean_rows.induct) (simp_all add: destroy_row_def Let_def)

lemma clean_destroyed_blocks_drawn: "drawn (clean_destroyed_blocks s) = drawn s"
  using clean_rows_drawn [of 20 0 0 s]
  by (auto simp: clean_destroyed_blocks_def split: prod.splits)

lemma lock_shape_drawn: "drawn (lock_shape s) = drawn s + 2"
  using lock_blocks_drawn [of "[0..<4]" "(False, s)"]
  by (auto simp: lock_shape_def Let_def clean_destroyed_blocks_drawn simp del: upt_Suc split: prod.splits)

lemma fall_progress:
  assumes "playing s" and "\<not> game_over s"
  shows "drawn (fall s) = drawn s + 2 \<or>
    drawn (fall s) = drawn s \<and> \<not> game_over (fall s) \<and> fall_room (fall s) < fall_room s"
proof -
  have y: "- 2 \<le> current_y s \<and> current_y s \<le> 21" using inside_range [OF playing_parts(1,2) [OF assms(1)]] by simp
  have it: "unat (iteration s) < 48" using playing_parts(10) [OF assms(1)] by (simp add: word_less_nat_alt)
  have "int8 (current_y s + 1) = current_y s + 1" using y by (intro int8_id) auto
  moreover have "unat (iteration s + 1) = unat (iteration s) + 1"
    using it by (intro unat_add_lem [THEN iffD1, THEN trans]) auto
  moreover have "nat (22 - current_y s) = Suc (nat (21 - current_y s))" using y by (simp add: nat_diff_distrib' Suc_nat_eq_nat_zadd1)
  ultimately show ?thesis
    using it assms(2) y by (auto simp: fall_def Let_def lock_shape_drawn fall_room_def)
qed

lemma update_frame_keeps [simp]:
  "drawn (update_frame s) = drawn s" "game_over (update_frame s) = game_over s"
  "current_y (update_frame s) = current_y s" "iteration (update_frame s) = iteration s"
  by (simp_all add: update_frame_def)

lemma game_loop_progress:
  assumes "playing s" and "\<not> game_over s" and "game_loop pending s = (r, rest, s')" and "r = 0"
  shows "drawn s' = drawn s + 2 \<or> drawn s' = drawn s \<and> \<not> game_over s' \<and> fall_room s' < fall_room s"
proof -
  obtain e es where l: "listen_for_input pending = (e, es)" by fastforce
  have s': "s' = (let s1 = update_frame (fall (handle_input_event e s)) in s1\<lparr>out := out s1 @ [Delay 16]\<rparr>)"
    using assms unfolding game_loop_def l by (auto simp: Let_def split: if_splits)
  show ?thesis
    using fall_progress [OF handle_input_event_playing [OF assms(1)], of e] assms(2)
    by (simp add: s' Let_def fall_room_def)
qed

lemma piece_locks_within:
  assumes "playing s" and "\<not> game_over s" and "fall_room s \<le> length frames"
  shows "\<exists>n \<le> length frames. fst (run_frames (take n frames) pending s) \<or>
    drawn (snd (run_frames (take n frames) pending s)) = drawn s + 2"
  using assms
proof (induction frames arbitrary: pending s)
  case Nil
  then have "unat (iteration s) < 48" using playing_parts(10) [OF Nil(1)] by (simp add: word_less_nat_alt)
  then show ?case using Nil by (simp add: fall_room_def)
next
  case (Cons fr frames)
  obtain r rest s1 where g: "game_loop (pending @ fr) s = (r, rest, s1)" by (cases "game_loop (pending @ fr) s") auto
  show ?case
  proof (cases "r = 0 \<and> drawn s1 \<noteq> drawn s + 2")
    case False
    then show ?thesis by (intro exI [of _ 1]) (auto simp: g)
  next
    case True
    then have p: "drawn s1 = drawn s \<and> \<not> game_over s1 \<and> fall_room s1 < fall_room s"
      using game_loop_progress [OF Cons.prems(1,2) g] by simp
    then have "\<exists>n \<le> length frames. fst (run_frames (take n frames) rest s1) \<or>
        drawn (snd (run_frames (take n frames) rest s1)) = drawn s1 + 2"
    proof (intro Cons.IH [OF game_loop_playing [OF Cons.prems(1) g]])
      show "\<not> game_over s1" using p by simp
      have "fall_room s \<le> Suc (length frames)" using Cons.prems(3) by simp
      then show "fall_room s1 \<le> length frames" using p by linarith
    qed
    then obtain n where "n \<le> length frames" "fst (run_frames (take n frames) rest s1) \<or>
        drawn (snd (run_frames (take n frames) rest s1)) = drawn s1 + 2" by blast
    then show ?thesis
      using p True by (intro exI [of _ "Suc n"]) (simp add: g)
  qed
qed

text \<open>
  C32. A piece cannot be kept in the air: from any state of the play and whatever the player does,
  within 1200 frames the game is quit or the piece has been locked and the next one drawn.
\<close>

theorem piece_locks:
  assumes "playing s" and "\<not> game_over s" and "1200 \<le> length frames"
  shows "\<exists>n \<le> length frames. fst (run_frames (take n frames) pending s) \<or>
    drawn (snd (run_frames (take n frames) pending s)) = drawn s + 2"
proof (rule piece_locks_within [OF assms(1,2)])
  have "- 2 \<le> current_y s" using inside_range [OF playing_parts(1,2) [OF assms(1)]] by simp
  then have "nat (22 - current_y s) \<le> 24" by linarith
  then show "fall_room s \<le> length frames" using assms(3) by (simp add: fall_room_def)
qed

theorem piece_locks_witness:
  "\<exists>n \<le> 1200.
     let (quit, s') = run_frames (take n (replicate 1200 [SDL_KEYDOWN SDLK_UP])) []
       (init_game (fresh_game (\<lambda>i. i) (0, 0))) in quit \<or> drawn s' = 4"
proof -
  have o: "\<not> game_over (init_game (fresh_game (\<lambda>i. i) (0, 0)))" "drawn (init_game (fresh_game (\<lambda>i. i) (0, 0))) = 2"
    by (simp_all add: init_game_def) (simp_all add: fresh_game_def)
  show ?thesis
    using piece_locks [OF init_game_playing o(1), of "replicate 1200 [SDL_KEYDOWN SDLK_UP]" "[]"]
    unfolding o(2) by (simp add: case_prod_unfold Let_def)
qed

end
