(* ===== verification/CurlText.thy ===== *)
theory CurlText
  imports Prelude
begin

text \<open>
  The text functions of the curl layer of git's port (\<open>bin/git/port/ewokos/curl_compat.c\<close>): URL
  schemes, origins and redirect targets, header names, the base64 of \<open>curl_basic_auth\<close> and the
  percent encoding of \<open>curl_easy_escape\<close>. A C string is the list of its characters without the
  terminator; a position in it is its index. Allocation is added by the callers (\<open>CurlState\<close>).
\<close>

unbundle bit_operations_syntax

subsection \<open>The string functions used\<close>

text \<open>Equality up to case of the first \<open>n\<close> characters; neither string holds a terminator.\<close>

definition strncase_eq :: "nat \<Rightarrow> string \<Rightarrow> string \<Rightarrow> bool" where
  "strncase_eq n a b \<longleftrightarrow> map tolower (take n a) = map tolower (take n b)"

definition strcase_eq :: "string \<Rightarrow> string \<Rightarrow> bool" where
  "strcase_eq a b \<longleftrightarrow> map tolower a = map tolower b"

fun strstr :: "string \<Rightarrow> string \<Rightarrow> nat option" where
  "strstr s sub =
     (if take (length sub) s = sub then Some 0
      else case s of [] \<Rightarrow> None | c # cs \<Rightarrow> map_option Suc (strstr cs sub))"

declare strstr.simps [simp del]

fun strchr :: "string \<Rightarrow> char \<Rightarrow> nat option" where
  "strchr [] c = None"
| "strchr (x # xs) c = (if x = c then Some 0 else map_option Suc (strchr xs c))"

fun strpbrk :: "string \<Rightarrow> char set \<Rightarrow> nat option" where
  "strpbrk [] cs = None"
| "strpbrk (x # xs) cs = (if x \<in> cs then Some 0 else map_option Suc (strpbrk xs cs))"

text \<open>The character at an index, the terminator at the end.\<close>

definition char_at :: "string \<Rightarrow> nat \<Rightarrow> char" where
  "char_at s i = (if i < length s then s ! i else NUL)"

text \<open>\<open>snprintf\<close> into a buffer of \<open>n\<close> bytes.\<close>

definition snprintf :: "nat \<Rightarrow> string \<Rightarrow> string" where
  "snprintf n s = take (n - 1) s"

subsection \<open>URLs\<close>

definition CURLPROTO_HTTP :: int where "CURLPROTO_HTTP = 1"
definition CURLPROTO_HTTPS :: int where "CURLPROTO_HTTPS = 2"

definition is_https :: "string \<Rightarrow> bool" where
  "is_https url = strncase_eq 8 url ''https://''"

definition curl_scheme_allowed :: "string \<Rightarrow> int \<Rightarrow> bool" where
  "curl_scheme_allowed url protocols =
     (if is_https url then protocols AND CURLPROTO_HTTPS \<noteq> 0
      else if strncase_eq 7 url ''http://'' then protocols AND CURLPROTO_HTTP \<noteq> 0
      else False)"

definition host_length :: "string \<Rightarrow> nat" where
  "host_length host = (case strchr host (CHR ''/'') of Some e \<Rightarrow> e | None \<Rightarrow> length host)"

definition curl_same_origin :: "string \<Rightarrow> string \<Rightarrow> bool" where
  "curl_same_origin a b =
     (case (strstr a ''://'', strstr b ''://'') of
        (Some a_scheme, Some b_scheme) \<Rightarrow>
          (let a_host = drop (a_scheme + 3) a; b_host = drop (b_scheme + 3) b;
               a_len = host_length a_host; b_len = host_length b_host
           in a_scheme = b_scheme \<and> a_len = b_len \<and> strncase_eq a_scheme a b \<and> strncase_eq a_len a_host b_host)
      | _ \<Rightarrow> True)"

text \<open>The last \<open>/\<close> between two indices.\<close>

definition last_slash :: "string \<Rightarrow> nat \<Rightarrow> nat \<Rightarrow> nat option" where
  "last_slash s lo hi =
     (let ks = filter (\<lambda>i. char_at s i = CHR ''/'') [lo..<hi] in if ks = [] then None else Some (last ks))"

text \<open>The string \<open>curl_redirect_url\<close> returns, \<open>None\<close> for a base without a scheme.\<close>

definition redirect_target :: "string \<Rightarrow> string \<Rightarrow> string option" where
  "redirect_target base location =
     (if strstr location ''://'' \<noteq> None then Some location
      else case strstr base ''://'' of
        None \<Rightarrow> None
      | Some scheme \<Rightarrow>
          (let needed = length base + length location + 3;
               host = scheme + 3;
               path = map_option ((+) host) (strchr (drop host base) (CHR ''/''));
               origin_end = (case path of Some p \<Rightarrow> p | None \<Rightarrow> length base)
           in if char_at location 0 = CHR ''/'' \<and> char_at location 1 = CHR ''/'' then
                Some (snprintf needed (take scheme base @ '':'' @ location))
              else if char_at location 0 = CHR ''/'' then
                Some (snprintf needed (take origin_end base @ location))
              else
                (let query = (case path of Some p \<Rightarrow> map_option ((+) p) (strpbrk (drop p base) {CHR ''?'', CHR ''#''})
                              | None \<Rightarrow> None);
                     en = (case query of Some q \<Rightarrow> q | None \<Rightarrow> length base)
                 in if char_at location 0 = CHR ''?'' then
                      Some (snprintf needed (take en base @ location))
                    else
                      (let prefix = (case path of
                               Some p \<Rightarrow> (case last_slash base p en of Some l \<Rightarrow> l + 1 | None \<Rightarrow> origin_end)
                             | None \<Rightarrow> origin_end)
                       in Some (snprintf needed (take prefix base @ location))))))"

subsection \<open>Header names\<close>

definition curl_header_name_is :: "string \<Rightarrow> nat \<Rightarrow> string \<Rightarrow> bool" where
  "curl_header_name_is line len name \<longleftrightarrow>
     len > length name \<and> char_at line (length name) = CHR '':'' \<and> strncase_eq (length name) line name"

subsection \<open>Base64\<close>

definition b64_table :: string where
  "b64_table = ''ABCDEFGHIJKLMNOPQRSTUVWXYZabcdefghijklmnopqrstuvwxyz0123456789+/''"

definition byte_value :: "char \<Rightarrow> nat" where
  "byte_value c = of_char c"

text \<open>One round of the loop: the \<open>remaining\<close> bytes decide which characters are padding.\<close>

definition b64_quad :: "nat \<Rightarrow> nat \<Rightarrow> nat \<Rightarrow> nat \<Rightarrow> string" where
  "b64_quad a b c remaining =
     (let v = push_bit 16 a OR push_bit 8 b OR c
      in [b64_table ! (drop_bit 18 v AND 63), b64_table ! (drop_bit 12 v AND 63),
          if remaining > 1 then b64_table ! (drop_bit 6 v AND 63) else CHR ''='',
          if remaining > 2 then b64_table ! (v AND 63) else CHR ''=''])"

fun b64_encode :: "string \<Rightarrow> string" where
  "b64_encode [] = []"
| "b64_encode [x] = b64_quad (byte_value x) 0 0 1"
| "b64_encode [x, y] = b64_quad (byte_value x) (byte_value y) 0 2"
| "b64_encode (x # y # z # rest) =
     b64_quad (byte_value x) (byte_value y) (byte_value z) (length (x # y # z # rest)) @ b64_encode rest"

subsection \<open>Percent encoding\<close>

definition hex_digits :: string where
  "hex_digits = ''0123456789ABCDEF''"

definition unreserved :: "char \<Rightarrow> bool" where
  "unreserved c \<longleftrightarrow> isalnum c \<or> c = CHR ''-'' \<or> c = CHR ''_'' \<or> c = CHR ''.'' \<or> c = CHR ''~''"

definition escape_char :: "char \<Rightarrow> string" where
  "escape_char c =
     (if unreserved c then [c]
      else [CHR ''%'', hex_digits ! drop_bit 4 (byte_value c), hex_digits ! (byte_value c AND 15)])"

text \<open>The bytes \<open>curl_easy_escape\<close> writes; a length of 0 asks for \<open>strlen\<close>, a negative one writes nothing.\<close>

definition escape_text :: "string \<Rightarrow> int \<Rightarrow> string" where
  "escape_text s len = concat (map escape_char (take (nat (if len = 0 then int (length s) else len)) s))"

subsection \<open>Base64: the encoding can be decoded\<close>

text \<open>The reference decoder: four characters give three bytes, less one for each padding character.\<close>

definition b64_value :: "char \<Rightarrow> nat" where
  "b64_value c = (case strchr b64_table c of Some i \<Rightarrow> i | None \<Rightarrow> 0)"

fun b64_decode :: "string \<Rightarrow> string" where
  "b64_decode (p # q # r # t # rest) =
     (let v = ((b64_value p * 64 + b64_value q) * 64 + b64_value r) * 64 + b64_value t
      in take (if r = CHR ''='' then 1 else if t = CHR ''='' then 2 else 3)
           [char_of (v div 65536), char_of (v div 256 mod 256), char_of (v mod 256)] @ b64_decode rest)"
| "b64_decode _ = []"

lemma b64_table_value:
  assumes "i < 64"
  shows "b64_value (b64_table ! i) = i \<and> b64_table ! i \<noteq> CHR ''=''"
proof -
  have "\<forall>i<64. b64_value (b64_table ! i) = i \<and> b64_table ! i \<noteq> CHR ''=''" by code_simp
  with assms show ?thesis by blast
qed

lemma b64_pad_value: "b64_value (CHR ''='') = 0"
  by code_simp

lemma byte_value_less: "byte_value c < 256"
  by (simp add: byte_value_def)

lemma char_of_byte_value [simp]: "char_of (byte_value c) = c"
  by (simp add: byte_value_def)

lemma push_bit_or_low:
  fixes x y :: nat
  assumes "x < 2 ^ n"
  shows "push_bit n y OR x = y * 2 ^ n + x"
proof -
  have "take_bit n x = x" using assms by (simp add: take_bit_nat_eq_self)
  then have "push_bit n y AND x = push_bit n y AND take_bit n x" by simp
  also have "\<dots> = 0" by (rule bit_eqI) (auto simp: bit_simps)
  finally show ?thesis by (simp add: disjunctive_add_eq_or [symmetric] push_bit_eq_mult)
qed

lemma b64_quad_div:
  assumes "a < 256" and "b < 256" and "c < 256"
  shows "b64_quad a b c n =
    (let v = a * 65536 + b * 256 + c
     in [b64_table ! (v div 262144), b64_table ! (v div 4096 mod 64),
         if n > 1 then b64_table ! (v div 64 mod 64) else CHR ''='',
         if n > 2 then b64_table ! (v mod 64) else CHR ''=''])"
proof -
  have 1: "push_bit 8 b OR c = b * 256 + c" using push_bit_or_low [of c 8 b] assms by simp
  have 2: "push_bit 16 a OR (b * 256 + c) = a * 65536 + (b * 256 + c)"
    using push_bit_or_low [of "b * 256 + c" 16 a] assms by simp
  have v: "push_bit 16 a OR push_bit 8 b OR c = a * 65536 + b * 256 + c"
    by (simp only: or.assoc 1 2 add.assoc)
  have m: "k AND 63 = k mod 64" for k :: nat
    using take_bit_eq_mask [of 6 k] by (simp add: take_bit_eq_mod mask_eq_exp_minus_1)
  have "(a * 65536 + b * 256 + c) div 262144 mod 64 = (a * 65536 + b * 256 + c) div 262144"
    using assms by (intro mod_less) (simp add: div_less_iff_less_mult)
  then show ?thesis
    unfolding b64_quad_def v m Let_def by (simp add: drop_bit_eq_div)
qed

text \<open>The four indices put together give the 24 bits back.\<close>

lemma six_bits:
  fixes v :: nat
  shows "((v div 262144 * 64 + v div 4096 mod 64) * 64 + v div 64 mod 64) * 64 + v mod 64 = v"
proof -
  have "v div 4096 = v div 262144 * 64 + v div 4096 mod 64"
    using div_mult2_eq [of v 4096 64] div_mult_mod_eq [of "v div 4096" 64] by simp
  moreover have "v div 64 = v div 4096 * 64 + v div 64 mod 64"
    using div_mult2_eq [of v 64 64] div_mult_mod_eq [of "v div 64" 64] by simp
  ultimately show ?thesis
    using div_mult_mod_eq [of v 64] by simp
qed

lemma b64_decode_quad:
  assumes "a < 256" and "b < 256" and "c < 256" and "n = 1 \<Longrightarrow> b = 0" and "n \<le> 2 \<Longrightarrow> c = 0" and "0 < n"
  shows "b64_decode (b64_quad a b c n @ rest) = take n [char_of a, char_of b, char_of c] @ b64_decode rest"
proof -
  let ?v = "a * 65536 + b * 256 + c"
  have lt: "?v div 262144 < 64" "?v div 4096 mod 64 < 64" "?v div 64 mod 64 < 64" "?v mod 64 < 64"
    using assms(1-3) by (simp_all add: div_less_iff_less_mult)
  have c0: "?v mod 64 = 0" if "n \<le> 2" using assms(5) that by (simp add: mod_simps)
  have b0: "?v div 64 mod 64 = 0" if "n = 1" using assms(4,5) that by simp
  define r where "r = (if n > 1 then b64_table ! (?v div 64 mod 64) else CHR ''='')"
  define t where "t = (if n > 2 then b64_table ! (?v mod 64) else CHR ''='')"
  have r: "b64_value r = ?v div 64 mod 64" "r = CHR ''='' \<longleftrightarrow> n = 1"
    using b64_table_value [OF lt(3)] b64_pad_value b0 assms(6) by (auto simp: r_def)
  have t: "b64_value t = ?v mod 64" "t = CHR ''='' \<longleftrightarrow> n \<le> 2"
    using b64_table_value [OF lt(4)] b64_pad_value c0 by (auto simp: t_def)
  have q: "b64_quad a b c n = [b64_table ! (?v div 262144), b64_table ! (?v div 4096 mod 64), r, t]"
    using b64_quad_div [OF assms(1-3)] by (simp add: r_def t_def Let_def)
  have w: "((b64_value (b64_table ! (?v div 262144)) * 64 + b64_value (b64_table ! (?v div 4096 mod 64))) * 64 + b64_value r) * 64
      + b64_value t = ?v"
    unfolding r(1) t(1) using b64_table_value lt(1,2) six_bits [of ?v] by simp
  have e: "?v = (a * 256 + b) * 256 + c" by simp
  have "?v div 256 = a * 256 + b"
    unfolding e using assms(3) by simp
  moreover have "?v mod 256 = c"
    unfolding e mod_mult_self3 using assms(3) by (rule mod_less)
  moreover have "?v div 65536 = ?v div 256 div 256" using div_mult2_eq [of ?v 256 256] by simp
  ultimately have d: "?v div 65536 = a" "?v div 256 mod 256 = b" "?v mod 256 = c"
    using assms(2) by simp_all
  have "take (if n = 1 then 1 else if n \<le> 2 then 2 else 3) xs = take n xs" if "length xs = 3" for xs :: string
  proof -
    consider "n = 1" | "n = 2" | "n > 2" using assms(6) by linarith
    then show ?thesis using that by cases auto
  qed
  then show ?thesis
    unfolding q append_Cons append_Nil b64_decode.simps w Let_def d r(2) t(2) by simp
qed

lemma b64_decode_encode: "b64_decode (b64_encode s) = s"
  by (induction s rule: b64_encode.induct)
    (simp_all add: b64_decode_quad [where rest = "[]", simplified] b64_decode_quad byte_value_less)

text \<open>
  C29. The credentials are sent in base64 that decodes to them, and the four characters for each
  three bytes fit the buffer computed for them.
\<close>

theorem base64_roundtrip:
  "b64_decode (b64_encode s) = s \<and> length (b64_encode s) = (length s + 2) div 3 * 4"
proof -
  have "length (b64_encode s) = (length s + 2) div 3 * 4"
  proof (induction s rule: b64_encode.induct)
    case (4 x y z rest)
    have "(5 + length rest) div 3 = Suc ((length rest + 2) div 3)"
      using div_add_self1 [of 3 "length rest + 2"] by (simp add: add.commute)
    with 4 show ?case by (simp add: b64_quad_def Let_def)
  qed (simp_all add: b64_quad_def Let_def)
  then show ?thesis by (simp add: b64_decode_encode)
qed

subsection \<open>Percent encoding: the text can be decoded\<close>

definition hex_value :: "char \<Rightarrow> nat" where
  "hex_value c = (case strchr hex_digits c of Some i \<Rightarrow> i | None \<Rightarrow> 0)"

fun unescape :: "string \<Rightarrow> string" where
  "unescape [] = []"
| "unescape (c # cs) =
     (if c = CHR ''%'' then
        (case cs of h # l # rest \<Rightarrow> char_of (16 * hex_value h + hex_value l) # unescape rest | _ \<Rightarrow> [])
      else c # unescape cs)"

lemma hex_digit_value:
  assumes "i < 16"
  shows "hex_value (hex_digits ! i) = i \<and> isalnum (hex_digits ! i)"
proof -
  have "\<forall>i<16. hex_value (hex_digits ! i) = i \<and> isalnum (hex_digits ! i)" by code_simp
  with assms show ?thesis by blast
qed

lemma nibbles:
  "drop_bit 4 (byte_value c) < 16" "byte_value c AND 15 < 16"
  "16 * drop_bit 4 (byte_value c) + (byte_value c AND 15) = byte_value c"
proof -
  have m: "byte_value c AND 15 = byte_value c mod 16"
    using take_bit_eq_mask [of 4 "byte_value c"] by (simp add: take_bit_eq_mod mask_eq_exp_minus_1)
  show "drop_bit 4 (byte_value c) < 16"
    using byte_value_less [of c] by (simp add: drop_bit_eq_div div_less_iff_less_mult)
  show "byte_value c AND 15 < 16" "16 * drop_bit 4 (byte_value c) + (byte_value c AND 15) = byte_value c"
    by (simp_all add: m drop_bit_eq_div)
qed

lemma percent_reserved: "\<not> unreserved (CHR ''%'')"
  by code_simp

lemma unescape_char: "unescape (escape_char c @ rest) = c # unescape rest"
  using percent_reserved hex_digit_value [OF nibbles(1)] hex_digit_value [OF nibbles(2)]
  by (auto simp: escape_char_def nibbles(3))

lemma escape_char_set: "x \<in> set (escape_char c) \<Longrightarrow> unreserved x \<or> x = CHR ''%''"
  using hex_digit_value [OF nibbles(1) [of c]] hex_digit_value [OF nibbles(2) [of c]]
  by (auto simp: escape_char_def unreserved_def split: if_splits)

text \<open>
  Percent encoding is faithful and safe: the escaped text decodes to the original, holds only
  unreserved characters and percent signs, and fits the buffer of three bytes for each character.
\<close>

theorem escape_roundtrip:
  "unescape (escape_text s 0) = s \<and> list_all (\<lambda>x. unreserved x \<or> x = CHR ''%'') (escape_text s 0) \<and>
   length (escape_text s n) \<le> 3 * length s"
proof (intro conjI)
  show "unescape (escape_text s 0) = s"
    by (induction s) (simp_all add: escape_text_def unescape_char)
  show "list_all (\<lambda>x. unreserved x \<or> x = CHR ''%'') (escape_text s 0)"
    by (auto simp: list_all_iff escape_text_def dest: escape_char_set)
  have "length (concat (map escape_char w)) \<le> 3 * length w" for w
    by (induction w) (auto simp: escape_char_def)
  from this [of "take (nat (if n = 0 then int (length s) else n)) s"]
  show "length (escape_text s n) \<le> 3 * length s" by (auto simp: escape_text_def)
qed

subsection \<open>Redirects stay at their origin\<close>

lemma strstr_some: "strstr s sub = Some k \<Longrightarrow> take (length sub) (drop k s) = sub"
proof (induction s arbitrary: k)
  case Nil
  then show ?case by (auto simp: strstr.simps [of "[]"] split: if_splits)
next
  case (Cons c cs)
  then show ?case by (auto simp: strstr.simps [of "c # cs"] split: if_splits)
qed

lemma strstr_prefix:
  assumes "strstr s sub = Some k" and "k + length sub \<le> n" and "n \<le> length s"
  shows "strstr (take n s @ w) sub = Some k"
  using assms
proof (induction s arbitrary: k n)
  case Nil
  then show ?case by (simp add: strstr.simps [of "[]"] strstr.simps [of w] split: if_splits)
next
  case (Cons c cs)
  show ?case
  proof (cases "take (length sub) (c # cs) = sub")
    case True
    then have "k = 0" using Cons.prems(1) by (simp add: strstr.simps [of "c # cs"])
    then have "take (length sub) (take n (c # cs) @ w) = sub"
      using True Cons.prems(2,3) by (simp add: min_def)
    then show ?thesis using \<open>k = 0\<close> by (simp add: strstr.simps)
  next
    case False
    then obtain k' where k: "strstr cs sub = Some k'" "k = Suc k'"
      using Cons.prems(1) by (auto simp: strstr.simps [of "c # cs"])
    obtain n' where n: "n = Suc n'" using Cons.prems(2) k(2) by (cases n) auto
    have "take (length sub) (take n (c # cs) @ w) = take (length sub) (c # cs)"
      using Cons.prems(2,3) by (simp add: min_def)
    with False have "take (length sub) (c # take n' cs @ w) \<noteq> sub" by (simp add: n)
    moreover have "strstr (take n' cs @ w) sub = Some k'"
      using Cons.IH [OF k(1)] Cons.prems(2,3) k(2) n by simp
    ultimately show ?thesis
      using k(2) by (simp add: n strstr.simps [of "c # take n' cs @ w"])
  qed
qed

lemma strchr_prefix:
  assumes "strchr s c = Some h" and "h < n"
  shows "strchr (take n s @ w) c = Some h"
  using assms
proof (induction s arbitrary: h n)
  case (Cons x xs)
  then show ?case by (cases n) (auto split: if_splits)
qed simp

lemma strchr_at:
  assumes "strchr s c = Some h" and "c # v = w"
  shows "strchr (take h s @ w) c = Some h"
  using assms(1)
  by (induction s arbitrary: h) (auto simp: assms(2) [symmetric] split: if_splits)

lemma strchr_index: "strchr s c = Some h \<Longrightarrow> h < length s \<and> s ! h = c"
  by (induction s arbitrary: h) (auto split: if_splits)

lemma strpbrk_index: "strpbrk s cs = Some h \<Longrightarrow> h < length s \<and> s ! h \<in> cs"
  by (induction s arbitrary: h) (auto split: if_splits)

lemma last_slash_from:
  assumes "char_at s lo = CHR ''/''" and "lo < hi"
  shows "\<exists>l. last_slash s lo hi = Some l \<and> lo \<le> l \<and> l < hi"
proof -
  let ?ks = "filter (\<lambda>i. char_at s i = CHR ''/'') [lo..<hi]"
  have "lo \<in> set ?ks" using assms by simp
  then have "?ks \<noteq> []" by force
  moreover from this have "last ?ks \<in> set ?ks" by (rule last_in_set)
  ultimately show ?thesis by (auto simp: last_slash_def Let_def)
qed

text \<open>A URL with the scheme and the host of another, whatever follows, has its origin.\<close>

lemma same_host:
  assumes "strstr base ''://'' = Some k" and "strchr (drop (k + 3) base) (CHR ''/'') = Some h"
    and "k + 3 + h < n \<or> n = k + 3 + h \<and> (\<exists>v. w = CHR ''/'' # v)" and "n \<le> length base"
  shows "curl_same_origin (take n base @ w) base"
proof -
  let ?u = "take n base @ w"
  have n: "k + 3 + h \<le> n" using assms(3) by auto
  have u: "strstr ?u ''://'' = Some k" using strstr_prefix [OF assms(1) _ assms(4)] n by simp
  have d: "drop (k + 3) ?u = take (n - (k + 3)) (drop (k + 3) base) @ w"
    using n assms(4) by (simp add: take_drop)
  have "strchr (drop (k + 3) ?u) (CHR ''/'') = Some h"
    unfolding d using assms(3) strchr_prefix [OF assms(2)] strchr_at [OF assms(2)] by auto
  then have l: "host_length (drop (k + 3) ?u) = h" "host_length (drop (k + 3) base) = h"
    by (simp_all add: host_length_def assms(2))
  have "take k ?u = take k base" using n assms(4) by (simp add: min_def)
  moreover have "take h (drop (k + 3) ?u) = take h (drop (k + 3) base)"
  proof -
    have "h \<le> n - (k + 3)" "n - (k + 3) \<le> length base - (k + 3)" using n assms(4) by auto
    then show ?thesis unfolding d by (simp add: min_absorb1)
  qed
  ultimately show ?thesis
    unfolding curl_same_origin_def u assms(1) strncase_eq_def Let_def prod.case option.case l by simp
qed

text \<open>
  C28. A redirect to a location that does not contain \<open>://\<close> anywhere (the test the code makes for an
  absolute URL, which a query may also meet: \<open>redirect_query_url\<close>) and does not start with two slashes
  resolves to a URL of the same origin as its base, when the base has a slash after its \<open>://\<close>:
  credentials kept for the origin go nowhere else.
\<close>

theorem redirect_keeps_origin:
  assumes "strstr base ''://'' = Some k" and "strchr (drop (k + 3) base) (CHR ''/'') = Some h"
    and "strstr location ''://'' = None"
    and "\<not> (char_at location 0 = CHR ''/'' \<and> char_at location 1 = CHR ''/'')"
  shows "\<exists>u. redirect_target base location = Some u \<and> curl_same_origin u base"
proof -
  define p where "p = k + 3 + h"
  have p: "p < length base" "char_at base p = CHR ''/''"
    using strchr_index [OF assms(2)] by (auto simp: p_def char_at_def add.assoc)
  have fit: "snprintf (length base + length location + 3) (take n base @ location) = take n base @ location" for n
    by (simp add: snprintf_def del: take_append)
  define q where "q = map_option ((+) p) (strpbrk (drop p base) {CHR ''?'', CHR ''#''})"
  define en where "en = (case q of Some q \<Rightarrow> q | None \<Rightarrow> length base)"
  have en: "p < en \<and> en \<le> length base"
  proof (cases q)
    case (Some x)
    then obtain i where i: "strpbrk (drop p base) {CHR ''?'', CHR ''#''} = Some i" "x = p + i"
      by (auto simp: q_def)
    from strpbrk_index [OF i(1)] have "i < length base - p" "base ! (p + i) \<in> {CHR ''?'', CHR ''#''}"
      using p(1) by simp_all
    moreover have "i \<noteq> 0"
      using calculation(2) p by (cases i) (auto simp: char_at_def)
    ultimately show ?thesis using Some i(2) by (simp add: en_def)
  qed (simp add: en_def p)
  obtain l where l: "last_slash base p en = Some l" "p \<le> l" "l < en"
    using last_slash_from [OF p(2), of en] en by blast
  have path: "map_option ((+) (k + 3)) (strchr (drop (k + 3) base) (CHR ''/'')) = Some p"
    by (simp add: assms(2) p_def)
  have r: "redirect_target base location = Some
      (if char_at location 0 = CHR ''/'' then take p base @ location
       else if char_at location 0 = CHR ''?'' then take en base @ location
       else take (l + 1) base @ location)"
    using assms(4)
    by (simp add: redirect_target_def assms(1,3) path fit l(1) Let_def q_def [symmetric] en_def [symmetric])
  have o: "curl_same_origin (take n base @ w) base"
    if "p < n \<or> n = p \<and> (\<exists>v. w = CHR ''/'' # v)" "n \<le> length base" for n w
    using same_host [OF assms(1,2), of n w] that by (simp add: p_def)
  have "char_at location 0 = CHR ''/'' \<Longrightarrow> \<exists>v. location = CHR ''/'' # v"
    by (cases location) (auto simp: char_at_def split: if_splits)
  then show ?thesis unfolding r using o [of p location] o [of en location] o [of "l + 1" location] en l(2,3) p(1) by auto
qed

theorem redirect_keeps_origin_witness:
  "\<exists>u. redirect_target ''https://h/a/b?q'' ''../c'' = Some u \<and> curl_same_origin u ''https://h/a/b?q''"
  by (rule redirect_keeps_origin [of _ 5 1]) code_simp+

text \<open>Without a path in the base the location is put right after the host name and changes the host.\<close>

lemma redirect_leaves_origin:
  "redirect_target ''http://host'' ''foo'' = Some ''http://hostfoo'' \<and>
   \<not> curl_same_origin ''http://hostfoo'' ''http://host''"
  by code_simp

text \<open>A relative location with a URL in its query is taken for an absolute one, and then refused.\<close>

lemma redirect_query_url:
  "redirect_target ''http://host/'' ''login?to=http://host/a'' = Some ''login?to=http://host/a'' \<and>
   \<not> curl_scheme_allowed ''login?to=http://host/a'' 3"
  by code_simp

end
