(* ===== verification/CurlState.thy ===== *)
theory CurlState
  imports CurlText
begin

text \<open>
  The easy handle of the curl layer (\<open>bin/git/port/ewokos/curl_compat.c\<close>, \<open>curl/curl.h\<close>): its fields,
  its options, the copies it owns and the byte buffers.

  Pointers the layer only passes on (callbacks, their data) are numbers, 0 being \<open>NULL\<close>; strings it
  copies are values. \<open>malloc\<close> is asked through \<open>alloc_ok\<close>, which tells for each call in turn
  whether it succeeds. The client's error buffers are a store, since two handles can share one. The
  rest of the world, which the callbacks and the network change, is the type parameter.
\<close>

subsection \<open>The state outside the handle\<close>

record 'w cstate =
  alloc_ok :: "nat \<Rightarrow> bool"
  allocs :: nat
  errbuf :: "ptr \<Rightarrow> string"
  world :: 'w

definition malloc :: "'w cstate \<Rightarrow> bool \<times> 'w cstate" where
  "malloc s = (alloc_ok s (allocs s), s\<lparr>allocs := allocs s + 1\<rparr>)"

definition curl_strdup :: "string option \<Rightarrow> 'w cstate \<Rightarrow> string option \<times> 'w cstate" where
  "curl_strdup value s =
     (case value of None \<Rightarrow> (None, s)
      | Some w \<Rightarrow> (case malloc s of (ok, s1) \<Rightarrow> (if ok then Some w else None, s1)))"

definition curl_replace_string ::
    "string option \<Rightarrow> string option \<Rightarrow> 'w cstate \<Rightarrow> int \<times> string option \<times> 'w cstate" where
  "curl_replace_string target value s =
     (case curl_strdup value s of (copy, s1) \<Rightarrow>
        if value \<noteq> None \<and> copy = None then (- 1, target, s1) else (0, copy, s1))"

definition curl_redirect_url :: "string \<Rightarrow> string \<Rightarrow> 'w cstate \<Rightarrow> string option \<times> 'w cstate" where
  "curl_redirect_url base location s = curl_strdup (redirect_target base location) s"

definition curl_easy_escape :: "string option \<Rightarrow> int \<Rightarrow> 'w cstate \<Rightarrow> string option \<times> 'w cstate" where
  "curl_easy_escape string len s =
     (case string of None \<Rightarrow> (None, s)
      | Some w \<Rightarrow> (case malloc s of (ok, s1) \<Rightarrow> (if ok then Some (escape_text w len) else None, s1)))"

subsection \<open>Byte buffers\<close>

text \<open>The first \<open>size\<close> bytes and the capacity; \<open>data\<close> is \<open>NULL\<close> exactly when the capacity is 0.\<close>

record curl_buffer =
  bytes :: string
  capacity :: nat

definition SIZE_MAX :: nat where
  "SIZE_MAX = 2 ^ 64 - 1"

function grow :: "nat \<Rightarrow> nat \<Rightarrow> nat" where
  "grow cap needed =
     (if needed \<le> cap \<or> cap = 0 then cap
      else if cap > SIZE_MAX div 2 then needed
      else grow (cap * 2) needed)"
  by auto

termination by (relation "measure (\<lambda>(cap, needed). needed - cap)") auto

declare grow.simps [simp del]

definition curl_buffer_append :: "curl_buffer \<Rightarrow> string \<Rightarrow> 'w cstate \<Rightarrow> int \<times> curl_buffer \<times> 'w cstate" where
  "curl_buffer_append buffer data s =
     (if data = [] then (0, buffer, s)
      else if length data > SIZE_MAX - length (bytes buffer) then (- 1, buffer, s)
      else
        (let needed = length (bytes buffer) + length data
         in if needed > capacity buffer then
              (let cap = grow (if capacity buffer \<noteq> 0 then capacity buffer else 16384) needed
               in case malloc s of (ok, s1) \<Rightarrow>
                    if ok then (0, buffer\<lparr>bytes := bytes buffer @ data, capacity := cap\<rparr>, s1)
                    else (- 1, buffer, s1))
            else (0, buffer\<lparr>bytes := bytes buffer @ data\<rparr>, s)))"

definition empty_buffer :: curl_buffer where
  "empty_buffer = \<lparr>bytes = [], capacity = 0\<rparr>"

subsection \<open>Options and the handle\<close>

type_synonym CURLoption = int

abbreviation (input) CURLOPT_URL :: CURLoption where "CURLOPT_URL \<equiv> 1"
abbreviation (input) CURLOPT_WRITEDATA :: CURLoption where "CURLOPT_WRITEDATA \<equiv> 2"
abbreviation (input) CURLOPT_WRITEFUNCTION :: CURLoption where "CURLOPT_WRITEFUNCTION \<equiv> 3"
abbreviation (input) CURLOPT_HEADERDATA :: CURLoption where "CURLOPT_HEADERDATA \<equiv> 4"
abbreviation (input) CURLOPT_HEADERFUNCTION :: CURLoption where "CURLOPT_HEADERFUNCTION \<equiv> 5"
abbreviation (input) CURLOPT_READDATA :: CURLoption where "CURLOPT_READDATA \<equiv> 6"
abbreviation (input) CURLOPT_READFUNCTION :: CURLoption where "CURLOPT_READFUNCTION \<equiv> 7"
abbreviation (input) CURLOPT_INFILE :: CURLoption where "CURLOPT_INFILE \<equiv> 8"
abbreviation (input) CURLOPT_INFILESIZE :: CURLoption where "CURLOPT_INFILESIZE \<equiv> 9"
abbreviation (input) CURLOPT_INFILESIZE_LARGE :: CURLoption where "CURLOPT_INFILESIZE_LARGE \<equiv> 10"
abbreviation (input) CURLOPT_SEEKFUNCTION :: CURLoption where "CURLOPT_SEEKFUNCTION \<equiv> 11"
abbreviation (input) CURLOPT_SEEKDATA :: CURLoption where "CURLOPT_SEEKDATA \<equiv> 12"
abbreviation (input) CURLOPT_POST :: CURLoption where "CURLOPT_POST \<equiv> 13"
abbreviation (input) CURLOPT_POSTFIELDS :: CURLoption where "CURLOPT_POSTFIELDS \<equiv> 14"
abbreviation (input) CURLOPT_POSTFIELDSIZE :: CURLoption where "CURLOPT_POSTFIELDSIZE \<equiv> 15"
abbreviation (input) CURLOPT_POSTFIELDSIZE_LARGE :: CURLoption where "CURLOPT_POSTFIELDSIZE_LARGE \<equiv> 16"
abbreviation (input) CURLOPT_NOBODY :: CURLoption where "CURLOPT_NOBODY \<equiv> 17"
abbreviation (input) CURLOPT_UPLOAD :: CURLoption where "CURLOPT_UPLOAD \<equiv> 18"
abbreviation (input) CURLOPT_HTTPGET :: CURLoption where "CURLOPT_HTTPGET \<equiv> 19"
abbreviation (input) CURLOPT_CUSTOMREQUEST :: CURLoption where "CURLOPT_CUSTOMREQUEST \<equiv> 20"
abbreviation (input) CURLOPT_HTTPHEADER :: CURLoption where "CURLOPT_HTTPHEADER \<equiv> 21"
abbreviation (input) CURLOPT_USERAGENT :: CURLoption where "CURLOPT_USERAGENT \<equiv> 22"
abbreviation (input) CURLOPT_RANGE :: CURLoption where "CURLOPT_RANGE \<equiv> 23"
abbreviation (input) CURLOPT_ENCODING :: CURLoption where "CURLOPT_ENCODING \<equiv> 24"
abbreviation (input) CURLOPT_FAILONERROR :: CURLoption where "CURLOPT_FAILONERROR \<equiv> 25"
abbreviation (input) CURLOPT_FOLLOWLOCATION :: CURLoption where "CURLOPT_FOLLOWLOCATION \<equiv> 26"
abbreviation (input) CURLOPT_MAXREDIRS :: CURLoption where "CURLOPT_MAXREDIRS \<equiv> 27"
abbreviation (input) CURLOPT_POSTREDIR :: CURLoption where "CURLOPT_POSTREDIR \<equiv> 28"
abbreviation (input) CURLOPT_ERRORBUFFER :: CURLoption where "CURLOPT_ERRORBUFFER \<equiv> 29"
abbreviation (input) CURLOPT_USERPWD :: CURLoption where "CURLOPT_USERPWD \<equiv> 30"
abbreviation (input) CURLOPT_USERNAME :: CURLoption where "CURLOPT_USERNAME \<equiv> 31"
abbreviation (input) CURLOPT_PASSWORD :: CURLoption where "CURLOPT_PASSWORD \<equiv> 32"
abbreviation (input) CURLOPT_HTTPAUTH :: CURLoption where "CURLOPT_HTTPAUTH \<equiv> 33"
abbreviation (input) CURLOPT_NETRC :: CURLoption where "CURLOPT_NETRC \<equiv> 34"
abbreviation (input) CURLOPT_COOKIEFILE :: CURLoption where "CURLOPT_COOKIEFILE \<equiv> 35"
abbreviation (input) CURLOPT_COOKIEJAR :: CURLoption where "CURLOPT_COOKIEJAR \<equiv> 36"
abbreviation (input) CURLOPT_RESOLVE :: CURLoption where "CURLOPT_RESOLVE \<equiv> 37"
abbreviation (input) CURLOPT_SSL_VERIFYPEER :: CURLoption where "CURLOPT_SSL_VERIFYPEER \<equiv> 38"
abbreviation (input) CURLOPT_SSL_VERIFYHOST :: CURLoption where "CURLOPT_SSL_VERIFYHOST \<equiv> 39"
abbreviation (input) CURLOPT_SSLVERSION :: CURLoption where "CURLOPT_SSLVERSION \<equiv> 40"
abbreviation (input) CURLOPT_SSL_CIPHER_LIST :: CURLoption where "CURLOPT_SSL_CIPHER_LIST \<equiv> 41"
abbreviation (input) CURLOPT_SSLCERT :: CURLoption where "CURLOPT_SSLCERT \<equiv> 42"
abbreviation (input) CURLOPT_SSLCERTTYPE :: CURLoption where "CURLOPT_SSLCERTTYPE \<equiv> 43"
abbreviation (input) CURLOPT_SSLKEY :: CURLoption where "CURLOPT_SSLKEY \<equiv> 44"
abbreviation (input) CURLOPT_SSLKEYTYPE :: CURLoption where "CURLOPT_SSLKEYTYPE \<equiv> 45"
abbreviation (input) CURLOPT_KEYPASSWD :: CURLoption where "CURLOPT_KEYPASSWD \<equiv> 46"
abbreviation (input) CURLOPT_CAPATH :: CURLoption where "CURLOPT_CAPATH \<equiv> 47"
abbreviation (input) CURLOPT_CAINFO :: CURLoption where "CURLOPT_CAINFO \<equiv> 48"
abbreviation (input) CURLOPT_PINNEDPUBLICKEY :: CURLoption where "CURLOPT_PINNEDPUBLICKEY \<equiv> 49"
abbreviation (input) CURLOPT_SSL_OPTIONS :: CURLoption where "CURLOPT_SSL_OPTIONS \<equiv> 50"
abbreviation (input) CURLOPT_LOW_SPEED_LIMIT :: CURLoption where "CURLOPT_LOW_SPEED_LIMIT \<equiv> 51"
abbreviation (input) CURLOPT_LOW_SPEED_TIME :: CURLoption where "CURLOPT_LOW_SPEED_TIME \<equiv> 52"
abbreviation (input) CURLOPT_HTTP_VERSION :: CURLoption where "CURLOPT_HTTP_VERSION \<equiv> 53"
abbreviation (input) CURLOPT_GSSAPI_DELEGATION :: CURLoption where "CURLOPT_GSSAPI_DELEGATION \<equiv> 54"
abbreviation (input) CURLOPT_TCP_KEEPALIVE :: CURLoption where "CURLOPT_TCP_KEEPALIVE \<equiv> 55"
abbreviation (input) CURLOPT_SOCKOPTFUNCTION :: CURLoption where "CURLOPT_SOCKOPTFUNCTION \<equiv> 56"
abbreviation (input) CURLOPT_VERBOSE :: CURLoption where "CURLOPT_VERBOSE \<equiv> 57"
abbreviation (input) CURLOPT_DEBUGFUNCTION :: CURLoption where "CURLOPT_DEBUGFUNCTION \<equiv> 58"
abbreviation (input) CURLOPT_DEBUGDATA :: CURLoption where "CURLOPT_DEBUGDATA \<equiv> 59"
abbreviation (input) CURLOPT_USE_SSL :: CURLoption where "CURLOPT_USE_SSL \<equiv> 60"
abbreviation (input) CURLOPT_FTP_USE_EPSV :: CURLoption where "CURLOPT_FTP_USE_EPSV \<equiv> 61"
abbreviation (input) CURLOPT_PROXY :: CURLoption where "CURLOPT_PROXY \<equiv> 62"
abbreviation (input) CURLOPT_PROXYTYPE :: CURLoption where "CURLOPT_PROXYTYPE \<equiv> 63"
abbreviation (input) CURLOPT_PROXYUSERNAME :: CURLoption where "CURLOPT_PROXYUSERNAME \<equiv> 64"
abbreviation (input) CURLOPT_PROXYPASSWORD :: CURLoption where "CURLOPT_PROXYPASSWORD \<equiv> 65"
abbreviation (input) CURLOPT_PROXYHEADER :: CURLoption where "CURLOPT_PROXYHEADER \<equiv> 66"
abbreviation (input) CURLOPT_PROXYAUTH :: CURLoption where "CURLOPT_PROXYAUTH \<equiv> 67"
abbreviation (input) CURLOPT_PROXY_SSLCERT :: CURLoption where "CURLOPT_PROXY_SSLCERT \<equiv> 68"
abbreviation (input) CURLOPT_PROXY_SSLKEY :: CURLoption where "CURLOPT_PROXY_SSLKEY \<equiv> 69"
abbreviation (input) CURLOPT_PROXY_KEYPASSWD :: CURLoption where "CURLOPT_PROXY_KEYPASSWD \<equiv> 70"
abbreviation (input) CURLOPT_PROXY_CAINFO :: CURLoption where "CURLOPT_PROXY_CAINFO \<equiv> 71"
abbreviation (input) CURLOPT_NOPROXY :: CURLoption where "CURLOPT_NOPROXY \<equiv> 72"
abbreviation (input) CURLOPT_PROTOCOLS :: CURLoption where "CURLOPT_PROTOCOLS \<equiv> 73"
abbreviation (input) CURLOPT_REDIR_PROTOCOLS :: CURLoption where "CURLOPT_REDIR_PROTOCOLS \<equiv> 74"
abbreviation (input) CURLOPT_IPRESOLVE :: CURLoption where "CURLOPT_IPRESOLVE \<equiv> 75"

datatype CURLcode =
    CURLE_OK | CURLE_UNSUPPORTED_PROTOCOL | CURLE_FAILED_INIT
  | CURLE_URL_MALFORMAT | CURLE_NOT_BUILT_IN | CURLE_COULDNT_RESOLVE_PROXY
  | CURLE_COULDNT_RESOLVE_HOST | CURLE_COULDNT_CONNECT | CURLE_FTP_COULDNT_RETR_FILE
  | CURLE_HTTP_RETURNED_ERROR | CURLE_WRITE_ERROR | CURLE_READ_ERROR
  | CURLE_OUT_OF_MEMORY | CURLE_OPERATION_TIMEDOUT | CURLE_SSL_CONNECT_ERROR
  | CURLE_FILE_COULDNT_READ_FILE | CURLE_TOO_MANY_REDIRECTS | CURLE_SSL_CERTPROBLEM
  | CURLE_SSL_PINNEDPUBKEYNOTMATCH

definition CURLAUTH_BASIC :: int where "CURLAUTH_BASIC = 1"
definition CURLAUTH_DIGEST :: int where "CURLAUTH_DIGEST = 2"
definition CURLAUTH_GSSNEGOTIATE :: int where "CURLAUTH_GSSNEGOTIATE = 4"
definition CURLAUTH_NTLM :: int where "CURLAUTH_NTLM = 8"

text \<open>\<open>unsupported_option\<close> is 0 while no option was refused.\<close>

record CURL =
  h_url :: "string option"
  h_custom_request :: "string option"
  h_user_agent :: "string option"
  h_range :: "string option"
  h_username :: "string option"
  h_password :: "string option"
  h_userpwd :: "string option"
  h_proxy :: "string option"
  h_cookie_file :: "string option"
  h_content_type :: "string option"
  h_effective_url :: "string option"
  h_headers :: "string list"
  h_resolve :: "string list"
  h_post_fields :: "string option"
  h_post_size :: int
  h_infile_size :: int
  h_write_data :: ptr
  h_header_data :: ptr
  h_read_data :: ptr
  h_seek_data :: ptr
  h_error_buffer :: ptr
  h_debug_data :: ptr
  h_write_callback :: ptr
  h_header_callback :: ptr
  h_read_callback :: ptr
  h_seek_callback :: ptr
  h_debug_callback :: ptr
  h_httpauth :: int
  h_protocols :: int
  h_redir_protocols :: int
  h_maxredirs :: int
  h_postredir :: int
  h_response_code :: int
  h_auth_avail :: int
  h_connect_code :: int
  h_post :: bool
  h_upload :: bool
  h_nobody :: bool
  h_failonerror :: bool
  h_followlocation :: bool
  h_ssl_verifypeer :: bool
  h_ssl_verifyhost :: int
  h_verbose :: bool
  h_unsupported_option :: CURLoption
  h_added :: bool
  h_completed :: bool
  h_result :: CURLcode
  h_next :: ptr

definition calloc_handle :: CURL where
  "calloc_handle =
     \<lparr>h_url = None, h_custom_request = None, h_user_agent = None, h_range = None, h_username = None,
      h_password = None, h_userpwd = None, h_proxy = None, h_cookie_file = None, h_content_type = None,
      h_effective_url = None, h_headers = [], h_resolve = [], h_post_fields = None, h_post_size = - 1,
      h_infile_size = - 1, h_write_data = 0, h_header_data = 0, h_read_data = 0, h_seek_data = 0,
      h_error_buffer = 0, h_debug_data = 0, h_write_callback = 0, h_header_callback = 0,
      h_read_callback = 0, h_seek_callback = 0, h_debug_callback = 0, h_httpauth = 0, h_protocols = 3,
      h_redir_protocols = 3, h_maxredirs = 20, h_postredir = 0, h_response_code = 0, h_auth_avail = 0,
      h_connect_code = 0, h_post = False, h_upload = False, h_nobody = False, h_failonerror = False,
      h_followlocation = False, h_ssl_verifypeer = True, h_ssl_verifyhost = 2, h_verbose = False,
      h_unsupported_option = 0, h_added = False, h_completed = False, h_result = CURLE_OK, h_next = 0\<rparr>"

definition curl_easy_init :: "'w cstate \<Rightarrow> CURL option \<times> 'w cstate" where
  "curl_easy_init s = (case malloc s of (ok, s1) \<Rightarrow> (if ok then Some calloc_handle else None, s1))"

text \<open>The message is cut to what the buffer holds.\<close>

definition curl_set_error :: "CURLcode \<Rightarrow> string option \<Rightarrow> CURL \<Rightarrow> 'w cstate \<Rightarrow> CURL \<times> 'w cstate" where
  "curl_set_error code message h s =
     (h\<lparr>h_result := code\<rparr>,
      case message of
        Some m \<Rightarrow> if h_error_buffer h \<noteq> 0 then s\<lparr>errbuf := (errbuf s)(h_error_buffer h := take 255 m)\<rparr> else s
      | None \<Rightarrow> s)"

definition curl_memory_error :: "CURL \<Rightarrow> 'w cstate \<Rightarrow> CURLcode \<times> CURL \<times> 'w cstate" where
  "curl_memory_error h s = (CURLE_OUT_OF_MEMORY, curl_set_error CURLE_OUT_OF_MEMORY (Some ''out of memory'') h s)"

definition curl_clear_transfer_results :: "CURL \<Rightarrow> 'w cstate \<Rightarrow> CURL \<times> 'w cstate" where
  "curl_clear_transfer_results h s =
     (h\<lparr>h_content_type := None, h_effective_url := None, h_response_code := 0, h_auth_avail := 0,
        h_connect_code := 0, h_result := CURLE_OK, h_completed := False\<rparr>,
      if h_error_buffer h \<noteq> 0 then s\<lparr>errbuf := (errbuf s)(h_error_buffer h := [])\<rparr> else s)"

text \<open>The members \<open>DUP_STRING\<close> copies, in its order.\<close>

definition string_members ::
    "((CURL \<Rightarrow> string option) \<times> ((string option \<Rightarrow> string option) \<Rightarrow> CURL \<Rightarrow> CURL)) list" where
  "string_members =
     [(h_url, h_url_update), (h_custom_request, h_custom_request_update), (h_user_agent, h_user_agent_update),
      (h_range, h_range_update), (h_username, h_username_update), (h_password, h_password_update),
      (h_userpwd, h_userpwd_update), (h_proxy, h_proxy_update), (h_cookie_file, h_cookie_file_update),
      (h_content_type, h_content_type_update), (h_effective_url, h_effective_url_update)]"

fun dup_strings ::
    "((CURL \<Rightarrow> string option) \<times> ((string option \<Rightarrow> string option) \<Rightarrow> CURL \<Rightarrow> CURL)) list \<Rightarrow>
     CURL \<Rightarrow> CURL \<Rightarrow> 'w cstate \<Rightarrow> CURL option \<times> 'w cstate" where
  "dup_strings [] h copy s = (Some copy, s)"
| "dup_strings ((get, upd) # ms) h copy s =
     (if get h = None then dup_strings ms h copy s
      else case curl_strdup (get h) s of
          (None, s1) \<Rightarrow> (None, s1)
        | (Some w, s1) \<Rightarrow> dup_strings ms h (upd (\<lambda>_. Some w) copy) s1)"

definition curl_easy_duphandle :: "CURL option \<Rightarrow> 'w cstate \<Rightarrow> CURL option \<times> 'w cstate" where
  "curl_easy_duphandle handle s =
     (case handle of None \<Rightarrow> (None, s)
      | Some h \<Rightarrow>
          (case curl_easy_init s of
             (None, s1) \<Rightarrow> (None, s1)
           | (Some _, s1) \<Rightarrow>
               dup_strings string_members h
                 (fold (\<lambda>(get, upd). upd (\<lambda>_. None)) string_members
                    (h\<lparr>h_next := 0, h_added := False, h_completed := False\<rparr>)) s1))"

subsection \<open>Setting options\<close>

text \<open>
  The argument after the option. Passing another type than the option's is undefined in C; here the
  argument then reads as null.
\<close>

datatype optval = VLong int | VString "string option" | VPtr ptr | VList "string list"

fun long_arg :: "optval \<Rightarrow> int" where
  "long_arg (VLong k) = k"
| "long_arg _ = 0"

fun string_arg :: "optval \<Rightarrow> string option" where
  "string_arg (VString w) = w"
| "string_arg _ = None"

fun ptr_arg :: "optval \<Rightarrow> ptr" where
  "ptr_arg (VPtr p) = p"
| "ptr_arg _ = 0"

fun list_arg :: "optval \<Rightarrow> string list" where
  "list_arg (VList l) = l"
| "list_arg _ = []"

text \<open>The cast to \<open>int\<close>.\<close>

definition int32 :: "int \<Rightarrow> int" where
  "int32 k = (k + 2 ^ 31) mod 2 ^ 32 - 2 ^ 31"

definition refuse_option :: "CURLoption \<Rightarrow> CURL \<Rightarrow> CURLcode \<times> CURL" where
  "refuse_option opt h = (CURLE_NOT_BUILT_IN, h\<lparr>h_unsupported_option := opt\<rparr>)"

definition curl_set_long_option :: "CURL \<Rightarrow> CURLoption \<Rightarrow> int \<Rightarrow> CURLcode \<times> CURL" where
  "curl_set_long_option h opt v =
     (let ok = (\<lambda>h. (CURLE_OK, h)); refuse = refuse_option opt h
      in if opt = CURLOPT_INFILESIZE then ok (h\<lparr>h_infile_size := v\<rparr>)
         else if opt = CURLOPT_POSTFIELDSIZE then ok (h\<lparr>h_post_size := v\<rparr>)
         else if opt = CURLOPT_POST then
           ok (if v \<noteq> 0 then h\<lparr>h_post := True, h_upload := False, h_nobody := False\<rparr> else h\<lparr>h_post := False\<rparr>)
         else if opt = CURLOPT_NOBODY then ok (h\<lparr>h_nobody := v \<noteq> 0\<rparr>)
         else if opt = CURLOPT_UPLOAD then
           ok (if v \<noteq> 0 then h\<lparr>h_upload := True, h_post := False, h_nobody := False\<rparr> else h\<lparr>h_upload := False\<rparr>)
         else if opt = CURLOPT_HTTPGET then
           ok (if v \<noteq> 0 then h\<lparr>h_post := False, h_upload := False, h_nobody := False\<rparr> else h)
         else if opt = CURLOPT_FAILONERROR then ok (h\<lparr>h_failonerror := v \<noteq> 0\<rparr>)
         else if opt = CURLOPT_FOLLOWLOCATION then ok (h\<lparr>h_followlocation := v \<noteq> 0\<rparr>)
         else if opt = CURLOPT_MAXREDIRS then ok (h\<lparr>h_maxredirs := v\<rparr>)
         else if opt = CURLOPT_POSTREDIR then ok (h\<lparr>h_postredir := v\<rparr>)
         else if opt = CURLOPT_HTTPAUTH then ok (h\<lparr>h_httpauth := v\<rparr>)
         else if opt = CURLOPT_SSL_VERIFYPEER then ok (h\<lparr>h_ssl_verifypeer := v \<noteq> 0\<rparr>)
         else if opt = CURLOPT_SSL_VERIFYHOST then ok (h\<lparr>h_ssl_verifyhost := int32 v\<rparr>)
         else if opt = CURLOPT_PROTOCOLS then ok (h\<lparr>h_protocols := v\<rparr>)
         else if opt = CURLOPT_REDIR_PROTOCOLS then ok (h\<lparr>h_redir_protocols := v\<rparr>)
         else if opt = CURLOPT_VERBOSE then ok (h\<lparr>h_verbose := v \<noteq> 0\<rparr>)
         else if opt \<in> {CURLOPT_NETRC, CURLOPT_TCP_KEEPALIVE, CURLOPT_PROXYTYPE, CURLOPT_PROXYAUTH} then ok h
         else if opt = CURLOPT_IPRESOLVE then (if v = 2 then refuse else ok h)
         else if opt = CURLOPT_HTTP_VERSION then (if v \<noteq> 0 \<and> v \<noteq> 2 then refuse else ok h)
         else if opt \<in> {CURLOPT_SSLVERSION, CURLOPT_SSL_OPTIONS, CURLOPT_LOW_SPEED_LIMIT, CURLOPT_LOW_SPEED_TIME,
                        CURLOPT_GSSAPI_DELEGATION, CURLOPT_USE_SSL, CURLOPT_FTP_USE_EPSV} then
           (if v \<noteq> 0 then refuse else ok h)
         else refuse)"

definition set_string_option ::
    "(CURL \<Rightarrow> string option) \<Rightarrow> ((string option \<Rightarrow> string option) \<Rightarrow> CURL \<Rightarrow> CURL) \<Rightarrow> string option \<Rightarrow>
     CURL \<Rightarrow> 'w cstate \<Rightarrow> CURLcode \<times> CURL \<times> 'w cstate" where
  "set_string_option get upd value h s =
     (case curl_replace_string (get h) value s of (r, new, s1) \<Rightarrow>
        if r \<noteq> 0 then curl_memory_error h s1 else (CURLE_OK, upd (\<lambda>_. new) h, s1))"

definition refused_strings :: "CURLoption set" where
  "refused_strings =
     {CURLOPT_ENCODING, CURLOPT_SSL_CIPHER_LIST, CURLOPT_CAPATH, CURLOPT_CAINFO, CURLOPT_SSLCERT,
      CURLOPT_SSLCERTTYPE, CURLOPT_SSLKEY, CURLOPT_SSLKEYTYPE, CURLOPT_KEYPASSWD, CURLOPT_PINNEDPUBLICKEY,
      CURLOPT_COOKIEJAR, CURLOPT_PROXYUSERNAME, CURLOPT_PROXYPASSWORD, CURLOPT_PROXY_SSLCERT,
      CURLOPT_PROXY_SSLKEY, CURLOPT_PROXY_KEYPASSWD, CURLOPT_PROXY_CAINFO}"

definition curl_easy_setopt ::
    "CURL option \<Rightarrow> CURLoption \<Rightarrow> optval \<Rightarrow> 'w cstate \<Rightarrow> CURLcode \<times> CURL option \<times> 'w cstate" where
  "curl_easy_setopt handle opt arg s =
     (case handle of None \<Rightarrow> (CURLE_FAILED_INIT, None, s)
      | Some h \<Rightarrow>
          (let str = (\<lambda>get upd. case set_string_option get upd (string_arg arg) h s of
                         (c, h1, s1) \<Rightarrow> (c, Some h1, s1));
               ok = (\<lambda>h1. (CURLE_OK, Some h1, s));
               lift = (\<lambda>(c, h1). (c, Some h1, s))
           in if opt = CURLOPT_URL then str h_url h_url_update
              else if opt = CURLOPT_CUSTOMREQUEST then str h_custom_request h_custom_request_update
              else if opt = CURLOPT_USERAGENT then str h_user_agent h_user_agent_update
              else if opt = CURLOPT_RANGE then str h_range h_range_update
              else if opt = CURLOPT_USERNAME then str h_username h_username_update
              else if opt = CURLOPT_PASSWORD then str h_password h_password_update
              else if opt = CURLOPT_USERPWD then str h_userpwd h_userpwd_update
              else if opt = CURLOPT_PROXY then str h_proxy h_proxy_update
              else if opt = CURLOPT_COOKIEFILE then str h_cookie_file h_cookie_file_update
              else if opt = CURLOPT_POSTFIELDS then ok (h\<lparr>h_post_fields := string_arg arg\<rparr>)
              else if opt = CURLOPT_POSTFIELDSIZE_LARGE then ok (h\<lparr>h_post_size := long_arg arg\<rparr>)
              else if opt = CURLOPT_INFILESIZE_LARGE then ok (h\<lparr>h_infile_size := long_arg arg\<rparr>)
              else if opt = CURLOPT_HTTPHEADER then ok (h\<lparr>h_headers := list_arg arg\<rparr>)
              else if opt = CURLOPT_RESOLVE then ok (h\<lparr>h_resolve := list_arg arg\<rparr>)
              else if opt = CURLOPT_WRITEDATA then ok (h\<lparr>h_write_data := ptr_arg arg\<rparr>)
              else if opt = CURLOPT_HEADERDATA then ok (h\<lparr>h_header_data := ptr_arg arg\<rparr>)
              else if opt = CURLOPT_INFILE \<or> opt = CURLOPT_READDATA then ok (h\<lparr>h_read_data := ptr_arg arg\<rparr>)
              else if opt = CURLOPT_SEEKDATA then ok (h\<lparr>h_seek_data := ptr_arg arg\<rparr>)
              else if opt = CURLOPT_ERRORBUFFER then ok (h\<lparr>h_error_buffer := ptr_arg arg\<rparr>)
              else if opt = CURLOPT_DEBUGDATA then ok (h\<lparr>h_debug_data := ptr_arg arg\<rparr>)
              else if opt = CURLOPT_WRITEFUNCTION then ok (h\<lparr>h_write_callback := ptr_arg arg\<rparr>)
              else if opt = CURLOPT_HEADERFUNCTION then ok (h\<lparr>h_header_callback := ptr_arg arg\<rparr>)
              else if opt = CURLOPT_READFUNCTION then ok (h\<lparr>h_read_callback := ptr_arg arg\<rparr>)
              else if opt = CURLOPT_SEEKFUNCTION then ok (h\<lparr>h_seek_callback := ptr_arg arg\<rparr>)
              else if opt = CURLOPT_DEBUGFUNCTION then ok (h\<lparr>h_debug_callback := ptr_arg arg\<rparr>)
              else if opt \<in> refused_strings then
                (if string_arg arg \<noteq> None \<and> string_arg arg \<noteq> Some [] then lift (refuse_option opt h) else ok h)
              else if opt = CURLOPT_PROXYHEADER then
                (if list_arg arg \<noteq> [] then lift (refuse_option opt h) else ok h)
              else if opt = CURLOPT_NOPROXY \<or> opt = CURLOPT_SOCKOPTFUNCTION then ok h
              else lift (curl_set_long_option h opt (long_arg arg))))"

subsection \<open>Results and constants\<close>

datatype infoval = ILong int | IString "string option"

text \<open>\<open>CURLINFO_RESPONSE_CODE\<close> and its successors.\<close>

definition curl_easy_getinfo :: "CURL option \<Rightarrow> int \<Rightarrow> CURLcode \<times> infoval option" where
  "curl_easy_getinfo handle info =
     (case handle of None \<Rightarrow> (CURLE_FAILED_INIT, None)
      | Some h \<Rightarrow>
          if info = 100 then (CURLE_OK, Some (ILong (h_response_code h)))
          else if info = 101 then (CURLE_OK, Some (ILong (h_auth_avail h)))
          else if info = 102 then (CURLE_OK, Some (ILong (h_connect_code h)))
          else if info = 103 then (CURLE_OK, Some (IString (h_content_type h)))
          else if info = 104 then
            (CURLE_OK, Some (IString (if h_effective_url h \<noteq> None then h_effective_url h else h_url h)))
          else (CURLE_NOT_BUILT_IN, None))"

definition curl_easy_strerror :: "CURLcode \<Rightarrow> string" where
  "curl_easy_strerror code =
     (case code of
        CURLE_OK \<Rightarrow> ''no error''
      | CURLE_UNSUPPORTED_PROTOCOL \<Rightarrow> ''unsupported protocol''
      | CURLE_NOT_BUILT_IN \<Rightarrow> ''feature not supported by tinyhttpsc backend''
      | CURLE_URL_MALFORMAT \<Rightarrow> ''malformed URL''
      | CURLE_COULDNT_RESOLVE_HOST \<Rightarrow> ''could not resolve host''
      | CURLE_COULDNT_CONNECT \<Rightarrow> ''could not connect''
      | CURLE_HTTP_RETURNED_ERROR \<Rightarrow> ''HTTP returned an error''
      | CURLE_WRITE_ERROR \<Rightarrow> ''response write failed''
      | CURLE_READ_ERROR \<Rightarrow> ''transfer read failed''
      | CURLE_OUT_OF_MEMORY \<Rightarrow> ''out of memory''
      | CURLE_OPERATION_TIMEDOUT \<Rightarrow> ''operation timed out''
      | CURLE_SSL_CONNECT_ERROR \<Rightarrow> ''TLS connection failed''
      | CURLE_SSL_CERTPROBLEM \<Rightarrow> ''TLS certificate problem''
      | CURLE_TOO_MANY_REDIRECTS \<Rightarrow> ''too many redirects''
      | _ \<Rightarrow> ''HTTP transfer failed'')"

datatype CURLsslset = CURLSSLSET_OK | CURLSSLSET_UNKNOWN_BACKEND | CURLSSLSET_TOO_LATE | CURLSSLSET_NO_BACKENDS

definition curl_global_sslset :: "string option \<Rightarrow> CURLsslset" where
  "curl_global_sslset name =
     (case name of Some w \<Rightarrow> if strcase_eq w ''bearssl'' then CURLSSLSET_OK else CURLSSLSET_UNKNOWN_BACKEND
      | None \<Rightarrow> CURLSSLSET_OK)"

text \<open>A string list; \<open>NULL\<close> is the empty one. \<open>None\<close> is the null result for a failed allocation.\<close>

definition curl_slist_append :: "string list \<Rightarrow> string \<Rightarrow> 'w cstate \<Rightarrow> string list option \<times> 'w cstate" where
  "curl_slist_append list data s =
     (case malloc s of (ok, s1) \<Rightarrow>
        if \<not> ok then (None, s1)
        else (case curl_strdup (Some data) s1 of
                (None, s2) \<Rightarrow> (None, s2)
              | (Some w, s2) \<Rightarrow> (Some (list @ [w]), s2)))"

subsection \<open>Buffers hold their bytes\<close>

definition buffer_ok :: "curl_buffer \<Rightarrow> bool" where
  "buffer_ok b \<longleftrightarrow> length (bytes b) \<le> capacity b \<and> capacity b \<le> SIZE_MAX"

lemma empty_buffer_ok [simp]: "buffer_ok empty_buffer" "bytes empty_buffer = []"
  by (simp_all add: buffer_ok_def empty_buffer_def)

lemma grow_enough:
  assumes "0 < cap" and "cap \<le> SIZE_MAX" and "needed \<le> SIZE_MAX"
  shows "needed \<le> grow cap needed \<and> grow cap needed \<le> SIZE_MAX"
  using assms
proof (induction cap needed rule: grow.induct)
  case (1 cap needed)
  show ?case
  proof (cases "needed \<le> cap \<or> cap > SIZE_MAX div 2")
    case True
    then show ?thesis using 1 by (auto simp: grow.simps [of cap])
  next
    case False
    then have "cap * 2 \<le> SIZE_MAX" by linarith
    with False 1 have "needed \<le> grow (cap * 2) needed \<and> grow (cap * 2) needed \<le> SIZE_MAX" by simp
    with False 1(2) show ?thesis by (simp add: grow.simps [of cap])
  qed
qed

text \<open>
  C27. Appending to a buffer never writes past its capacity: whatever the sizes, up to the whole
  range of \<open>size_t\<close>, a successful append adds exactly the bytes, to a buffer that holds them, and a
  failed one leaves the buffer as it was.
\<close>

theorem buffer_append_fits:
  assumes "buffer_ok b" and "curl_buffer_append b data s = (r, b', s')"
  shows "buffer_ok b' \<and> (if r = 0 then bytes b' = bytes b @ data else r = - 1 \<and> b' = b)"
proof -
  let ?cap = "if capacity b \<noteq> 0 then capacity b else 16384"
  have "needed \<le> grow ?cap needed \<and> grow ?cap needed \<le> SIZE_MAX" if "needed \<le> SIZE_MAX" for needed
    using assms(1) that by (intro grow_enough) (auto simp: buffer_ok_def SIZE_MAX_def)
  from this [of "length (bytes b) + length data"] show ?thesis
    using assms unfolding curl_buffer_append_def buffer_ok_def Let_def
    by (auto split: if_splits prod.splits)
qed

theorem buffer_append_fits_witness:
  "case curl_buffer_append empty_buffer ''ab'' \<lparr>alloc_ok = (\<lambda>_. True), allocs = 0, errbuf = (\<lambda>_. []), world = ()\<rparr> of
     (r, b, s) \<Rightarrow> buffer_ok b \<and> bytes b = ''ab''"
proof -
  let ?s = "\<lparr>alloc_ok = (\<lambda>_. True), allocs = 0, errbuf = (\<lambda>_. []), world = ()\<rparr>"
  obtain r b s' where e: "curl_buffer_append empty_buffer ''ab'' ?s = (r, b, s')" by (cases "curl_buffer_append empty_buffer ''ab'' ?s") auto
  have "fst (curl_buffer_append empty_buffer ''ab'' ?s) = 0"
    by (simp add: curl_buffer_append_def empty_buffer_def SIZE_MAX_def malloc_def Let_def)
  with e buffer_append_fits [OF empty_buffer_ok(1) e] show ?thesis by simp
qed

subsection \<open>What setting an option can do\<close>

text \<open>An outcome of every branch of a chain of conditionals is an outcome of the chain.\<close>

lemma if_outcome: "P a \<Longrightarrow> P b \<Longrightarrow> P (if q then a else b)"
  by simp

definition long_outcome :: "CURL \<Rightarrow> CURLoption \<Rightarrow> CURLcode \<times> CURL \<Rightarrow> bool" where
  "long_outcome h opt = (\<lambda>(c, h').
     c = CURLE_OK \<and> h_unsupported_option h' = h_unsupported_option h \<or>
     c = CURLE_NOT_BUILT_IN \<and> h' = h\<lparr>h_unsupported_option := opt\<rparr>)"

lemma set_long_outcome: "long_outcome h opt (curl_set_long_option h opt v)"
  unfolding curl_set_long_option_def Let_def
  by (intro if_outcome [of "long_outcome h opt"]) (simp_all add: long_outcome_def refuse_option_def)

definition setopt_result :: "CURL \<Rightarrow> CURLoption \<Rightarrow> 'w cstate \<Rightarrow> CURLcode \<times> CURL option \<times> 'w cstate \<Rightarrow> bool" where
  "setopt_result h opt s = (\<lambda>(c, r, s'). case r of None \<Rightarrow> False | Some h' \<Rightarrow>
     c = CURLE_OK \<and> h_unsupported_option h' = h_unsupported_option h \<or>
     c = CURLE_NOT_BUILT_IN \<and> h' = h\<lparr>h_unsupported_option := opt\<rparr> \<and> s' = s \<or>
     c = CURLE_OUT_OF_MEMORY \<and> h' = h\<lparr>h_result := CURLE_OUT_OF_MEMORY\<rparr>)"

lemma set_string_outcome:
  assumes "\<And>w. h_unsupported_option (upd (\<lambda>_. w) h) = h_unsupported_option h"
  shows "setopt_result h opt s (case set_string_option get upd v h s of (c, h1, s1) \<Rightarrow> (c, Some h1, s1))"
  unfolding setopt_result_def set_string_option_def curl_memory_error_def curl_set_error_def
  by (auto simp: assms split: prod.splits)

lemma lift_outcome:
  "long_outcome h opt p \<Longrightarrow> setopt_result h opt s ((\<lambda>(c, h1). (c, Some h1, s)) p)"
  by (auto simp: long_outcome_def setopt_result_def split: prod.splits)

lemma ok_outcome:
  "h_unsupported_option h1 = h_unsupported_option h \<Longrightarrow> setopt_result h opt s (CURLE_OK, Some h1, s)"
  by (simp add: setopt_result_def)

lemma setopt_outcome: "setopt_result h opt s (curl_easy_setopt (Some h) opt arg s)"
  unfolding curl_easy_setopt_def Let_def option.case
  by (intro if_outcome [of "setopt_result h opt s"] set_string_outcome lift_outcome ok_outcome set_long_outcome)
    (simp_all add: long_outcome_def refuse_option_def)

text \<open>
  C24. Setting an option has one of three outcomes: it is accepted; it is refused, nothing else
  changes and the handle remembers it; or the copy of a string could not be allocated and every
  setting of the handle is what it was.
\<close>

theorem setopt_outcomes:
  assumes "curl_easy_setopt (Some h) opt arg s = (c, r, s')"
  shows "\<exists>h'. r = Some h' \<and>
    (c = CURLE_OK \<and> h_unsupported_option h' = h_unsupported_option h \<or>
     c = CURLE_NOT_BUILT_IN \<and> h' = h\<lparr>h_unsupported_option := opt\<rparr> \<and> s' = s \<or>
     c = CURLE_OUT_OF_MEMORY \<and> h' = h\<lparr>h_result := CURLE_OUT_OF_MEMORY\<rparr>)"
  using setopt_outcome [of h opt s arg] unfolding assms setopt_result_def
  by (cases r) auto

text \<open>A world in which no allocation succeeds, and one in which all do.\<close>

definition no_memory :: "unit cstate" where
  "no_memory = \<lparr>alloc_ok = (\<lambda>_. False), allocs = 0, errbuf = (\<lambda>_. []), world = ()\<rparr>"

theorem setopt_outcomes_witness:
  "\<exists>s'. curl_easy_setopt (Some (calloc_handle\<lparr>h_url := Some ''http://a''\<rparr>)) CURLOPT_URL (VString (Some ''x'')) no_memory =
     (CURLE_OUT_OF_MEMORY, Some (calloc_handle\<lparr>h_url := Some ''http://a'', h_result := CURLE_OUT_OF_MEMORY\<rparr>), s')"
proof -
  let ?h = "calloc_handle\<lparr>h_url := Some ''http://a''\<rparr>"
  obtain c r s' where e: "curl_easy_setopt (Some ?h) CURLOPT_URL (VString (Some ''x'')) no_memory = (c, r, s')"
    by (cases "curl_easy_setopt (Some ?h) CURLOPT_URL (VString (Some ''x'')) no_memory") auto
  have "fst (curl_easy_setopt (Some ?h) CURLOPT_URL (VString (Some ''x'')) no_memory) = CURLE_OUT_OF_MEMORY"
    by (simp add: curl_easy_setopt_def Let_def set_string_option_def curl_replace_string_def curl_strdup_def
        malloc_def no_memory_def curl_memory_error_def curl_set_error_def calloc_handle_def)
  with setopt_outcomes [OF e] e show ?thesis by auto
qed

subsection \<open>What a sequence of options leaves in the handle\<close>

text \<open>
  The integer fields in their C types: \<open>long\<close> and \<open>curl_off_t\<close> have 64 bits, \<open>int\<close> has 32. The
  arguments come in as a \<open>long\<close>.
\<close>

definition is_long :: "int \<Rightarrow> bool" where
  "is_long k \<longleftrightarrow> - (2 ^ 63) \<le> k \<and> k < 2 ^ 63"

definition is_int :: "int \<Rightarrow> bool" where
  "is_int k \<longleftrightarrow> - (2 ^ 31) \<le> k \<and> k < 2 ^ 31"

definition handle_ok :: "CURL \<Rightarrow> bool" where
  "handle_ok h \<longleftrightarrow>
     is_long (h_post_size h) \<and> is_long (h_infile_size h) \<and> is_long (h_httpauth h) \<and> is_long (h_protocols h) \<and>
     is_long (h_redir_protocols h) \<and> is_long (h_maxredirs h) \<and> is_long (h_postredir h) \<and>
     is_long (h_response_code h) \<and> is_long (h_auth_avail h) \<and> is_long (h_connect_code h) \<and>
     is_int (h_ssl_verifyhost h) \<and> is_int (h_unsupported_option h)"

text \<open>
  The method flag \<open>m\<close>, one of \<open>POST\<close>, \<open>UPLOAD\<close> and \<open>NOBODY\<close>: its own option sets or clears it, and
  switching on a method that has a body, or \<open>HTTPGET\<close>, clears the others. What counts is the last of
  these calls.
\<close>

definition touches :: "CURLoption \<Rightarrow> CURLoption \<times> optval \<Rightarrow> bool" where
  "touches m = (\<lambda>(opt, arg).
     opt = m \<or> (opt = CURLOPT_POST \<or> opt = CURLOPT_UPLOAD \<or> opt = CURLOPT_HTTPGET) \<and> long_arg arg \<noteq> 0)"

definition flag_after :: "CURLoption \<Rightarrow> bool \<Rightarrow> (CURLoption \<times> optval) list \<Rightarrow> bool" where
  "flag_after m b os =
     (case find (touches m) (rev os) of None \<Rightarrow> b | Some (opt, arg) \<Rightarrow> opt = m \<and> long_arg arg \<noteq> 0)"

lemma int32_range: "is_int (int32 k)"
proof -
  have "0 \<le> (k + 2147483648) mod 4294967296 \<and> (k + 2147483648) mod 4294967296 < (4294967296 :: int)" by simp
  then show ?thesis by (simp add: int32_def is_int_def)
qed

text \<open>One option: the fields stay in range and the flags are what the option says.\<close>

definition option_step :: "CURLoption \<Rightarrow> optval \<Rightarrow> CURL \<Rightarrow> CURL \<Rightarrow> bool" where
  "option_step opt arg h h' \<longleftrightarrow>
     (handle_ok h \<longrightarrow> handle_ok h') \<and>
     h_post h' = flag_after CURLOPT_POST (h_post h) [(opt, arg)] \<and>
     h_upload h' = flag_after CURLOPT_UPLOAD (h_upload h) [(opt, arg)] \<and>
     h_nobody h' = flag_after CURLOPT_NOBODY (h_nobody h) [(opt, arg)]"

lemma if_outcome_cond: "(q \<Longrightarrow> P a) \<Longrightarrow> (\<not> q \<Longrightarrow> P b) \<Longrightarrow> P (if q then a else b)"
  by simp

lemma set_long_step:
  assumes "is_int opt" and "is_long (long_arg arg)"
  shows "option_step opt arg h (snd (curl_set_long_option h opt (long_arg arg)))"
  unfolding curl_set_long_option_def Let_def
  by (intro if_outcome_cond [of _ "\<lambda>p. option_step opt arg h (snd p)"])
    (use assms int32_range [of "long_arg arg"] in
      \<open>simp_all add: option_step_def handle_ok_def refuse_option_def flag_after_def touches_def\<close>)

lemma set_string_step:
  assumes "option_step opt arg h h" and "\<And>w. option_step opt arg h (upd (\<lambda>_. w) h)"
  shows "option_step opt arg h (the (fst (snd (case set_string_option get upd v h s of (c, h1, s1) \<Rightarrow> (c, Some h1, s1)))))"
  using assms unfolding set_string_option_def curl_memory_error_def curl_set_error_def
  by (auto simp: option_step_def handle_ok_def split: prod.splits)


lemma option_step_other:
  assumes "opt \<notin> {CURLOPT_POST, CURLOPT_NOBODY, CURLOPT_UPLOAD, CURLOPT_HTTPGET}" and "handle_ok h \<Longrightarrow> handle_ok h'"
    and "h_post h' = h_post h" and "h_upload h' = h_upload h" and "h_nobody h' = h_nobody h"
  shows "option_step opt arg h h'"
  using assms by (simp add: option_step_def flag_after_def touches_def)

lemma lift_step:
  assumes "is_int opt" and "is_long (long_arg arg)"
  shows "option_step opt arg h
    (the (fst (snd ((\<lambda>(c, h1). (c, Some h1, s)) (curl_set_long_option h opt (long_arg arg))))))"
  using set_long_step [OF assms, of h] by (simp add: case_prod_unfold)

lemma setopt_step:
  assumes "is_int opt" and "is_long (long_arg arg)"
  shows "option_step opt arg h (the (fst (snd (curl_easy_setopt (Some h) opt arg s))))"
  unfolding curl_easy_setopt_def Let_def option.case
  by (intro if_outcome_cond [of _ "\<lambda>p. option_step opt arg h (the (fst (snd p)))"];
      (rule lift_step [OF assms] | (rule set_string_step; rule option_step_other) | rule option_step_other)?;
      use assms in \<open>auto simp: handle_ok_def refuse_option_def refused_strings_def\<close>)

fun set_options :: "(CURLoption \<times> optval) list \<Rightarrow> CURL option \<Rightarrow> 'w cstate \<Rightarrow> CURL option \<times> 'w cstate" where
  "set_options [] r s = (r, s)"
| "set_options ((opt, arg) # os) r s = (case curl_easy_setopt r opt arg s of (c, r1, s1) \<Rightarrow> set_options os r1 s1)"

definition in_c_types :: "(CURLoption \<times> optval) list \<Rightarrow> bool" where
  "in_c_types os \<longleftrightarrow> list_all (\<lambda>(opt, arg). is_int opt \<and> is_long (long_arg arg)) os"

lemma find_snoc: "find P (xs @ [x]) = (case find P xs of None \<Rightarrow> if P x then Some x else None | Some y \<Rightarrow> Some y)"
  by (induction xs) auto

lemma flag_after_Cons: "flag_after m b (x # os) = flag_after m (flag_after m b [x]) os"
  by (auto simp: flag_after_def find_snoc split: option.split prod.split)

lemma set_options_none: "fst (set_options os None s) = None"
  by (induction os arbitrary: s) (auto simp: curl_easy_setopt_def)

lemma set_options_flags:
  "in_c_types os \<Longrightarrow> handle_ok h \<Longrightarrow> fst (set_options os (Some h) s) = Some h' \<Longrightarrow>
   handle_ok h' \<and> h_post h' = flag_after CURLOPT_POST (h_post h) os \<and>
   h_upload h' = flag_after CURLOPT_UPLOAD (h_upload h) os \<and> h_nobody h' = flag_after CURLOPT_NOBODY (h_nobody h) os"
proof (induction os arbitrary: h s)
  case (Cons oa os)
  obtain opt arg where oa: "oa = (opt, arg)" by fastforce
  obtain c r1 s1 where e: "curl_easy_setopt (Some h) opt arg s = (c, r1, s1)"
    by (cases "curl_easy_setopt (Some h) opt arg s") auto
  obtain h1 where r1: "r1 = Some h1"
    using setopt_outcome [of h opt s arg] e by (auto simp: setopt_result_def split: option.splits)
  have "option_step opt arg h h1"
    using setopt_step [of opt arg h s] Cons.prems(1) by (simp add: oa e r1 in_c_types_def)
  then show ?case
    using Cons.IH [of h1 s1] Cons.prems by (simp add: oa e r1 in_c_types_def option_step_def flag_after_Cons [of _ _ "(opt, arg)" os])
qed (simp add: flag_after_def)

text \<open>
  C26. However a new handle's options are set, in any order, with any values of their C types and any
  failures of allocation: every integer field keeps a value of its own type, and each of the three
  method flags is what the last call that touches it says. \<open>POST\<close> and \<open>UPLOAD\<close> are touched by their
  own option and cleared by switching on the other or \<open>HTTPGET\<close>, so that they are never both set;
  \<open>NOBODY\<close> is cleared by switching on any of the three, but does not clear them.
\<close>

theorem handle_well_typed:
  assumes "fst (set_options os (fst (curl_easy_init s)) s') = Some h" and "in_c_types os"
  shows "handle_ok h \<and> \<not> (h_post h \<and> h_upload h) \<and>
    h_post h = flag_after CURLOPT_POST False os \<and>
    h_upload h = flag_after CURLOPT_UPLOAD False os \<and>
    h_nobody h = flag_after CURLOPT_NOBODY False os"
proof -
  obtain h0 where h0: "fst (curl_easy_init s) = Some h0" using assms(1)
    by (cases "fst (curl_easy_init s)") (auto simp: set_options_none)
  then have c: "h0 = calloc_handle" by (auto simp: curl_easy_init_def split: prod.splits if_splits)
  have "handle_ok calloc_handle" by (simp add: handle_ok_def calloc_handle_def is_long_def is_int_def)
  then have f: "handle_ok h \<and> h_post h = flag_after CURLOPT_POST False os \<and>
      h_upload h = flag_after CURLOPT_UPLOAD False os \<and> h_nobody h = flag_after CURLOPT_NOBODY False os"
    using set_options_flags [OF assms(2), of h0 s' h] assms(1) by (simp add: h0 c) (simp add: calloc_handle_def)
  have "\<not> (flag_after CURLOPT_POST False os \<and> flag_after CURLOPT_UPLOAD False os)"
  proof (induction os rule: rev_induct)
    case (snoc x os)
    then show ?case by (cases x) (auto simp: flag_after_def touches_def)
  qed (simp add: flag_after_def)
  with f show ?thesis by blast
qed

theorem handle_well_typed_witness:
  "\<exists>h. fst (set_options [(CURLOPT_NOBODY, VLong 1), (CURLOPT_POST, VLong 1), (CURLOPT_MAXREDIRS, VLong (2 ^ 63 - 1))]
     (fst (curl_easy_init (no_memory\<lparr>alloc_ok := (\<lambda>_. True)\<rparr>))) no_memory) = Some h \<and>
     handle_ok h \<and> h_post h \<and> \<not> h_upload h \<and> \<not> h_nobody h"
proof -
  let ?os = "[(CURLOPT_NOBODY, VLong 1), (CURLOPT_POST, VLong 1), (CURLOPT_MAXREDIRS, VLong (2 ^ 63 - 1))]"
  let ?r = "fst (curl_easy_init (no_memory\<lparr>alloc_ok := (\<lambda>_. True)\<rparr>))"
  have "fst (set_options ?os ?r no_memory) \<noteq> None"
    by (simp add: curl_easy_init_def malloc_def no_memory_def curl_easy_setopt_def curl_set_long_option_def
        Let_def refused_strings_def)
  then obtain h where h: "fst (set_options ?os ?r no_memory) = Some h" by blast
  have "in_c_types ?os" by (simp add: in_c_types_def is_int_def is_long_def)
  moreover have "flag_after CURLOPT_POST False ?os" "\<not> flag_after CURLOPT_UPLOAD False ?os" "\<not> flag_after CURLOPT_NOBODY False ?os"
    by (simp_all add: flag_after_def touches_def)
  ultimately show ?thesis using handle_well_typed [OF h] h by blast
qed

subsection \<open>Copying a handle\<close>

lemma dup_strings_result:
  assumes "dup_strings ms h c s = (Some c', s')"
  shows "c' = fold (\<lambda>(get, upd) c. if get h = None then c else upd (\<lambda>_. get h) c) ms c"
  using assms
  by (induction ms h c s rule: dup_strings.induct)
    (auto simp: curl_strdup_def malloc_def split: option.splits prod.splits if_splits)

lemma dup_member:
  "(if h_url h = None then c else h_url_update (\<lambda>_. h_url h) c) = h_url_update (\<lambda>w. if h_url h = None then w else h_url h) c"
  "(if h_custom_request h = None then c else h_custom_request_update (\<lambda>_. h_custom_request h) c) = h_custom_request_update (\<lambda>w. if h_custom_request h = None then w else h_custom_request h) c"
  "(if h_user_agent h = None then c else h_user_agent_update (\<lambda>_. h_user_agent h) c) = h_user_agent_update (\<lambda>w. if h_user_agent h = None then w else h_user_agent h) c"
  "(if h_range h = None then c else h_range_update (\<lambda>_. h_range h) c) = h_range_update (\<lambda>w. if h_range h = None then w else h_range h) c"
  "(if h_username h = None then c else h_username_update (\<lambda>_. h_username h) c) = h_username_update (\<lambda>w. if h_username h = None then w else h_username h) c"
  "(if h_password h = None then c else h_password_update (\<lambda>_. h_password h) c) = h_password_update (\<lambda>w. if h_password h = None then w else h_password h) c"
  "(if h_userpwd h = None then c else h_userpwd_update (\<lambda>_. h_userpwd h) c) = h_userpwd_update (\<lambda>w. if h_userpwd h = None then w else h_userpwd h) c"
  "(if h_proxy h = None then c else h_proxy_update (\<lambda>_. h_proxy h) c) = h_proxy_update (\<lambda>w. if h_proxy h = None then w else h_proxy h) c"
  "(if h_cookie_file h = None then c else h_cookie_file_update (\<lambda>_. h_cookie_file h) c) = h_cookie_file_update (\<lambda>w. if h_cookie_file h = None then w else h_cookie_file h) c"
  "(if h_content_type h = None then c else h_content_type_update (\<lambda>_. h_content_type h) c) = h_content_type_update (\<lambda>w. if h_content_type h = None then w else h_content_type h) c"
  "(if h_effective_url h = None then c else h_effective_url_update (\<lambda>_. h_effective_url h) c) = h_effective_url_update (\<lambda>w. if h_effective_url h = None then w else h_effective_url h) c"
  by (cases c; simp)+

lemma if_none_id: "(if w = None then None else w) = w"
  by simp

lemma dup_strings_total:
  assumes "\<forall>n. alloc_ok s n"
  shows "fst (dup_strings ms h c s) \<noteq> None"
  using assms
  by (induction ms h c s rule: dup_strings.induct)
    (auto simp: curl_strdup_def malloc_def split: option.splits prod.splits if_splits)

text \<open>
  A copied handle has every setting of the original and its own copies of the strings; it is in
  no multi handle and not completed. Only a failed allocation leaves no copy.
\<close>

theorem duphandle_copies:
  assumes "curl_easy_duphandle (Some h) s = (r, s')"
  shows "r = Some (h\<lparr>h_next := 0, h_added := False, h_completed := False\<rparr>) \<or>
    r = None \<and> (\<exists>n. \<not> alloc_ok s n)"
proof (cases r)
  case (Some c)
  with assms obtain s1 where "dup_strings string_members h
      (fold (\<lambda>(get, upd). upd (\<lambda>_. None)) string_members (h\<lparr>h_next := 0, h_added := False, h_completed := False\<rparr>)) s1
    = (Some c, s')"
    by (auto simp: curl_easy_duphandle_def split: prod.splits option.splits)
  from dup_strings_result [OF this] have "c = h\<lparr>h_next := 0, h_added := False, h_completed := False\<rparr>"
    by (simp add: string_members_def dup_member if_none_id)
  with Some show ?thesis by simp
next
  case None
  have "r \<noteq> None" if "\<forall>n. alloc_ok s n"
  proof -
    from that have i: "curl_easy_init s = (Some calloc_handle, s\<lparr>allocs := allocs s + 1\<rparr>)"
      by (simp add: curl_easy_init_def malloc_def)
    show ?thesis
      using assms dup_strings_total [of "s\<lparr>allocs := allocs s + 1\<rparr>"] that
      by (auto simp: curl_easy_duphandle_def i dest!: arg_cong [of _ _ fst])
  qed
  with None show ?thesis by blast
qed

theorem duphandle_copies_witness:
  "fst (curl_easy_duphandle (Some (calloc_handle\<lparr>h_url := Some ''http://a''\<rparr>)) (no_memory\<lparr>alloc_ok := \<lambda>_. True\<rparr>)) =
     Some (calloc_handle\<lparr>h_url := Some ''http://a'', h_next := 0, h_added := False, h_completed := False\<rparr>)"
proof -
  let ?h = "calloc_handle\<lparr>h_url := Some ''http://a''\<rparr>"
  obtain r s' where e: "curl_easy_duphandle (Some ?h) (no_memory\<lparr>alloc_ok := \<lambda>_. True\<rparr>) = (r, s')" by fastforce
  from duphandle_copies [OF e] e show ?thesis by simp
qed

end
