(* ===== verification/CurlTransfer.thy ===== *)
theory CurlTransfer
  imports CurlState
begin

text \<open>
  A transfer of the curl layer (\<open>bin/git/port/ewokos/curl_compat.c\<close>, from \<open>curl_same_origin\<close>'s users to
  \<open>curl_easy_perform\<close>): the request headers and body, the response's headers and body, and the loop
  over redirects and one retry.

  The HTTP library (\<open>tinyhttpsc\<close>, not in the repository) and the client's callbacks are the fields of
  \<open>net\<close>: a request is the list of the library's calls that built it, \<open>fetch\<close> sends it, the \<open>rsp_\<close>
  functions read a response. Loops that the network or a callback can keep going are partial
  functions into \<open>option\<close>; \<open>None\<close> is a transfer that never returns.
\<close>

unbundle bit_operations_syntax

datatype request_call =
    SetMaxRedirections int
  | SetTimeout int
  | SetMethod string
  | AddHeader string string
  | SendAny string

record ('r, 'w) net =
  fetch :: "string \<Rightarrow> request_call list \<Rightarrow> 'w \<Rightarrow> 'r option \<times> 'w"
  rsp_error :: "'r \<Rightarrow> bool"
  rsp_error_code :: "'r \<Rightarrow> int"
  rsp_error_msg :: "'r \<Rightarrow> string option"
  rsp_status :: "'r \<Rightarrow> int"
  rsp_headers :: "'r \<Rightarrow> (string option \<times> string option) list"
  rsp_header_by_key :: "'r \<Rightarrow> string \<Rightarrow> string option"
  read_chunk :: "'r \<Rightarrow> nat \<Rightarrow> int \<times> string \<times> 'r"
  write_fn :: "ptr \<Rightarrow> string \<Rightarrow> ptr \<Rightarrow> 'w \<Rightarrow> nat \<times> 'w"
  read_fn :: "ptr \<Rightarrow> nat \<Rightarrow> ptr \<Rightarrow> 'w \<Rightarrow> nat \<times> string \<times> 'w"
  debug_fn :: "ptr \<Rightarrow> int \<Rightarrow> string \<Rightarrow> ptr \<Rightarrow> 'w \<Rightarrow> 'w"
  fwrite_stdout :: "string \<Rightarrow> 'w \<Rightarrow> nat \<times> 'w"

definition CURLINFO_HEADER_IN :: int where "CURLINFO_HEADER_IN = 1"
definition CURLINFO_HEADER_OUT :: int where "CURLINFO_HEADER_OUT = 2"
definition CURLINFO_DATA_IN :: int where "CURLINFO_DATA_IN = 3"
definition CURLINFO_DATA_OUT :: int where "CURLINFO_DATA_OUT = 4"

definition curl_debug :: "('r, 'w) net \<Rightarrow> CURL \<Rightarrow> int \<Rightarrow> string \<Rightarrow> 'w cstate \<Rightarrow> 'w cstate" where
  "curl_debug net h type data s =
     (if h_verbose h \<and> h_debug_callback h \<noteq> 0
      then s\<lparr>world := debug_fn net (h_debug_callback h) type data (h_debug_data h) (world s)\<rparr> else s)"

subsection \<open>Request headers\<close>

definition curl_headers_contain :: "CURL \<Rightarrow> string \<Rightarrow> bool" where
  "curl_headers_contain h name \<longleftrightarrow> (\<exists>item \<in> set (h_headers h). curl_header_name_is item (length item) name)"

definition curl_basic_auth :: "CURL \<Rightarrow> 'w cstate \<Rightarrow> string option \<times> 'w cstate" where
  "curl_basic_auth h s =
     (let combined =
        (case (h_username h, h_userpwd h) of
           (None, Some w) \<Rightarrow> curl_strdup (Some w) s
         | (Some user, _) \<Rightarrow>
             (case malloc s of (ok, s1) \<Rightarrow>
                (if ok then Some (user @ '':'' @ (case h_password h of Some p \<Rightarrow> p | None \<Rightarrow> [])) else None, s1))
         | (None, None) \<Rightarrow> (None, s))
      in case combined of
           (None, s1) \<Rightarrow> (None, s1)
         | (Some w, s1) \<Rightarrow>
             (case malloc s1 of (ok, s2) \<Rightarrow> (if ok then Some (''Basic '' @ b64_encode w) else None, s2)))"

definition is_credential :: "string \<Rightarrow> nat \<Rightarrow> bool" where
  "is_credential item len \<longleftrightarrow>
     curl_header_name_is item len ''Authorization'' \<or> curl_header_name_is item len ''Cookie''"

definition CRLF :: string where
  "CRLF = [CHR 0x0D, CHR 0x0A]"

definition header_line :: "string \<Rightarrow> string \<Rightarrow> string" where
  "header_line key value = key @ '': '' @ value @ CRLF"

text \<open>The loop over the client's headers; the calls made so far are collected.\<close>

fun add_headers ::
    "('r, 'w) net \<Rightarrow> CURL \<Rightarrow> bool \<Rightarrow> string list \<Rightarrow> request_call list \<Rightarrow> 'w cstate \<Rightarrow>
     int \<times> request_call list \<times> 'w cstate" where
  "add_headers net h same [] calls s = (0, calls, s)"
| "add_headers net h same (item # items) calls s =
     (case strchr item (CHR '':'') of
        None \<Rightarrow> add_headers net h same items calls s
      | Some key_len \<Rightarrow>
          (let value = dropWhile (\<lambda>c. c = CHR '' '' \<or> c = TAB) (drop (key_len + 1) item)
           in if value = [] then add_headers net h same items calls s
              else if \<not> same \<and> is_credential item (key_len + 1) then add_headers net h same items calls s
              else if key_len \<ge> 128 then (- 1, calls, s)
              else
                (let key = take key_len item
                 in add_headers net h same items (calls @ [AddHeader key value])
                      (curl_debug net h CURLINFO_HEADER_OUT (snprintf 512 (header_line key value)) s))))"

definition curl_add_request_headers ::
    "('r, 'w) net \<Rightarrow> CURL \<Rightarrow> string \<Rightarrow> string \<Rightarrow> request_call list \<Rightarrow> 'w cstate \<Rightarrow>
     int \<times> request_call list \<times> 'w cstate" where
  "curl_add_request_headers net h url original_url calls s =
     (let same = curl_same_origin url original_url
      in case add_headers net h same (h_headers h) calls s of (r, calls1, s1) \<Rightarrow>
           if r \<noteq> 0 then (r, calls1, s1)
           else
             (let calls2 = calls1 @
                    (case h_user_agent h of
                       Some a \<Rightarrow> if curl_headers_contain h ''User-Agent'' then [] else [AddHeader ''User-Agent'' a]
                     | None \<Rightarrow> []) @
                    (case h_range h of
                       Some a \<Rightarrow> if curl_headers_contain h ''Range'' then [] else [AddHeader ''Range'' a]
                     | None \<Rightarrow> [])
              in if same \<and> h_httpauth h AND CURLAUTH_BASIC \<noteq> 0 \<and> \<not> curl_headers_contain h ''Authorization'' then
                   (case curl_basic_auth h s1 of
                      (Some auth, s2) \<Rightarrow> (0, calls2 @ [AddHeader ''Authorization'' auth], s2)
                    | (None, s2) \<Rightarrow> (0, calls2, s2))
                 else (0, calls2, s1)))"

subsection \<open>Request body\<close>

text \<open>
  \<open>read_fn\<close> returns the count it reports and what it wrote; bytes it reports but did not write are
  whatever the buffer held, here zeros.
\<close>

definition received :: "nat \<Rightarrow> string \<Rightarrow> string" where
  "received got written = take got (written @ replicate got NUL)"

definition read_failed :: "CURL \<Rightarrow> 'w cstate \<Rightarrow> CURLcode \<times> CURL \<times> 'w cstate" where
  "read_failed h s =
     (CURLE_READ_ERROR, curl_set_error CURLE_READ_ERROR (Some ''failed to buffer request body'') h s)"

definition wanted :: "CURL \<Rightarrow> curl_buffer \<Rightarrow> nat" where
  "wanted h body =
     (if h_infile_size h \<ge> 0 \<and> 16384 > h_infile_size h - int (length (bytes body))
      then nat (h_infile_size h - int (length (bytes body))) else 16384)"

partial_function (option) collect_loop ::
    "('r, 'w) net \<Rightarrow> CURL \<Rightarrow> curl_buffer \<Rightarrow> 'w cstate \<Rightarrow> (curl_buffer \<times> CURLcode \<times> CURL \<times> 'w cstate) option" where
  "collect_loop net h body s =
     (if h_infile_size h \<ge> 0 \<and> int (length (bytes body)) \<ge> h_infile_size h then Some (body, CURLE_OK, h, s)
      else
        (case read_fn net (h_read_callback h) (wanted h body) (h_read_data h) (world s) of (got, written, w) \<Rightarrow>
           if got = 0 then Some (body, CURLE_OK, h, s\<lparr>world := w\<rparr>)
           else if got > wanted h body then Some (body, read_failed h (s\<lparr>world := w\<rparr>))
           else
             (let data = received got written
              in case curl_buffer_append body data (s\<lparr>world := w\<rparr>) of (r, body1, s1) \<Rightarrow>
                   if r \<noteq> 0 then Some (body1, read_failed h s1)
                   else collect_loop net h body1 (curl_debug net h CURLINFO_DATA_OUT data s1))))"

definition post_data :: "CURL \<Rightarrow> string \<Rightarrow> string" where
  "post_data h w = (if h_post_size h \<ge> 0 then take (nat (h_post_size h)) w else takeWhile (\<lambda>c. c \<noteq> NUL) w)"

definition curl_collect_request_body ::
    "('r, 'w) net \<Rightarrow> CURL \<Rightarrow> curl_buffer \<Rightarrow> 'w cstate \<Rightarrow> (curl_buffer \<times> CURLcode \<times> CURL \<times> 'w cstate) option" where
  "curl_collect_request_body net h body s =
     (case h_post_fields h of
        Some w \<Rightarrow>
          (case curl_buffer_append body (post_data h w) s of (r, body1, s1) \<Rightarrow>
             Some (body1, if r \<noteq> 0 then curl_memory_error h s1 else (CURLE_OK, h, s1)))
      | None \<Rightarrow>
          if h_read_callback h = 0 then Some (body, CURLE_OK, h, s) else collect_loop net h body s)"

subsection \<open>Response\<close>

definition curl_deliver_header :: "('r, 'w) net \<Rightarrow> CURL \<Rightarrow> string \<Rightarrow> 'w cstate \<Rightarrow> int \<times> 'w cstate" where
  "curl_deliver_header net h data s =
     (let s1 = curl_debug net h CURLINFO_HEADER_IN data s
      in if h_header_callback h = 0 then (0, s1)
         else case write_fn net (h_header_callback h) data (h_header_data h) (world s1) of (written, w) \<Rightarrow>
           (if written = length data then 0 else - 1, s1\<lparr>world := w\<rparr>))"

definition offered_auth :: "string \<Rightarrow> int" where
  "offered_auth value =
     (if strncase_eq 5 value ''Basic'' then CURLAUTH_BASIC else 0) OR
     (if strncase_eq 6 value ''Digest'' then CURLAUTH_DIGEST else 0) OR
     (if strncase_eq 4 value ''NTLM'' then CURLAUTH_NTLM else 0) OR
     (if strncase_eq 9 value ''Negotiate'' then CURLAUTH_GSSNEGOTIATE else 0)"

fun process_headers ::
    "('r, 'w) net \<Rightarrow> (string option \<times> string option) list \<Rightarrow> CURL \<Rightarrow> 'w cstate \<Rightarrow> int \<times> CURL \<times> 'w cstate" where
  "process_headers net ((Some key, Some value) # hs) h s =
     (case malloc s of (ok, s1) \<Rightarrow>
        if \<not> ok then (- 1, h, s1)
        else
          (case curl_deliver_header net h (header_line key value) s1 of (failed, s2) \<Rightarrow>
             if failed \<noteq> 0 then (- 1, h, s2)
             else if strcase_eq key ''Content-Type'' then
               (case curl_replace_string (h_content_type h) (Some value) s2 of (r, new, s3) \<Rightarrow>
                  if r \<noteq> 0 then (- 1, h, s3) else process_headers net hs (h\<lparr>h_content_type := new\<rparr>) s3)
             else if strcase_eq key ''WWW-Authenticate'' then
               process_headers net hs (h\<lparr>h_auth_avail := h_auth_avail h OR offered_auth value\<rparr>) s2
             else process_headers net hs h s2))"
| "process_headers net ((None, _) # hs) h s = process_headers net hs h s"
| "process_headers net ((Some key, None) # hs) h s = process_headers net hs h s"
| "process_headers net [] h s = (case curl_deliver_header net h CRLF s of (r, s1) \<Rightarrow> (r, h, s1))"

definition curl_process_response_headers ::
    "('r, 'w) net \<Rightarrow> CURL \<Rightarrow> 'r \<Rightarrow> 'w cstate \<Rightarrow> int \<times> CURL \<times> 'w cstate" where
  "curl_process_response_headers net h r s =
     (case curl_deliver_header net h (snprintf 64 (''HTTP/1.1 '' @ dec (rsp_status net r) @ CRLF)) s of
        (failed, s1) \<Rightarrow>
          if failed \<noteq> 0 then (- 1, h, s1) else process_headers net (rsp_headers net r) h s1)"

partial_function (option) read_body ::
    "('r, 'w) net \<Rightarrow> CURL \<Rightarrow> 'r \<Rightarrow> curl_buffer \<Rightarrow> 'w cstate \<Rightarrow> (curl_buffer \<times> CURLcode \<times> CURL \<times> 'w cstate) option" where
  "read_body net h r body s =
     (case read_chunk net r 16384 of (got, data, r1) \<Rightarrow>
        if got < 0 \<or> got = 0 \<and> rsp_error net r1 then
          Some (body, CURLE_READ_ERROR, curl_set_error CURLE_READ_ERROR (rsp_error_msg net r1) h s)
        else if got = 0 then Some (body, CURLE_OK, h, s)
        else
          (let chunk = received (nat got) data
           in case curl_buffer_append body chunk (curl_debug net h CURLINFO_DATA_IN chunk s) of (e, body1, s1) \<Rightarrow>
                if e \<noteq> 0 then Some (body1, curl_memory_error h s1)
                else read_body net h r1 body1 s1))"

definition write_body ::
    "('r, 'w) net \<Rightarrow> CURL \<Rightarrow> curl_buffer \<Rightarrow> 'w cstate \<Rightarrow> CURLcode \<times> CURL \<times> 'w cstate" where
  "write_body net h body s =
     (case (if h_write_callback h \<noteq> 0
            then write_fn net (h_write_callback h) (bytes body) (h_write_data h) (world s)
            else fwrite_stdout net (bytes body) (world s)) of (written, w) \<Rightarrow>
        if written \<noteq> length (bytes body) then
          (CURLE_WRITE_ERROR,
           curl_set_error CURLE_WRITE_ERROR (Some ''HTTP response callback failed'') h (s\<lparr>world := w\<rparr>))
        else (CURLE_OK, h, s\<lparr>world := w\<rparr>))"

definition curl_deliver_body ::
    "('r, 'w) net \<Rightarrow> CURL \<Rightarrow> 'r \<Rightarrow> curl_buffer \<Rightarrow> 'w cstate \<Rightarrow> (curl_buffer \<times> CURLcode \<times> CURL \<times> 'w cstate) option" where
  "curl_deliver_body net h r body s =
     (if h_nobody h then Some (body, CURLE_OK, h, s)
      else do {
        (body1, c, h1, s1) \<leftarrow> read_body net h r (body\<lparr>bytes := []\<rparr>) s;
        Some (body1, if c \<noteq> CURLE_OK then (c, h1, s1) else write_body net h1 body1 s1)
      })"

definition curl_map_response_error ::
    "('r, 'w) net \<Rightarrow> CURL \<Rightarrow> 'r \<Rightarrow> 'w cstate \<Rightarrow> CURLcode \<times> CURL \<times> 'w cstate" where
  "curl_map_response_error net h r s =
     (let message = rsp_error_msg net r; code = rsp_error_code net r;
          c = (if code = 2 then CURLE_URL_MALFORMAT
               else if code = 8 then CURLE_OUT_OF_MEMORY
               else if code = 10 \<or> code = 11 then CURLE_COULDNT_RESOLVE_HOST
               else if code = 6 \<or> code = 15 \<or> code = 16 \<or> code = 20 then CURLE_READ_ERROR
               else if (code = 17 \<or> code = 18) \<and> (case h_url h of Some u \<Rightarrow> is_https u | None \<Rightarrow> False)
                 then CURLE_SSL_CONNECT_ERROR
               else if (case message of Some m \<Rightarrow> strstr m ''timeout'' \<noteq> None | None \<Rightarrow> False)
                 then CURLE_OPERATION_TIMEDOUT
               else CURLE_COULDNT_CONNECT)
      in (c, curl_set_error c (Some (case message of Some m \<Rightarrow> m | None \<Rightarrow> ''tinyhttpsc request failed'')) h s))"

subsection \<open>One request\<close>

text \<open>
  \<open>Inl\<close> a code that ends the transfer, \<open>Inr\<close> the response. \<open>NewHttpsRequest\<close> fails as an allocation.
\<close>

definition send_request ::
    "('r, 'w) net \<Rightarrow> CURL \<Rightarrow> string \<Rightarrow> string \<Rightarrow> string \<Rightarrow> bool \<Rightarrow> curl_buffer \<Rightarrow> 'w cstate \<Rightarrow>
     (CURLcode + 'r) \<times> CURL \<times> 'w cstate" where
  "send_request net h original url method has_body body s =
     (case malloc s of (ok, s1) \<Rightarrow>
        if \<not> ok then (case curl_memory_error h s1 of (c, h1, s2) \<Rightarrow> (Inl c, h1, s2))
        else
          (case curl_add_request_headers net h url original
                  [SetMaxRedirections 0, SetTimeout 4000, SetMethod method] s1 of (r, calls, s2) \<Rightarrow>
             if r \<noteq> 0 then (case curl_memory_error h s2 of (c, h1, s3) \<Rightarrow> (Inl c, h1, s3))
             else
               (case fetch net url (calls @ (if has_body then [SendAny (bytes body)] else [])) (world s2) of
                  (None, w) \<Rightarrow>
                    (Inl CURLE_COULDNT_CONNECT,
                     curl_set_error CURLE_COULDNT_CONNECT (Some ''tinyhttpsc returned no response'') h
                       (s2\<lparr>world := w\<rparr>))
                | (Some response, w) \<Rightarrow> (Inr response, h, s2\<lparr>world := w\<rparr>))))"

text \<open>Recording a response: its status, the effective URL and the headers; a code is a failure.\<close>

definition take_response ::
    "('r, 'w) net \<Rightarrow> CURL \<Rightarrow> string \<Rightarrow> 'r \<Rightarrow> 'w cstate \<Rightarrow> CURLcode option \<times> CURL \<times> 'w cstate" where
  "take_response net h url r s =
     (let h1 = h\<lparr>h_response_code := rsp_status net r\<rparr>
      in case curl_replace_string (h_effective_url h1) (Some url) s of (e, new, s1) \<Rightarrow>
           if e \<noteq> 0 then (case curl_memory_error h1 s1 of (c, h2, s2) \<Rightarrow> (Some c, h2, s2))
           else
             (case curl_process_response_headers net (h1\<lparr>h_effective_url := new\<rparr>) r s1 of (e, h2, s2) \<Rightarrow>
                if e \<noteq> 0 then (case curl_memory_error h2 s2 of (c, h3, s3) \<Rightarrow> (Some c, h3, s3))
                else (None, h2, s2)))"

definition may_retry :: "string \<Rightarrow> int \<Rightarrow> CURLcode \<Rightarrow> bool" where
  "may_retry method retries c \<longleftrightarrow>
     (method = ''GET'' \<or> method = ''POST'') \<and> retries < 1 \<and>
     c \<in> {CURLE_COULDNT_CONNECT, CURLE_READ_ERROR, CURLE_SSL_CONNECT_ERROR, CURLE_OPERATION_TIMEDOUT}"

definition is_redirect :: "int \<Rightarrow> bool" where
  "is_redirect status \<longleftrightarrow> status \<in> {301, 302, 303, 307, 308}"

definition becomes_get :: "CURL \<Rightarrow> int \<Rightarrow> bool" where
  "becomes_get h status \<longleftrightarrow>
     status = 303 \<or>
     (status = 301 \<or> status = 302) \<and> h_postredir h AND (if status = 301 then 1 else 2) = 0"

text \<open>\<open>Inl\<close> a code that ends the transfer, \<open>Inr\<close> the next URL.\<close>

definition follow_redirect ::
    "CURL \<Rightarrow> string \<Rightarrow> string \<Rightarrow> int \<Rightarrow> 'w cstate \<Rightarrow> (CURLcode + string) \<times> CURL \<times> 'w cstate" where
  "follow_redirect h url location redirects s =
     (if redirects \<ge> h_maxredirs h then
        (Inl CURLE_TOO_MANY_REDIRECTS,
         curl_set_error CURLE_TOO_MANY_REDIRECTS (Some ''too many HTTP redirects'') h s)
      else
        (case curl_redirect_url url location s of
           (None, s1) \<Rightarrow> (case curl_memory_error h s1 of (c, h1, s2) \<Rightarrow> (Inl c, h1, s2))
         | (Some next_url, s1) \<Rightarrow>
             if \<not> curl_scheme_allowed next_url (h_redir_protocols h) then
               (Inl CURLE_UNSUPPORTED_PROTOCOL,
                curl_set_error CURLE_UNSUPPORTED_PROTOCOL (Some ''redirect protocol is not allowed'') h s1)
             else (Inr next_url, h, s1)))"

definition finish_response ::
    "('r, 'w) net \<Rightarrow> CURL \<Rightarrow> 'r \<Rightarrow> curl_buffer \<Rightarrow> 'w cstate \<Rightarrow> (curl_buffer \<times> CURLcode \<times> CURL \<times> 'w cstate) option" where
  "finish_response net h r rbody s =
     (if h_failonerror h \<and> h_response_code h \<ge> 400 then
        Some (rbody, CURLE_HTTP_RETURNED_ERROR,
              curl_set_error CURLE_HTTP_RETURNED_ERROR (Some ''HTTP server returned an error'') h s)
      else curl_deliver_body net h r rbody s)"

subsection \<open>The loop over redirects and the retry\<close>

text \<open>
  \<open>redirects\<close> is an \<open>int\<close> of the code; it is unbounded here, which shows only for a transfer that is
  redirected more than two thousand million times.
\<close>

partial_function (option) perform_loop ::
    "('r, 'w) net \<Rightarrow> string \<Rightarrow> CURL \<Rightarrow> string \<Rightarrow> int \<Rightarrow> int \<Rightarrow> string \<Rightarrow> bool \<Rightarrow> curl_buffer \<Rightarrow> curl_buffer \<Rightarrow>
     'w cstate \<Rightarrow> (CURLcode \<times> CURL \<times> 'w cstate) option" where
  "perform_loop net original h url redirects retries method has_body body rbody s =
     (case send_request net h original url method has_body body s of
        (Inl c, h1, s1) \<Rightarrow> Some (c, h1, s1)
      | (Inr r, h1, s1) \<Rightarrow>
          if rsp_error net r then
            (case curl_map_response_error net h1 r s1 of (c, h2, s2) \<Rightarrow>
               if may_retry method retries c
               then perform_loop net original h2 url redirects (retries + 1) method has_body body rbody s2
               else Some (c, h2, s2))
          else
            (case take_response net h1 url r s1 of
               (Some c, h2, s2) \<Rightarrow> Some (c, h2, s2)
             | (None, h2, s2) \<Rightarrow>
                 (case (if h_followlocation h2 \<and> is_redirect (h_response_code h2)
                        then rsp_header_by_key net r ''Location'' else None) of
                    Some location \<Rightarrow>
                      (case follow_redirect h2 url location redirects s2 of
                         (Inl c, h3, s3) \<Rightarrow> Some (c, h3, s3)
                       | (Inr next_url, h3, s3) \<Rightarrow>
                           if becomes_get h3 (h_response_code h3)
                           then perform_loop net original h3 next_url (redirects + 1) retries ''GET'' False
                                  (body\<lparr>bytes := []\<rparr>) rbody s3
                           else perform_loop net original h3 next_url (redirects + 1) retries method has_body
                                  body rbody s3)
                  | None \<Rightarrow>
                      do {
                        (rbody1, c, h3, s3) \<leftarrow> finish_response net h2 r rbody s2;
                        (if may_retry method retries c
                         then perform_loop net original h3 url redirects (retries + 1) method has_body body rbody1 s3
                         else Some (c, h3, s3))
                      })))"

text \<open>The requests that are refused before anything is sent; \<open>None\<close> when there is no objection.\<close>

definition objection :: "CURL \<Rightarrow> (CURLcode \<times> string option) option" where
  "objection h =
     (case h_url h of None \<Rightarrow> Some (CURLE_URL_MALFORMAT, None)
      | Some url \<Rightarrow>
          if h_unsupported_option h \<noteq> 0 then
            Some (CURLE_NOT_BUILT_IN, Some ''requested curl option is not supported by tinyhttpsc'')
          else if h_proxy h \<noteq> None \<and> h_proxy h \<noteq> Some [] then
            Some (CURLE_NOT_BUILT_IN, Some ''HTTP proxy is not supported by tinyhttpsc'')
          else if h_cookie_file h \<noteq> None \<and> h_cookie_file h \<noteq> Some [] \<or> h_resolve h \<noteq> [] then
            Some (CURLE_NOT_BUILT_IN, Some ''cookie files and custom DNS resolution are not supported'')
          else if \<not> curl_scheme_allowed url (h_protocols h) then
            Some (CURLE_UNSUPPORTED_PROTOCOL, Some ''only HTTP and HTTPS are supported'')
          else if is_https url \<and> (\<not> h_ssl_verifypeer h \<or> h_ssl_verifyhost h = 0) then
            Some (CURLE_SSL_CERTPROBLEM,
                  Some ''disabling TLS certificate verification is not supported by tinyhttpsc'')
          else None)"

definition request_method :: "CURL \<Rightarrow> string" where
  "request_method h =
     (case h_custom_request h of Some m \<Rightarrow> m
      | None \<Rightarrow> if h_upload h then ''PUT'' else if h_post h then ''POST'' else if h_nobody h then ''HEAD'' else ''GET'')"

definition curl_perform :: "('r, 'w) net \<Rightarrow> CURL \<Rightarrow> 'w cstate \<Rightarrow> (CURLcode \<times> CURL \<times> 'w cstate) option" where
  "curl_perform net h s =
     (case objection h of
        Some (c, None) \<Rightarrow> Some (c, h, s)
      | Some (c, Some m) \<Rightarrow> Some (c, curl_set_error c (Some m) h s)
      | None \<Rightarrow>
          do {
            (body, c, h1, s1) \<leftarrow> curl_collect_request_body net h empty_buffer s;
            (if c \<noteq> CURLE_OK then Some (c, h1, s1)
             else
               (case curl_strdup (h_url h1) s1 of
                  (None, s2) \<Rightarrow> Some (curl_memory_error h1 s2)
                | (Some url, s2) \<Rightarrow>
                    perform_loop net url h1 url 0 0 (request_method h1)
                      (h_post_fields h1 \<noteq> None \<or> h_read_callback h1 \<noteq> 0) body empty_buffer s2))
          })"

definition curl_easy_perform ::
    "('r, 'w) net \<Rightarrow> CURL option \<Rightarrow> 'w cstate \<Rightarrow> (CURLcode \<times> CURL option \<times> 'w cstate) option" where
  "curl_easy_perform net handle s =
     (case handle of None \<Rightarrow> Some (CURLE_FAILED_INIT, None, s)
      | Some h \<Rightarrow>
          (case curl_clear_transfer_results h s of (h1, s1) \<Rightarrow>
             do {
               (c, h2, s2) \<leftarrow> curl_perform net h1 s1;
               Some (c, Some (h2\<lparr>h_result := c, h_completed := True\<rparr>), s2)
             }))"

declare collect_loop.simps [code] read_body.simps [code] perform_loop.simps [code]

end
