(* ===== verification/CurlTrace.thy ===== *)
theory CurlTrace
  imports CurlTransfer
begin

text \<open>
  What a transfer does to the world, as a trace: every change of the world is one of the client's
  callbacks or a request handed to the HTTP library, and the requests are listed. The theorems bound
  their number and say what they may carry, for every library and every callback; a transfer over
  any library whose bodies end returns.
\<close>

unbundle bit_operations_syntax

subsection \<open>Traces\<close>

inductive evolves ::
    "('r, 'w) net \<Rightarrow> 'w \<Rightarrow> (string \<times> request_call list) list \<Rightarrow> 'w \<Rightarrow> bool" for net where
  evolves_refl: "evolves net w [] w"
| evolves_fetch: "evolves net w rs w1 \<Longrightarrow> fetch net url calls w1 = (r, w2) \<Longrightarrow> evolves net w (rs @ [(url, calls)]) w2"
| evolves_write: "evolves net w rs w1 \<Longrightarrow> write_fn net f data d w1 = (n, w2) \<Longrightarrow> evolves net w rs w2"
| evolves_read: "evolves net w rs w1 \<Longrightarrow> read_fn net f want d w1 = (n, data, w2) \<Longrightarrow> evolves net w rs w2"
| evolves_debug: "evolves net w rs w1 \<Longrightarrow> evolves net w rs (debug_fn net f ty data d w1)"
| evolves_stdout: "evolves net w rs w1 \<Longrightarrow> fwrite_stdout net data w1 = (n, w2) \<Longrightarrow> evolves net w rs w2"

lemma evolves_trans:
  assumes "evolves net w1 rs' w2" and "evolves net w rs w1"
  shows "evolves net w (rs @ rs') w2"
  using assms
proof (induction rule: evolves.induct)
  case (evolves_fetch wa rsa wb url calls r wc)
  then show ?case using evolves.evolves_fetch [of net w "rs @ rsa" wb url calls r wc] by simp
qed (auto intro: evolves.intros)

text \<open>No request in between.\<close>

abbreviation quiet :: "('r, 'w) net \<Rightarrow> 'w cstate \<Rightarrow> 'w cstate \<Rightarrow> bool" where
  "quiet net s s' \<equiv> evolves net (world s) [] (world s')"

lemma quiet_trans: "quiet net s s1 \<Longrightarrow> quiet net s1 s2 \<Longrightarrow> quiet net s s2"
  using evolves_trans [of net "world s1" "[]" "world s2" "world s" "[]"] by simp

lemma quiet_refl [simp]: "quiet net s s"
  by (rule evolves_refl)

text \<open>The settings of a handle: everything but the results of transfers.\<close>

definition settings :: "CURL \<Rightarrow> CURL" where
  "settings h = h\<lparr>h_content_type := None, h_effective_url := None, h_response_code := 0, h_auth_avail := 0,
     h_connect_code := 0, h_result := CURLE_OK, h_completed := False\<rparr>"

lemma settings_results [simp]:
  "settings (h\<lparr>h_content_type := a\<rparr>) = settings h" "settings (h\<lparr>h_effective_url := a\<rparr>) = settings h"
  "settings (h\<lparr>h_response_code := k\<rparr>) = settings h" "settings (h\<lparr>h_auth_avail := k\<rparr>) = settings h"
  "settings (h\<lparr>h_result := c\<rparr>) = settings h" "settings (h\<lparr>h_completed := b\<rparr>) = settings h"
  "settings (h\<lparr>h_connect_code := k\<rparr>) = settings h"
  by (simp_all add: settings_def)

lemma settings_fields:
  assumes "settings h1 = settings h2"
  shows "h_maxredirs h1 = h_maxredirs h2" "h_redir_protocols h1 = h_redir_protocols h2"
    "h_protocols h1 = h_protocols h2" "h_infile_size h1 = h_infile_size h2" "h_url h1 = h_url h2"
    "h_read_callback h1 = h_read_callback h2" "h_post_fields h1 = h_post_fields h2"
  using assms [THEN arg_cong, of h_maxredirs] assms [THEN arg_cong, of h_redir_protocols]
    assms [THEN arg_cong, of h_protocols] assms [THEN arg_cong, of h_infile_size] assms [THEN arg_cong, of h_url]
    assms [THEN arg_cong, of h_read_callback] assms [THEN arg_cong, of h_post_fields]
  by (simp_all add: settings_def)

text \<open>What every part of a transfer but the sending keeps.\<close>

definition calm :: "('r, 'w) net \<Rightarrow> CURL \<Rightarrow> 'w cstate \<Rightarrow> CURL \<Rightarrow> 'w cstate \<Rightarrow> bool" where
  "calm net h s h' s' \<longleftrightarrow> settings h' = settings h \<and> quiet net s s'"

lemma calm_refl [simp]: "calm net h s h s"
  by (simp add: calm_def)

lemma calm_trans: "calm net h s h1 s1 \<Longrightarrow> calm net h1 s1 h2 s2 \<Longrightarrow> calm net h s h2 s2"
  by (auto simp: calm_def intro: quiet_trans)

lemma calm_same_world: "settings h' = settings h \<Longrightarrow> world s' = world s \<Longrightarrow> calm net h s h' s'"
  by (simp add: calm_def)

lemma malloc_world [simp]: "world (snd (malloc s)) = world s"
  by (simp add: malloc_def)

lemma strdup_world: "curl_strdup v s = (r, s') \<Longrightarrow> world s' = world s"
  by (auto simp: curl_strdup_def malloc_def split: option.splits)

lemma replace_string_world: "curl_replace_string t v s = (e, r, s') \<Longrightarrow> world s' = world s"
  by (auto simp: curl_replace_string_def dest: strdup_world split: prod.splits if_splits)

lemma buffer_append_world: "curl_buffer_append b data s = (e, b', s') \<Longrightarrow> world s' = world s"
  by (auto simp: curl_buffer_append_def malloc_def Let_def split: if_splits)

lemma set_error_calm: "curl_set_error c m h s = (h', s') \<Longrightarrow> calm net h s h' s'"
  by (rule calm_same_world) (auto simp: curl_set_error_def split: option.splits)

lemma memory_error_calm: "curl_memory_error h s = (c, h', s') \<Longrightarrow> calm net h s h' s'"
  by (auto simp: curl_memory_error_def intro: set_error_calm)

lemma debug_quiet: "quiet net s (curl_debug net h ty data s)"
  by (auto simp: curl_debug_def intro: evolves_debug evolves_refl)

text \<open>The step of the header loop, by what it does with an item.\<close>

lemma add_headers_step:
  "add_headers net h same (item # items) calls s = add_headers net h same items calls s \<or>
   add_headers net h same (item # items) calls s = (- 1, calls, s) \<or>
   (\<exists>key_len value. strchr item (CHR '':'') = Some key_len \<and> (\<not> same \<longrightarrow> \<not> is_credential item (key_len + 1)) \<and>
      add_headers net h same (item # items) calls s =
      add_headers net h same items (calls @ [AddHeader (take key_len item) value])
        (curl_debug net h CURLINFO_HEADER_OUT (snprintf 512 (header_line (take key_len item) value)) s))"
proof (cases "strchr item (CHR '':'')")
  case (Some key_len)
  define val where "val = dropWhile (\<lambda>c. c = CHR '' '' \<or> c = TAB) (drop (key_len + 1) item)"
  have "add_headers net h same (item # items) calls s =
    (if val = [] \<or> \<not> same \<and> is_credential item (key_len + 1) then add_headers net h same items calls s
     else if key_len \<ge> 128 then (- 1, calls, s)
     else add_headers net h same items (calls @ [AddHeader (take key_len item) val])
        (curl_debug net h CURLINFO_HEADER_OUT (snprintf 512 (header_line (take key_len item) val)) s))"
    unfolding add_headers.simps Some option.case Let_def val_def [symmetric] by simp
  with Some show ?thesis by (cases "val = [] \<or> \<not> same \<and> is_credential item (key_len + 1)"; cases "key_len \<ge> 128") auto
qed simp

lemma add_headers_quiet: "add_headers net h same items calls s = (e, calls', s') \<Longrightarrow> quiet net s s'"
proof (induction items arbitrary: calls s)
  case (Cons item items)
  from add_headers_step [of net h same item items calls s] Cons show ?case
    by (metis debug_quiet quiet_refl quiet_trans snd_conv)
qed simp

lemma basic_auth_world: "curl_basic_auth h s = (r, s') \<Longrightarrow> world s' = world s"
  unfolding curl_basic_auth_def Let_def
  by (auto simp: malloc_def dest: strdup_world split: option.splits prod.splits if_splits)

lemma request_headers_quiet:
  assumes "curl_add_request_headers net h url original calls s = (e, calls', s')"
  shows "quiet net s s'"
proof -
  obtain e1 c1 s1 where a: "add_headers net h (curl_same_origin url original) (h_headers h) calls s = (e1, c1, s1)"
    by (cases "add_headers net h (curl_same_origin url original) (h_headers h) calls s") auto
  have "world s' = world s1"
    using assms unfolding curl_add_request_headers_def Let_def a
    by (auto dest: basic_auth_world split: prod.splits option.splits if_splits)
  with add_headers_quiet [OF a] show ?thesis by simp
qed

lemma deliver_header_quiet:
  assumes "curl_deliver_header net h data s = (e, s')"
  shows "quiet net s s'"
  using assms debug_quiet [of net s h CURLINFO_HEADER_IN data]
  by (auto simp: curl_deliver_header_def Let_def split: if_splits prod.splits intro: evolves_write)

lemma process_headers_calm:
  "process_headers net hs h s = (e, h', s') \<Longrightarrow> calm net h s h' s'"
proof (induction net hs h s rule: process_headers.induct)
  case (1 net key val hs h s)
  obtain ok s1 where m: "malloc s = (ok, s1)" by fastforce
  obtain f s2 where d: "curl_deliver_header net h (header_line key val) s1 = (f, s2)" by fastforce
  obtain r new s3 where rs: "curl_replace_string (h_content_type h) (Some val) s2 = (r, new, s3)"
    by (cases "curl_replace_string (h_content_type h) (Some val) s2") auto
  have w1: "world s1 = world s" using malloc_world [of s] m by simp
  have q: "calm net h s h' s2" if "settings h' = settings h" for h'
    using deliver_header_quiet [OF d] that w1 by (simp add: calm_def)
  have q3: "calm net h s h' s3" if "settings h' = settings h" for h'
    using q [OF that] replace_string_world [OF rs] by (simp add: calm_def)
  show ?case
    using 1(1) [OF m [symmetric] _ d [symmetric] _ _ rs [symmetric]] 1(2,3) [OF m [symmetric] _ d [symmetric]] 1(4)
      q [of h] q [of "h\<lparr>h_auth_avail := h_auth_avail h OR offered_auth val\<rparr>"]
      q3 [of h] q3 [of "h\<lparr>h_content_type := new\<rparr>"] calm_same_world [of h h s1 s net] w1
    by (auto simp: m d rs split: if_splits intro: calm_trans)
next
  case (4 net h s)
  then show ?case by (auto simp: calm_def dest: deliver_header_quiet split: prod.splits)
qed simp_all

lemma response_headers_calm:
  "curl_process_response_headers net h r s = (e, h', s') \<Longrightarrow> calm net h s h' s'"
  unfolding curl_process_response_headers_def
  by (auto split: prod.splits if_splits dest!: deliver_header_quiet process_headers_calm
      simp: calm_def intro: quiet_trans)

lemma collect_loop_calm':
  "collect_loop net h body s = Some p \<Longrightarrow> (case p of (b, c, h', s') \<Rightarrow> calm net h s h' s')"
proof (induction net h body s p rule: collect_loop.raw_induct [rotated, consumes 1, case_names step])
  case (step rec net h body s p)
  obtain b c h' s' where p: "p = (b, c, h', s')" by (cases p) auto
  obtain got wr w where r: "read_fn net (h_read_callback h) (wanted h body) (h_read_data h) (world s) = (got, wr, w)"
    by (cases "read_fn net (h_read_callback h) (wanted h body) (h_read_data h) (world s)") auto
  define data where "data = received got wr"
  obtain e b1 s1 where a: "curl_buffer_append body data (s\<lparr>world := w\<rparr>) = (e, b1, s1)"
    by (cases "curl_buffer_append body data (s\<lparr>world := w\<rparr>)") auto
  have q: "calm net h s h (s\<lparr>world := w\<rparr>)" using r by (auto simp: calm_def intro: evolves_read evolves_refl)
  have q1: "calm net h s h s1" using q buffer_append_world [OF a] by (simp add: calm_def)
  then have q2: "calm net h s h (curl_debug net h CURLINFO_DATA_OUT data s1)"
    by (auto simp: calm_def intro: quiet_trans [OF _ debug_quiet])
  have e: "calm net h s h2 s2" if "read_failed h s3 = (c2, h2, s2)" "calm net h s h s3" for c2 h2 s2 s3
    using calm_trans [OF that(2) set_error_calm] that(1) by (auto simp: read_failed_def)
  from step(2) show ?case
    using step(1) [of net h b1 "curl_debug net h CURLINFO_DATA_OUT data s1" p] q q1 q2 e [of _ c h' s'] calm_trans [OF q2]
    by (auto simp: r Let_def data_def [symmetric] a p split: if_splits)
qed

lemma collect_loop_calm: "collect_loop net h body s = Some (b, c, h', s') \<Longrightarrow> calm net h s h' s'"
  using collect_loop_calm' [of net h body s "(b, c, h', s')"] by simp

lemma collect_body_calm:
  assumes "curl_collect_request_body net h body s = Some (b, c, h', s')"
  shows "calm net h s h' s'"
proof (cases "h_post_fields h")
  case None
  then show ?thesis
    using assms by (auto simp: curl_collect_request_body_def split: if_splits dest: collect_loop_calm)
next
  case (Some w)
  obtain e b1 s1 where a: "curl_buffer_append body (post_data h w) s = (e, b1, s1)"
    by (cases "curl_buffer_append body (post_data h w) s") auto
  have "calm net h s h s1" using buffer_append_world [OF a] by (simp add: calm_same_world)
  then show ?thesis
    using assms memory_error_calm [of h s1 c h' s' net]
    by (auto simp: curl_collect_request_body_def Some a split: if_splits intro: calm_trans)
qed

lemma read_body_calm':
  "read_body net h r body s = Some p \<Longrightarrow> (case p of (b, c, h', s') \<Rightarrow> calm net h s h' s')"
proof (induction net h r body s p rule: read_body.raw_induct [rotated, consumes 1, case_names step])
  case (step rec net h r body s p)
  obtain b c h' s' where p: "p = (b, c, h', s')" by (cases p) auto
  obtain got data r1 where rd: "read_chunk net r 16384 = (got, data, r1)" by (cases "read_chunk net r 16384") auto
  define chunk where "chunk = received (nat got) data"
  define s1 where "s1 = curl_debug net h CURLINFO_DATA_IN chunk s"
  obtain e b1 s2 where a: "curl_buffer_append body chunk s1 = (e, b1, s2)"
    by (cases "curl_buffer_append body chunk s1") auto
  have q: "calm net h s h s2" using debug_quiet [of net s h CURLINFO_DATA_IN chunk] buffer_append_world [OF a]
    by (simp add: calm_def s1_def)
  from step(2) show ?case
    using step(1) [of net h r1 b1 s2 p] calm_trans [OF q] memory_error_calm [of h s2 c h' s' net]
      set_error_calm [of _ _ h s h' s' net]
    by (auto simp: rd Let_def chunk_def [symmetric] s1_def [symmetric] a p split: if_splits)
qed

lemma read_body_calm: "read_body net h r body s = Some (b, c, h', s') \<Longrightarrow> calm net h s h' s'"
  using read_body_calm' [of net h r body s "(b, c, h', s')"] by simp

lemma write_body_calm:
  assumes "write_body net h body s = (c, h', s')"
  shows "calm net h s h' s'"
proof -
  obtain n w where w: "(if h_write_callback h \<noteq> 0
            then write_fn net (h_write_callback h) (bytes body) (h_write_data h) (world s)
            else fwrite_stdout net (bytes body) (world s)) = (n, w)" by fastforce
  have "calm net h s h (s\<lparr>world := w\<rparr>)"
    using w by (auto simp: calm_def split: if_splits intro: evolves_write evolves_stdout evolves_refl)
  then show ?thesis
    using assms set_error_calm [of _ _ h "s\<lparr>world := w\<rparr>" h' s' net]
    unfolding write_body_def w by (auto split: if_splits intro: calm_trans)
qed

lemma deliver_body_calm:
  "curl_deliver_body net h r body s = Some (b, c, h', s') \<Longrightarrow> calm net h s h' s'"
  unfolding curl_deliver_body_def
  by (auto split: if_splits bind_splits dest!: read_body_calm dest: calm_trans [OF _ write_body_calm])

lemma map_error_calm: "curl_map_response_error net h r s = (c, h', s') \<Longrightarrow> calm net h s h' s'"
  unfolding curl_map_response_error_def Let_def by (auto intro: set_error_calm)

lemma take_response_calm:
  assumes "take_response net h url r s = (c, h', s')"
  shows "calm net h s h' s'"
proof -
  let ?h1 = "h\<lparr>h_response_code := rsp_status net r\<rparr>"
  obtain e new s1 where rs: "curl_replace_string (h_effective_url ?h1) (Some url) s = (e, new, s1)"
    by (cases "curl_replace_string (h_effective_url ?h1) (Some url) s") auto
  obtain e2 h2 s2 where p: "curl_process_response_headers net (?h1\<lparr>h_effective_url := new\<rparr>) r s1 = (e2, h2, s2)"
    by (cases "curl_process_response_headers net (?h1\<lparr>h_effective_url := new\<rparr>) r s1") auto
  have 1: "calm net h s ?h1 s1" using replace_string_world [OF rs] by (simp add: calm_same_world)
  have "calm net h s (?h1\<lparr>h_effective_url := new\<rparr>) s1" using replace_string_world [OF rs] by (simp add: calm_same_world)
  from calm_trans [OF this response_headers_calm [OF p]] have 2: "calm net h s h2 s2" .
  show ?thesis
    using assms calm_trans [OF 1 memory_error_calm] calm_trans [OF 2 memory_error_calm] 2
    unfolding take_response_def Let_def rs prod.case p by (auto split: if_splits prod.splits)
qed

lemma follow_redirect_calm:
  assumes "follow_redirect h url location redirects s = (x, h', s')"
  shows "calm net h s h' s'"
proof -
  obtain u s1 where r: "curl_redirect_url url location s = (u, s1)" by fastforce
  have w: "calm net h s h s1" using strdup_world [OF r [unfolded curl_redirect_url_def]] by (simp add: calm_same_world)
  show ?thesis
    using assms w calm_trans [OF w memory_error_calm] calm_trans [OF w set_error_calm] set_error_calm [of _ _ h s h' s' net]
    unfolding follow_redirect_def r by (auto split: if_splits prod.splits option.splits)
qed

lemma finish_response_calm:
  "finish_response net h r rbody s = Some (b, c, h', s') \<Longrightarrow> calm net h s h' s'"
  unfolding finish_response_def
  by (auto split: if_splits dest: set_error_calm deliver_body_calm)

subsection \<open>What a request may carry\<close>

definition carries :: "request_call list \<Rightarrow> string \<Rightarrow> bool" where
  "carries calls name \<longleftrightarrow> (\<exists>k v. AddHeader k v \<in> set calls \<and> strcase_eq k name)"

definition safe_request :: "CURL \<Rightarrow> string \<Rightarrow> string \<times> request_call list \<Rightarrow> bool" where
  "safe_request h original = (\<lambda>(url, calls).
     (curl_scheme_allowed url (h_protocols h) \<or> curl_scheme_allowed url (h_redir_protocols h)) \<and>
     (carries calls ''Authorization'' \<or> carries calls ''Cookie'' \<longrightarrow> curl_same_origin url original))"

lemma carries_simps [simp]:
  "\<not> carries [] n" "carries (xs @ ys) n \<longleftrightarrow> carries xs n \<or> carries ys n"
  "carries (AddHeader k v # xs) n \<longleftrightarrow> strcase_eq k n \<or> carries xs n"
  "carries (SetMaxRedirections i # xs) n \<longleftrightarrow> carries xs n" "carries (SetTimeout i # xs) n \<longleftrightarrow> carries xs n"
  "carries (SetMethod m # xs) n \<longleftrightarrow> carries xs n" "carries (SendAny m # xs) n \<longleftrightarrow> carries xs n"
  by (auto simp: carries_def)

lemma key_is_name:
  assumes "strchr item (CHR '':'') = Some k" and "strcase_eq (take k item) name"
  shows "curl_header_name_is item (k + 1) name"
proof -
  note i = strchr_index [OF assms(1)]
  have l: "length name = k" using assms(2) i by (auto simp: strcase_eq_def dest: arg_cong [of _ _ length])
  then show ?thesis
    using assms(2) i by (simp add: curl_header_name_is_def char_at_def strcase_eq_def strncase_eq_def)
qed

lemma add_headers_no_credentials:
  assumes "add_headers net h False items calls s = (e, calls', s')" and "n = ''Authorization'' \<or> n = ''Cookie''"
    and "\<not> carries calls n"
  shows "\<not> carries calls' n"
  using assms(1,3)
proof (induction items arbitrary: calls s)
  case (Cons item items)
  have "\<not> strcase_eq (take k item) n" if "strchr item (CHR '':'') = Some k" "\<not> is_credential item (k + 1)" for k
    using key_is_name [OF that(1)] that(2) assms(2) by (auto simp: is_credential_def)
  then have no_cred: "\<not> carries (calls @ [AddHeader (take k item) v]) n"
    if "strchr item (CHR '':'') = Some k" "\<not> is_credential item (k + 1)" for k v
    using that Cons.prems(2) by simp
  from add_headers_step [of net h False item items calls s] show ?case
  proof (elim disjE exE conjE)
    fix k v
    assume k: "strchr item (CHR '':'') = Some k" and c: "\<not> False \<longrightarrow> \<not> is_credential item (k + 1)"
      and e: "add_headers net h False (item # items) calls s =
        add_headers net h False items (calls @ [AddHeader (take k item) v])
          (curl_debug net h CURLINFO_HEADER_OUT (snprintf 512 (header_line (take k item) v)) s)"
    have "\<not> carries (calls @ [AddHeader (take k item) v]) n" using no_cred [OF k] c by blast
    with Cons.prems(1) show ?thesis unfolding e by (rule Cons.IH)
  next
    assume e: "add_headers net h False (item # items) calls s = add_headers net h False items calls s"
    show ?thesis using Cons.prems unfolding e by (rule Cons.IH)
  next
    assume e: "add_headers net h False (item # items) calls s = (- 1, calls, s)"
    show ?thesis using Cons.prems unfolding e by simp
  qed
qed simp

lemma request_headers_safe:
  assumes "curl_add_request_headers net h url original calls s = (e, calls', s')"
    and "\<not> curl_same_origin url original" and "n = ''Authorization'' \<or> n = ''Cookie''" and "\<not> carries calls n"
  shows "\<not> carries calls' n"
proof -
  obtain e1 c1 s1 where a: "add_headers net h False (h_headers h) calls s = (e1, c1, s1)"
    by (cases "add_headers net h False (h_headers h) calls s") auto
  have 1: "\<not> carries c1 n" by (rule add_headers_no_credentials [OF a assms(3,4)])
  have 2: "\<not> strcase_eq ''User-Agent'' n" "\<not> strcase_eq ''Range'' n"
    using assms(3) by (auto simp: strcase_eq_def)
  show ?thesis
    using assms(1,2) 1 2 unfolding curl_add_request_headers_def Let_def
    by (auto simp: a split: if_splits option.splits)
qed

text \<open>Sending makes at most one request, and a safe one.\<close>

lemma send_request_trace:
  assumes "send_request net h original url meth hb body s = (x, h', s')"
  shows "settings h' = settings h \<and> (\<exists>rs. evolves net (world s) rs (world s') \<and> length rs \<le> 1 \<and>
    (curl_scheme_allowed url (h_protocols h) \<or> curl_scheme_allowed url (h_redir_protocols h) \<longrightarrow>
     (\<forall>q \<in> set rs. safe_request h original q)))"
proof -
  obtain ok s1 where m: "malloc s = (ok, s1)" by fastforce
  have w1: "world s1 = world s" using malloc_world [of s] m by simp
  let ?calls = "[SetMaxRedirections 0, SetTimeout 4000, SetMethod meth]"
  obtain e calls s2 where r: "curl_add_request_headers net h url original ?calls s1 = (e, calls, s2)"
    by (cases "curl_add_request_headers net h url original ?calls s1") auto
  let ?all = "calls @ (if hb then [SendAny (bytes body)] else [])"
  obtain rsp w where f: "fetch net url ?all (world s2) = (rsp, w)" by fastforce
  have q: "calm net h s h s1" "calm net h s h s2"
    using request_headers_quiet [OF r] w1 by (simp_all add: calm_def)
  have quiet_case: ?thesis if "calm net h s h' s'"
    using that by (auto simp: calm_def intro!: exI [of _ "[]"])
  show ?thesis
  proof (cases "\<not> ok \<or> e \<noteq> 0")
    case True
    then show ?thesis
      using assms(1) calm_trans [OF q(1) memory_error_calm] calm_trans [OF q(2) memory_error_calm]
      by (intro quiet_case) (auto simp: send_request_def m r split: prod.splits if_splits)
  next
    case False
    have "evolves net (world s) ([] @ [(url, ?all)]) w"
      using q(2) f by (intro evolves_fetch) (auto simp: calm_def)
    moreover have "safe_request h original (url, ?all)"
      if "curl_scheme_allowed url (h_protocols h) \<or> curl_scheme_allowed url (h_redir_protocols h)"
      using that request_headers_safe [OF r] by (auto simp: safe_request_def)
    moreover have "settings h' = settings h \<and> world s' = w"
      using assms(1) False set_error_calm
      by (auto simp: send_request_def m r f curl_set_error_def split: option.splits)
    ultimately show ?thesis by (intro conjI exI [of _ "[(url, ?all)]"]) auto
  qed
qed

subsection \<open>The trace of a transfer\<close>

text \<open>
  A trace of at most \<open>n\<close> requests, all safe. The relation composes, with the sum of the bounds.
\<close>

definition sends ::
    "('r, 'w) net \<Rightarrow> string \<Rightarrow> nat \<Rightarrow> CURL \<Rightarrow> 'w cstate \<Rightarrow> CURL \<Rightarrow> 'w cstate \<Rightarrow> bool" where
  "sends net original n h s h' s' \<longleftrightarrow> settings h' = settings h \<and>
     (\<exists>rs. evolves net (world s) rs (world s') \<and> length rs \<le> n \<and> (\<forall>q \<in> set rs. safe_request h original q))"

lemma safe_request_settings: "settings h = settings h' \<Longrightarrow> safe_request h org q \<longleftrightarrow> safe_request h' org q"
  using settings_fields(2,3) [of h h'] by (simp add: safe_request_def)

lemma transfer_trans:
  assumes "sends net org m h s h1 s1" and "sends net org n h1 s1 h2 s2" and "m + n \<le> k"
  shows "sends net org k h s h2 s2"
proof -
  obtain rs where 1: "settings h1 = settings h" "evolves net (world s) rs (world s1)" "length rs \<le> m"
      "\<forall>q \<in> set rs. safe_request h org q"
    using assms(1) by (auto simp: sends_def)
  obtain rs' where 2: "settings h2 = settings h1" "evolves net (world s1) rs' (world s2)" "length rs' \<le> n"
      "\<forall>q \<in> set rs'. safe_request h1 org q"
    using assms(2) by (auto simp: sends_def)
  have "\<forall>q \<in> set (rs @ rs'). safe_request h org q"
    using 1(4) 2(4) safe_request_settings [OF 1(1)] by auto
  then show ?thesis
    unfolding sends_def using evolves_trans [OF 2(2) 1(2)] 1 2 assms(3)
    by (intro conjI exI [of _ "rs @ rs'"]) simp_all
qed

lemma calm_sends: "calm net h s h' s' \<Longrightarrow> sends net org n h s h' s'"
  by (auto simp: calm_def sends_def intro!: exI [of _ "[]"])

lemma send_request_sends:
  assumes "send_request net h original url meth hb body s = (x, h', s')"
    and "curl_scheme_allowed url (h_protocols h) \<or> curl_scheme_allowed url (h_redir_protocols h)"
  shows "sends net original 1 h s h' s'"
  using send_request_trace [OF assms(1)] assms(2) unfolding sends_def by blast

lemma follow_redirect_ok:
  assumes "follow_redirect h url location redirects s = (Inr u, h', s')"
  shows "redirects < h_maxredirs h \<and> curl_scheme_allowed u (h_redir_protocols h)"
  using assms unfolding follow_redirect_def
  by (auto split: if_splits option.splits prod.splits)

definition budget :: "CURL \<Rightarrow> int \<Rightarrow> int \<Rightarrow> nat" where
  "budget h redirects retries = nat (h_maxredirs h - redirects) + nat (1 - retries) + 1"

lemma budget_retry: "may_retry m retries c \<Longrightarrow> 1 + budget h redirects (retries + 1) = budget h redirects retries"
  by (auto simp: may_retry_def budget_def nat_add_distrib [symmetric] simp flip: nat_1 intro!: arg_cong [of _ _ nat])

lemma budget_redirect: "redirects < h_maxredirs h \<Longrightarrow> 1 + budget h (redirects + 1) retries = budget h redirects retries"
  by (auto simp: budget_def)

lemma budget_settings: "settings h = settings h' \<Longrightarrow> budget h = budget h'"
  using settings_fields(1) [of h h'] by (simp add: budget_def fun_eq_iff)

definition url_allowed :: "CURL \<Rightarrow> string \<Rightarrow> bool" where
  "url_allowed h url \<longleftrightarrow> curl_scheme_allowed url (h_protocols h) \<or> curl_scheme_allowed url (h_redir_protocols h)"

lemma url_allowed_settings: "settings h = settings h' \<Longrightarrow> url_allowed h url \<longleftrightarrow> url_allowed h' url"
  using settings_fields(2,3) [of h h'] by (simp add: url_allowed_def)

lemma perform_loop_sends':
  assumes "perform_loop net original h url redirects retries meth hb body rbody s = Some p" and "url_allowed h url"
  shows "case p of (c, h', s') \<Rightarrow> sends net original (budget h redirects retries) h s h' s'"
  using assms
proof (induction net original h url redirects retries meth hb body rbody s p
    rule: perform_loop.raw_induct [rotated, consumes 1, case_names step])
  case (step rec net original h url redirects retries meth hb body rbody s p)
  obtain c h' s' where p: "p = (c, h', s')" by (cases p) auto
  let ?n = "budget h redirects retries"
  obtain x h1 s1 where sr: "send_request net h original url meth hb body s = (x, h1, s1)"
    by (cases "send_request net h original url meth hb body s") auto
  have one: "sends net original 1 h s h1 s1"
    by (rule send_request_sends [OF sr]) (use step(3) in \<open>simp add: url_allowed_def\<close>)
  then have set1: "settings h1 = settings h" by (simp add: sends_def)
  have n1: "1 \<le> ?n" by (simp add: budget_def)
  have stop: ?case if "calm net h1 s1 h' s'"
    using transfer_trans [OF one calm_sends [OF that], of 0 ?n] n1 by (simp add: p)
  have again: ?case
    if "calm net h1 s1 h2 s2" "rec net original h2 u i j m b bd rb s2 = Some (c, h', s')" "url_allowed h u"
      "1 + budget h i j \<le> ?n" for h2 s2 u i j m b bd rb
  proof -
    have set2: "settings h2 = settings h" using that(1) set1 by (simp add: calm_def)
    have "case (c, h', s') of (c, h', s') \<Rightarrow> sends net original (budget h2 i j) h2 s2 h' s'"
      by (rule step(1) [OF that(2)]) (use that(3) url_allowed_settings [OF set2] in simp)
    then have "sends net original (budget h i j) h2 s2 h' s'"
      using budget_settings [OF set2] by simp
    from transfer_trans [OF transfer_trans [OF one calm_sends [OF that(1), of _ 0]] this, of 1 ?n]
    show ?thesis using that(4) by (simp add: p)
  qed
  show ?case
  proof (cases x)
    case (Inl c1)
    then show ?thesis using step(2) by (intro stop) (simp add: sr p)
  next
    case (Inr r)
    show ?thesis
    proof (cases "rsp_error net r")
      case True
      obtain c1 h2 s2 where m: "curl_map_response_error net h1 r s1 = (c1, h2, s2)"
        by (cases "curl_map_response_error net h1 r s1") auto
      show ?thesis
        using step(2,3) map_error_calm [OF m] stop again [OF map_error_calm [OF m]] budget_retry
        by (auto simp: sr Inr True m p split: if_splits)
    next
      case False
      obtain c1 h2 s2 where t: "take_response net h1 url r s1 = (c1, h2, s2)"
        by (cases "take_response net h1 url r s1") auto
      note calm2 = take_response_calm [OF t]
      define loc where "loc = (if h_followlocation h2 \<and> is_redirect (h_response_code h2)
          then rsp_header_by_key net r ''Location'' else None)"
      show ?thesis
      proof (cases c1)
        case (Some c2)
        then show ?thesis using step(2) calm2 by (intro stop) (simp add: sr Inr False t p)
      next
        case None
        show ?thesis
        proof (cases loc)
          case (Some location)
          obtain y h3 s3 where fr: "follow_redirect h2 url location redirects s2 = (y, h3, s3)"
            by (cases "follow_redirect h2 url location redirects s2") auto
          note calm3 = calm_trans [OF calm2 follow_redirect_calm [OF fr]]
          have set3: "settings h2 = settings h" using calm2 set1 by (simp add: calm_def)
          show ?thesis
          proof (cases y)
            case (Inl c3)
            then show ?thesis
              using step(2) calm3 by (intro stop) (simp add: sr Inr False t None p loc_def [symmetric] Some fr)
          next
            case (Inr u)
            note ok = follow_redirect_ok [OF fr [unfolded Inr]]
            have "url_allowed h u" "1 + budget h (redirects + 1) retries \<le> ?n"
              using ok settings_fields(1,2) [OF set3] budget_redirect [of redirects h retries]
              by (simp_all add: url_allowed_def)
            with again [OF calm3] show ?thesis
              using step(2) \<open>x = Inr r\<close>
              by (auto simp: sr False t None p loc_def [symmetric] Some fr Inr split: if_splits)
          qed
        next
          case None2: None
          obtain q where f: "finish_response net h2 r rbody s2 = Some q"
            using step(2) by (auto simp: sr Inr False t None loc_def [symmetric] None2 split: bind_splits)
          obtain rb c3 h3 s3 where q: "q = (rb, c3, h3, s3)" by (cases q) auto
          note calm3 = calm_trans [OF calm2 finish_response_calm [OF f [unfolded q]]]
          show ?thesis
            using step(2,3) calm3 stop again [OF calm3] budget_retry
            by (auto simp: sr Inr False t None loc_def [symmetric] None2 f q p split: if_splits)
        qed
      qed
    qed
  qed
qed

lemma clear_results_calm: "curl_clear_transfer_results h s = (h', s') \<Longrightarrow> calm net h s h' s'"
  by (rule calm_same_world) (auto simp: curl_clear_transfer_results_def settings_def)

lemma objection_none:
  assumes "objection h = None"
  shows "\<exists>url. h_url h = Some url \<and> url_allowed h url \<and> h_unsupported_option h = 0"
  using assms by (auto simp: objection_def url_allowed_def split: option.splits if_splits)

lemma perform_sends:
  assumes "curl_perform net h s = Some (c, h', s')"
  shows "sends net (the (h_url h)) (nat (h_maxredirs h) + 2) h s h' s'"
proof (cases "objection h")
  case (Some o1)
  then obtain c1 m where "objection h = Some (c1, m)" by (cases o1) auto
  then have "calm net h s h' s'"
    using assms set_error_calm [of c1 m h s h' s' net] by (cases m) (auto simp: curl_perform_def)
  then show ?thesis by (rule calm_sends)
next
  case None
  then obtain url where u: "h_url h = Some url" "url_allowed h url" using objection_none by blast
  obtain q where b: "curl_collect_request_body net h empty_buffer s = Some q"
    using assms by (auto simp: curl_perform_def None split: bind_splits)
  obtain body c1 h1 s1 where q: "q = (body, c1, h1, s1)" by (cases q) auto
  note calm1 = collect_body_calm [OF b [unfolded q]]
  then have set1: "settings h1 = settings h" by (simp add: calm_def)
  note u1 = settings_fields(5) [OF set1]
  obtain u2 s2 where d: "curl_strdup (h_url h1) s1 = (u2, s2)" by fastforce
  have calm2: "calm net h s h1 s2" using calm_trans [OF calm1 calm_same_world [of h1 h1 s2 s1]] strdup_world [OF d] by simp
  show ?thesis
  proof (cases "c1 \<noteq> CURLE_OK \<or> u2 = None")
    case True
    then have "calm net h s h' s'"
      using assms calm1 calm_trans [OF calm2 memory_error_calm]
      by (auto simp: curl_perform_def None b q d split: if_splits prod.splits)
    then show ?thesis by (rule calm_sends)
  next
    case False
    then have "u2 = Some url" using d u1 u(1) by (auto simp: curl_strdup_def malloc_def split: if_splits)
    then have l: "perform_loop net url h1 url 0 0 (request_method h1)
        (h_post_fields h1 \<noteq> None \<or> h_read_callback h1 \<noteq> 0) body empty_buffer s2 = Some (c, h', s')"
      using assms False by (simp add: curl_perform_def None b q d)
    have "sends net url (budget h1 0 0) h1 s2 h' s'"
      using perform_loop_sends' [OF l] u(2) url_allowed_settings [OF set1] by simp
    then have "sends net url (nat (h_maxredirs h) + 2) h1 s2 h' s'"
      using settings_fields(1) [OF set1] by (simp add: budget_def numeral_2_eq_2)
    from transfer_trans [OF calm_sends [OF calm2, of _ 0] this, of "nat (h_maxredirs h) + 2"]
    show ?thesis by (simp add: u(1))
  qed
qed

lemma easy_perform_sends:
  assumes "curl_easy_perform net (Some h) s = Some (c, r, s')"
  shows "\<exists>h'. r = Some h' \<and> sends net (the (h_url h)) (nat (h_maxredirs h) + 2) h s h' s'"
proof -
  obtain h1 s1 where cl: "curl_clear_transfer_results h s = (h1, s1)" by fastforce
  note calm1 = clear_results_calm [OF cl]
  have set1: "settings h1 = settings h" using calm1 [of undefined] unfolding calm_def by (rule conjunct1)
  obtain h2 where p: "curl_perform net h1 s1 = Some (c, h2, s')" and r: "r = Some (h2\<lparr>h_result := c, h_completed := True\<rparr>)"
    using assms by (auto simp: curl_easy_perform_def cl split: bind_splits)
  from transfer_trans [OF calm_sends [OF calm1, where n = 0] perform_sends [OF p], of "nat (h_maxredirs h) + 2"]
  have "sends net (the (h_url h)) (nat (h_maxredirs h) + 2) h s h2 s'"
    using settings_fields(1,5) [OF set1] by simp
  then have "sends net (the (h_url h)) (nat (h_maxredirs h) + 2) h s (h2\<lparr>h_result := c, h_completed := True\<rparr>) s'"
    by (simp add: sends_def)
  with r show ?thesis by blast
qed

text \<open>
  A library for the witnesses: any URL at host a redirects to host b, which answers with a body in
  one chunk; the world is the list of the requests made.
\<close>

definition demo_net :: "(string \<times> bool, (string \<times> request_call list) list) net" where
  "demo_net =
     \<lparr>fetch = (\<lambda>url calls w. (Some (url, False), w @ [(url, calls)])),
      rsp_error = (\<lambda>_. False), rsp_error_code = (\<lambda>_. 0), rsp_error_msg = (\<lambda>_. None),
      rsp_status = (\<lambda>r. if fst r = ''http://a/'' then 302 else 200),
      rsp_headers = (\<lambda>_. [(Some ''Content-Type'', Some ''text'')]),
      rsp_header_by_key = (\<lambda>r _. if fst r = ''http://a/'' then Some ''http://b/'' else None),
      read_chunk = (\<lambda>r n. if snd r then (0, [], r) else (2, ''ok'', (fst r, True))),
      write_fn = (\<lambda>_ data _ w. (length data, w)), read_fn = (\<lambda>_ _ _ w. (0, [], w)),
      debug_fn = (\<lambda>_ _ _ _ w. w), fwrite_stdout = (\<lambda>data w. (length data, w))\<rparr>"

definition demo_handle :: CURL where
  "demo_handle = calloc_handle\<lparr>h_url := Some ''http://a/'', h_followlocation := True,
     h_headers := [''Cookie: k'', ''Accept: x''], h_httpauth := 1, h_username := Some ''u''\<rparr>"

definition demo_state :: "(string \<times> request_call list) list cstate" where
  "demo_state = \<lparr>alloc_ok = (\<lambda>_. True), allocs = 0, errbuf = (\<lambda>_. []), world = []\<rparr>"


subsection \<open>Transfers return\<close>

text \<open>
  A measure of what the library still has to read from a response, which every chunk lowers; and an
  upload whose size is known, if there is one.
\<close>

lemma ex_triple [simp]: "\<exists>a b c. x = (a, b, c)"
  by (cases x) simp

lemma read_body_returns:
  assumes "\<And>r got data r'. read_chunk net r 16384 = (got, data, r') \<Longrightarrow> 0 < got \<Longrightarrow> left r' < (left r :: nat)"
  shows "\<exists>p. read_body net h r body s = Some p"
proof (induction "left r" arbitrary: r body s rule: less_induct)
  case less
  obtain got data r1 where rd: "read_chunk net r 16384 = (got, data, r1)" by (cases "read_chunk net r 16384") auto
  define s1 where "s1 = curl_debug net h CURLINFO_DATA_IN (received (nat got) data) s"
  obtain e b1 s2 where a: "curl_buffer_append body (received (nat got) data) s1 = (e, b1, s2)"
    by (cases "curl_buffer_append body (received (nat got) data) s1") auto
  show ?case
    using less [of r1 b1 s2] assms [OF rd]
    by (subst read_body.simps) (auto simp: rd Let_def s1_def [symmetric] a)
qed

lemma length_received [simp]: "length (received n w) = n"
  by (simp add: received_def)

lemma collect_loop_returns:
  assumes "0 \<le> h_infile_size h"
  shows "\<exists>p. collect_loop net h body s = Some p"
proof (induction "nat (h_infile_size h - int (length (bytes body)))" arbitrary: body s rule: less_induct)
  case less
  obtain got wr w where r: "read_fn net (h_read_callback h) (wanted h body) (h_read_data h) (world s) = (got, wr, w)"
    by (cases "read_fn net (h_read_callback h) (wanted h body) (h_read_data h) (world s)") auto
  obtain e b1 s1 where a: "curl_buffer_append body (received got wr) (s\<lparr>world := w\<rparr>) = (e, b1, s1)"
    by (cases "curl_buffer_append body (received got wr) (s\<lparr>world := w\<rparr>)") auto
  have "e = 0 \<Longrightarrow> length (bytes b1) = length (bytes body) + got"
    using a by (auto simp: curl_buffer_append_def Let_def malloc_def split: if_splits dest: arg_cong [of _ _ length])
  then show ?case
    using less [of b1 "curl_debug net h CURLINFO_DATA_OUT (received got wr) s1"] assms
    by (subst collect_loop.simps) (auto simp: r Let_def a)
qed

lemma finish_response_returns:
  assumes "\<And>r got data r'. read_chunk net r 16384 = (got, data, r') \<Longrightarrow> 0 < got \<Longrightarrow> left r' < (left r :: nat)"
  shows "\<exists>p. finish_response net h r body s = Some p"
proof -
  obtain b c h1 s1 where "read_body net h r (body\<lparr>bytes := []\<rparr>) s = Some (b, c, h1, s1)"
    using read_body_returns [of net left h r "body\<lparr>bytes := []\<rparr>" s] assms by (metis prod_cases4)
  then show ?thesis by (simp add: finish_response_def curl_deliver_body_def)
qed

lemma perform_loop_returns:
  assumes "\<And>r got data r'. read_chunk net r 16384 = (got, data, r') \<Longrightarrow> 0 < got \<Longrightarrow> left r' < (left r :: nat)"
  shows "\<exists>p. perform_loop net original h url redirects retries meth hb body rbody s = Some p"
proof (induction "budget h redirects retries" arbitrary: h url redirects retries meth hb body rbody s rule: less_induct)
  case less
  obtain x h1 s1 where sr: "send_request net h original url meth hb body s = (x, h1, s1)"
    by (cases "send_request net h original url meth hb body s") auto
  have set1: "settings h1 = settings h" using send_request_trace [OF sr] by simp
  have again: "\<exists>p. perform_loop net original h2 u i j m b bd rb s2 = Some p"
    if "calm net h1 s1 h2 s3" "1 + budget h i j = budget h redirects retries" for h2 u i j m b bd rb s2 s3
  proof -
    have "settings h2 = settings h" using that(1) set1 by (simp add: calm_def)
    then show ?thesis using less [of h2 i j] that(2) budget_settings [of h2 h] by simp
  qed
  show ?case
  proof (cases x)
    case (Inl c)
    then show ?thesis by (subst perform_loop.simps) (simp add: sr)
  next
    case (Inr r)
    show ?thesis
    proof (cases "rsp_error net r")
      case True
      obtain c1 h2 s2 where m: "curl_map_response_error net h1 r s1 = (c1, h2, s2)"
        by (cases "curl_map_response_error net h1 r s1") auto
      show ?thesis
        using again [OF map_error_calm [OF m]] budget_retry
        by (subst perform_loop.simps) (auto simp: sr Inr True m)
    next
      case False
      obtain c1 h2 s2 where t: "take_response net h1 url r s1 = (c1, h2, s2)"
        by (cases "take_response net h1 url r s1") auto
      note calm2 = take_response_calm [OF t]
      define loc where "loc = (if h_followlocation h2 \<and> is_redirect (h_response_code h2)
          then rsp_header_by_key net r ''Location'' else None)"
      consider (failed) c2 where "c1 = Some c2" | (redirect) location where "c1 = None" "loc = Some location"
        | (final) "c1 = None" "loc = None" by (cases c1; cases loc) auto
      then show ?thesis
      proof cases
        case failed
        then show ?thesis by (subst perform_loop.simps) (simp add: sr Inr False t)
      next
        case redirect
        obtain y h3 s3 where fr: "follow_redirect h2 url location redirects s2 = (y, h3, s3)"
          by (cases "follow_redirect h2 url location redirects s2") auto
        note calm3 = calm_trans [OF calm2 follow_redirect_calm [OF fr]]
        have set2: "settings h2 = settings h" using calm2 set1 by (simp add: calm_def)
        show ?thesis
        proof (cases y)
          case (Inl c3)
          then show ?thesis by (subst perform_loop.simps) (simp add: sr Inr False t redirect loc_def [symmetric] fr)
        next
          case (Inr u)
          have "1 + budget h (redirects + 1) retries = budget h redirects retries"
            using follow_redirect_ok [OF fr [unfolded Inr]] settings_fields(1) [OF set2] by (intro budget_redirect) simp
          with again [OF calm3] show ?thesis
            using \<open>x = Inr r\<close>
            by (subst perform_loop.simps) (auto simp: sr False t redirect loc_def [symmetric] fr Inr)
        qed
      next
        case final
        obtain rb c3 h3 s3 where f: "finish_response net h2 r rbody s2 = Some (rb, c3, h3, s3)"
          using finish_response_returns [of net left h2 r rbody s2] assms by (metis prod_cases4)
        note calm3 = calm_trans [OF calm2 finish_response_calm [OF f]]
        show ?thesis
          using again [OF calm3] budget_retry
          by (subst perform_loop.simps) (auto simp: sr Inr False t final loc_def [symmetric] f)
      qed
    qed
  qed
qed

lemma perform_returns_lemma:
  assumes "\<And>r got data r'. read_chunk net r 16384 = (got, data, r') \<Longrightarrow> 0 < got \<Longrightarrow> left r' < (left r :: nat)"
    and "h_post_fields h \<noteq> None \<or> h_read_callback h = 0 \<or> 0 \<le> h_infile_size h"
  shows "\<exists>p. curl_easy_perform net (Some h) s = Some p"
proof -
  obtain h1 s1 where cl: "curl_clear_transfer_results h s = (h1, s1)" by fastforce
  have set1: "settings h1 = settings h" using clear_results_calm [OF cl, of net] unfolding calm_def by (rule conjunct1)
  have "\<exists>q. curl_collect_request_body net h1 empty_buffer s1 = Some q"
    using assms(2) settings_fields(4,6,7) [OF set1] collect_loop_returns [of h1 net empty_buffer s1]
    by (auto simp: curl_collect_request_body_def split: option.splits prod.splits)
  then obtain body c h2 s2 where b: "curl_collect_request_body net h1 empty_buffer s1 = Some (body, c, h2, s2)"
    by (metis prod_cases4)
  have "\<exists>p. curl_perform net h1 s1 = Some p"
  proof (cases "objection h1")
    case (Some o1)
    then show ?thesis by (cases o1; cases "snd o1") (auto simp: curl_perform_def)
  next
    case None
    obtain u s3 where "curl_strdup (h_url h2) s2 = (u, s3)" by fastforce
    then show ?thesis
      using perform_loop_returns [of net left] assms(1)
      by (cases u) (auto simp: curl_perform_def None b)
  qed
  then show ?thesis by (auto simp: curl_easy_perform_def cl)
qed

text \<open>
  C19. A transfer returns, whatever the server sends, the redirects it answers with and the failures
  of allocation, provided that the library does not deliver a body without end and that a body to
  be read from the client has an announced size.
\<close>

theorem perform_returns:
  assumes "\<And>r got data r'. read_chunk net r 16384 = (got, data, r') \<Longrightarrow> 0 < got \<Longrightarrow> left r' < (left r :: nat)"
    and "h_post_fields h \<noteq> None \<or> h_read_callback h = 0 \<or> 0 \<le> h_infile_size h"
  shows "\<exists>p. curl_easy_perform net (Some h) s = Some p"
  by (rule perform_returns_lemma [OF assms])

lemma demo_chunks:
  "read_chunk demo_net r 16384 = (got, data, r') \<Longrightarrow> 0 < got \<Longrightarrow> (if snd r' then 0 else 1) < (if snd r then 0 else 1 :: nat)"
  by (auto simp: demo_net_def split: if_splits)

theorem perform_returns_witness: "\<exists>p. curl_easy_perform demo_net (Some demo_handle) demo_state = Some p"
  by (rule perform_returns [OF demo_chunks]) (simp_all add: demo_handle_def calloc_handle_def)

lemma demo_returns: "\<exists>c r s'. curl_easy_perform demo_net (Some demo_handle) demo_state = Some (c, r, s')"
proof -
  have "h_post_fields demo_handle \<noteq> None \<or> h_read_callback demo_handle = 0 \<or> 0 \<le> h_infile_size demo_handle"
    by (simp add: demo_handle_def calloc_handle_def)
  from perform_returns_lemma [OF demo_chunks this, where s = demo_state] show ?thesis by simp
qed

subsection \<open>What the requests may be\<close>

text \<open>
  C18. Credentials stay at their origin: in a transfer, over any library and with any callbacks, every
  request is for an allowed HTTP or HTTPS URL, and one that carries an Authorization or Cookie
  header goes to the origin of the URL the client set.
\<close>

theorem credentials_stay:
  assumes "curl_easy_perform net (Some h) s = Some (c, r, s')"
  shows "\<exists>rs. evolves net (world s) rs (world s') \<and>
    (\<forall>(url, calls) \<in> set rs.
       (curl_scheme_allowed url (h_protocols h) \<or> curl_scheme_allowed url (h_redir_protocols h)) \<and>
       (carries calls ''Authorization'' \<or> carries calls ''Cookie'' \<longrightarrow> curl_same_origin url (the (h_url h))))"
  using easy_perform_sends [OF assms] unfolding sends_def safe_request_def by blast

theorem credentials_stay_witness:
  "\<exists>c r s' rs. curl_easy_perform demo_net (Some demo_handle) demo_state = Some (c, r, s') \<and>
    evolves demo_net [] rs (world s') \<and>
    (\<forall>(url, calls) \<in> set rs. carries calls ''Cookie'' \<longrightarrow> curl_same_origin url ''http://a/'')"
proof -
  obtain c r s' where e: "curl_easy_perform demo_net (Some demo_handle) demo_state = Some (c, r, s')"
    using demo_returns by blast
  have "world demo_state = []" "h_url demo_handle = Some ''http://a/''"
    by (simp_all add: demo_state_def demo_handle_def)
  with credentials_stay [OF e] e show ?thesis by fastforce
qed

text \<open>
  C20. A transfer makes at most as many requests as the redirect limit and two: the first one, one for
  each redirect followed and one retry.
\<close>

theorem requests_bounded:
  assumes "curl_easy_perform net (Some h) s = Some (c, r, s')"
  shows "\<exists>rs. evolves net (world s) rs (world s') \<and> length rs \<le> nat (h_maxredirs h) + 2"
  using easy_perform_sends [OF assms] unfolding sends_def by blast

theorem requests_bounded_witness:
  "\<exists>c r s' rs. curl_easy_perform demo_net (Some demo_handle) demo_state = Some (c, r, s') \<and>
    evolves demo_net [] rs (world s') \<and> length rs \<le> 22"
proof -
  obtain c r s' where e: "curl_easy_perform demo_net (Some demo_handle) demo_state = Some (c, r, s')"
    using demo_returns by blast
  have "world demo_state = []" "h_maxredirs demo_handle = 20"
    by (simp_all add: demo_state_def demo_handle_def calloc_handle_def)
  with requests_bounded [OF e] e show ?thesis by fastforce
qed

text \<open>
  C25. An option the layer does not support is not ignored: once setting it was refused, a transfer
  fails before anything is sent.
\<close>

theorem refused_option_blocks:
  assumes "curl_easy_setopt (Some h) opt arg s = (CURLE_NOT_BUILT_IN, Some h', s')" and "opt \<noteq> 0"
  shows "\<exists>c h2 s3. curl_easy_perform net (Some h') s2 = Some (c, Some h2, s3) \<and>
    (c = CURLE_NOT_BUILT_IN \<or> h_url h = None \<and> c = CURLE_URL_MALFORMAT) \<and> world s3 = world s2"
proof -
  have h': "h' = h\<lparr>h_unsupported_option := opt\<rparr>"
    using setopt_outcome [of h opt s arg] unfolding assms(1) setopt_result_def by simp
  obtain h1 s1 where cl: "curl_clear_transfer_results h' s2 = (h1, s1)" by fastforce
  then have h1: "h_url h1 = h_url h" "h_unsupported_option h1 = opt" "world s1 = world s2"
    by (auto simp: curl_clear_transfer_results_def h')
  show ?thesis
    using assms(2) h1
    by (cases "h_url h") (auto simp: curl_easy_perform_def cl curl_perform_def objection_def curl_set_error_def)
qed

theorem refused_option_blocks_witness:
  "\<exists>h2 s3. curl_easy_perform demo_net (Some (demo_handle\<lparr>h_unsupported_option := CURLOPT_CAINFO\<rparr>)) demo_state =
     Some (CURLE_NOT_BUILT_IN, Some h2, s3) \<and> world s3 = []"
proof -
  have "curl_easy_setopt (Some demo_handle) CURLOPT_CAINFO (VString (Some ''ca'')) demo_state =
      (CURLE_NOT_BUILT_IN, Some (demo_handle\<lparr>h_unsupported_option := CURLOPT_CAINFO\<rparr>), demo_state)"
    by (simp add: curl_easy_setopt_def refused_strings_def refuse_option_def)
  from refused_option_blocks [OF this, of demo_net demo_state] show ?thesis
    by (auto simp: demo_handle_def demo_state_def)
qed

end
