(* ===== verification/CurlMulti.thy ===== *)
theory CurlMulti
  imports CurlTrace
begin

text \<open>
  The multi interface of the curl layer (\<open>bin/git/port/ewokos/curl_compat.c\<close>, from \<open>curl_multi_init\<close>):
  a list of handles linked through the handles themselves, and a queue of messages with a head and
  a tail pointer. Handles live in a store by address; a message node's address is never used twice.
  Following \<open>next\<close> pointers may not end in the model, as in C: those loops are partial functions.
\<close>

subsection \<open>The message queue\<close>

record message =
  msg_handle :: ptr
  msg_result :: CURLcode

record msg_queue =
  q_head :: ptr
  q_tail :: ptr
  q_nodes :: "ptr \<Rightarrow> message \<times> ptr"
  q_fresh :: ptr

text \<open>Linking a new node at the tail, and unlinking the one at the head.\<close>

definition queue_put :: "message \<Rightarrow> msg_queue \<Rightarrow> msg_queue" where
  "queue_put m q =
     (let node = q_fresh q; nodes1 = (q_nodes q)(node := (m, 0))
      in if q_tail q \<noteq> 0
         then q\<lparr>q_nodes := nodes1(q_tail q := (fst (nodes1 (q_tail q)), node)), q_tail := node, q_fresh := node + 1\<rparr>
         else q\<lparr>q_nodes := nodes1, q_head := node, q_tail := node, q_fresh := node + 1\<rparr>)"

definition queue_take :: "msg_queue \<Rightarrow> message option \<times> msg_queue" where
  "queue_take q =
     (if q_head q = 0 then (None, q)
      else
        (let node = q_head q; q1 = q\<lparr>q_head := snd (q_nodes q node)\<rparr>
         in (Some (fst (q_nodes q node)), if q_head q1 = 0 then q1\<lparr>q_tail := 0\<rparr> else q1)))"

partial_function (option) count_nodes :: "(ptr \<Rightarrow> message \<times> ptr) \<Rightarrow> ptr \<Rightarrow> int \<Rightarrow> int option" where
  "count_nodes nodes item n = (if item = 0 then Some n else count_nodes nodes (snd (nodes item)) (n + 1))"

subsection \<open>The multi handle\<close>

datatype CURLMcode = CURLM_OK | CURLM_CALL_MULTI_PERFORM | CURLM_BAD_HANDLE | CURLM_BAD_EASY_HANDLE | CURLM_OUT_OF_MEMORY

record CURLM =
  m_handles :: ptr
  m_queue :: msg_queue

record 'w mstate =
  store :: "ptr \<Rightarrow> CURL"
  cs :: "'w cstate"

definition curl_multi_init :: "'w mstate \<Rightarrow> CURLM option \<times> 'w mstate" where
  "curl_multi_init s =
     (case malloc (cs s) of (ok, c) \<Rightarrow>
        (if ok then Some \<lparr>m_handles = 0, m_queue = \<lparr>q_head = 0, q_tail = 0, q_nodes = (\<lambda>_. (\<lparr>msg_handle = 0, msg_result = CURLE_OK\<rparr>, 0)), q_fresh = 1\<rparr>\<rparr>
         else None, s\<lparr>cs := c\<rparr>))"

definition curl_multi_add_handle ::
    "CURLM option \<Rightarrow> ptr \<Rightarrow> 'w mstate \<Rightarrow> CURLMcode \<times> CURLM option \<times> 'w mstate" where
  "curl_multi_add_handle multi p s =
     (case multi of None \<Rightarrow> (CURLM_BAD_EASY_HANDLE, None, s)
      | Some m \<Rightarrow>
          if p = 0 then (CURLM_BAD_EASY_HANDLE, Some m, s)
          else if h_added (store s p) then (CURLM_OK, Some m, s)
          else (CURLM_OK, Some (m\<lparr>m_handles := p\<rparr>),
                s\<lparr>store := (store s)(p := (store s p)\<lparr>h_added := True, h_completed := False, h_next := m_handles m\<rparr>)\<rparr>))"

text \<open>The walk to the link that points to the handle: the handle before it, 0 for the head.\<close>

partial_function (option) find_link :: "(ptr \<Rightarrow> CURL) \<Rightarrow> ptr \<Rightarrow> ptr \<Rightarrow> ptr \<Rightarrow> (ptr \<times> ptr) option" where
  "find_link st p prev cur =
     (if cur \<noteq> 0 \<and> cur \<noteq> p then find_link st p cur (h_next (st cur)) else Some (prev, cur))"

definition curl_multi_remove_handle ::
    "CURLM option \<Rightarrow> ptr \<Rightarrow> 'w mstate \<Rightarrow> (CURLMcode \<times> CURLM option \<times> 'w mstate) option" where
  "curl_multi_remove_handle multi p s =
     (case multi of None \<Rightarrow> Some (CURLM_BAD_EASY_HANDLE, None, s)
      | Some m \<Rightarrow>
          if p = 0 then Some (CURLM_BAD_EASY_HANDLE, Some m, s)
          else
            do {
              (prev, cur) \<leftarrow> find_link (store s) p 0 (m_handles m);
              (let nxt = h_next (store s p);
                   m1 = (if cur \<noteq> 0 \<and> prev = 0 then m\<lparr>m_handles := nxt\<rparr> else m);
                   st1 = (if cur \<noteq> 0 \<and> prev \<noteq> 0 then (store s)(prev := (store s prev)\<lparr>h_next := nxt\<rparr>) else store s)
               in Some (CURLM_OK, Some m1, s\<lparr>store := st1(p := (st1 p)\<lparr>h_next := 0, h_added := False\<rparr>)\<rparr>))
            })"

definition curl_queue_done :: "CURLM \<Rightarrow> ptr \<Rightarrow> 'w mstate \<Rightarrow> CURLMcode \<times> CURLM \<times> 'w mstate" where
  "curl_queue_done m p s =
     (case malloc (cs s) of (ok, c) \<Rightarrow>
        if \<not> ok then (CURLM_OUT_OF_MEMORY, m, s\<lparr>cs := c\<rparr>)
        else (CURLM_OK, m\<lparr>m_queue := queue_put \<lparr>msg_handle = p, msg_result = h_result (store s p)\<rparr> (m_queue m)\<rparr>,
              s\<lparr>cs := c\<rparr>))"

text \<open>The first loop of \<open>curl_multi_perform\<close>; a code is its early return.\<close>

partial_function (option) perform_handles ::
    "('r, 'w) net \<Rightarrow> ptr \<Rightarrow> CURLM \<Rightarrow> 'w mstate \<Rightarrow> (CURLMcode \<times> CURLM \<times> 'w mstate) option" where
  "perform_handles net p m s =
     (if p = 0 then Some (CURLM_OK, m, s)
      else if h_completed (store s p) then perform_handles net (h_next (store s p)) m s
      else
        do {
          (c, r, c1) \<leftarrow> curl_easy_perform net (Some (store s p)) (cs s);
          (let s1 = s\<lparr>store := (store s)(p := the r), cs := c1\<rparr>
           in case curl_queue_done m p s1 of (result, m1, s2) \<Rightarrow>
                if result \<noteq> CURLM_OK then Some (result, m1, s2)
                else perform_handles net (h_next (store s2 p)) m1 s2)
        })"

partial_function (option) count_running :: "(ptr \<Rightarrow> CURL) \<Rightarrow> ptr \<Rightarrow> int \<Rightarrow> int option" where
  "count_running st p n =
     (if p = 0 then Some n
      else count_running st (h_next (st p)) (if h_completed (st p) then n else n + 1))"

text \<open>The last component is what is stored through \<open>running_handles\<close>, if anything.\<close>

definition curl_multi_perform ::
    "('r, 'w) net \<Rightarrow> CURLM option \<Rightarrow> 'w mstate \<Rightarrow> (CURLMcode \<times> CURLM option \<times> 'w mstate \<times> int option) option" where
  "curl_multi_perform net multi s =
     (case multi of None \<Rightarrow> Some (CURLM_BAD_HANDLE, None, s, None)
      | Some m \<Rightarrow>
          do {
            (result, m1, s1) \<leftarrow> perform_handles net (m_handles m) m s;
            (if result \<noteq> CURLM_OK then Some (result, Some m1, s1, None)
             else do {
               running \<leftarrow> count_running (store s1) (m_handles m1) 0;
               Some (CURLM_OK, Some m1, s1, Some running)
             })
          })"

definition curl_multi_info_read :: "CURLM option \<Rightarrow> (message option \<times> CURLM option \<times> int option) option" where
  "curl_multi_info_read multi =
     (case multi of None \<Rightarrow> Some (None, None, None)
      | Some m \<Rightarrow>
          (case queue_take (m_queue m) of (msg, q) \<Rightarrow>
             do {
               count \<leftarrow> count_nodes (q_nodes q) (q_head q) 0;
               Some (msg, Some (m\<lparr>m_queue := q\<rparr>), Some count)
             }))"

text \<open>\<open>curl_multi_cleanup\<close> frees every message; the handles keep their \<open>added\<close> flag.\<close>

partial_function (option) free_messages :: "msg_queue \<Rightarrow> msg_queue option" where
  "free_messages q =
     (if q_head q \<noteq> 0 then free_messages (q\<lparr>q_head := snd (q_nodes q (q_head q))\<rparr>) else Some q)"

definition curl_multi_cleanup :: "CURLM option \<Rightarrow> CURLMcode option" where
  "curl_multi_cleanup multi =
     (case multi of None \<Rightarrow> Some CURLM_BAD_HANDLE
      | Some m \<Rightarrow> do { _ \<leftarrow> free_messages (m_queue m); Some CURLM_OK })"

definition curl_multi_timeout :: "CURLM option \<Rightarrow> CURLMcode \<times> int option" where
  "curl_multi_timeout multi = (case multi of None \<Rightarrow> (CURLM_BAD_HANDLE, None) | Some _ \<Rightarrow> (CURLM_OK, Some 0))"

definition curl_multi_fdset :: "CURLM option \<Rightarrow> CURLMcode \<times> int option" where
  "curl_multi_fdset multi = (CURLM_OK, Some (- 1))"

definition curl_multi_strerror :: "CURLMcode \<Rightarrow> string" where
  "curl_multi_strerror code = (if code = CURLM_OK then ''no error'' else ''curl multi interface error'')"

declare count_nodes.simps [code] find_link.simps [code] perform_handles.simps [code]
  count_running.simps [code] free_messages.simps [code]

subsection \<open>Linked lists\<close>

fun linked :: "(ptr \<Rightarrow> ptr) \<Rightarrow> ptr \<Rightarrow> ptr list \<Rightarrow> bool" where
  "linked nx p [] \<longleftrightarrow> p = 0"
| "linked nx p (x # xs) \<longleftrightarrow> p = x \<and> x \<noteq> 0 \<and> linked nx (nx x) xs"

lemma linked_cong: "(\<And>x. x \<in> set xs \<Longrightarrow> nx x = nx' x) \<Longrightarrow> linked nx p xs = linked nx' p xs"
  by (induction xs arbitrary: p) auto

lemma linked_null: "linked nx 0 xs \<longleftrightarrow> xs = []"
  by (cases xs) auto

lemma linked_nonzero: "linked nx p xs \<Longrightarrow> 0 \<notin> set xs"
  by (induction xs arbitrary: p) auto

lemma linked_snoc:
  assumes "linked nx p (xs @ [t])" and "distinct (xs @ [t])" and "n \<notin> set (xs @ [t])" and "n \<noteq> 0"
    and "nx' t = n" and "nx' n = 0" and "\<And>x. x \<in> set xs \<Longrightarrow> nx' x = nx x"
  shows "linked nx' p (xs @ [t, n])"
  using assms by (induction xs arbitrary: p) auto

subsection \<open>The queue interface\<close>

text \<open>
  A first-in first-out queue as its client sees it: \<open>rep\<close> says which messages, oldest first, a state
  holds. The laws are about one operation each; what follows for any sequence is proved once.
\<close>

locale fifo_queue =
  fixes put :: "'m \<Rightarrow> 'q \<Rightarrow> 'q" and take_one :: "'q \<Rightarrow> 'm option \<times> 'q" and rep :: "'q \<Rightarrow> 'm list \<Rightarrow> bool"
  assumes put_rep: "rep q ms \<Longrightarrow> rep (put m q) (ms @ [m])"
    and take_empty: "rep q [] \<Longrightarrow> take_one q = (None, q)"
    and take_rep: "rep q (m # ms) \<Longrightarrow> fst (take_one q) = Some m \<and> rep (snd (take_one q)) ms"
begin

text \<open>A run of puts (\<open>Some m\<close>) and takes (\<open>None\<close>), with the messages taken.\<close>

fun run :: "'m option list \<Rightarrow> 'q \<Rightarrow> 'm list \<times> 'q" where
  "run [] q = ([], q)"
| "run (Some m # ops) q = run ops (put m q)"
| "run (None # ops) q =
     (case take_one q of (r, q1) \<Rightarrow> case run ops q1 of (ms, q2) \<Rightarrow> ((case r of Some m \<Rightarrow> m # ms | None \<Rightarrow> ms), q2))"

lemma run_fifo:
  assumes "rep q ms"
  shows "\<exists>left. rep (snd (run ops q)) left \<and>
    fst (run ops q) @ left = ms @ concat (map (\<lambda>r. case r of Some m \<Rightarrow> [m] | None \<Rightarrow> []) ops)"
  using assms
proof (induction ops q arbitrary: ms rule: run.induct)
  case (2 m ops q)
  from 2(1) [OF put_rep [OF 2(2)]] show ?case by simp
next
  case (3 ops q)
  show ?case
  proof (cases ms)
    case Nil
    with take_empty 3(2) have "take_one q = (None, q)" by simp
    with 3(1) [of None q, OF _ 3(2)] Nil show ?thesis by (simp add: case_prod_unfold)
  next
    case (Cons m ms')
    with take_rep 3(2) obtain q1 where q1: "take_one q = (Some m, q1)" "rep q1 ms'" by (cases "take_one q") fastforce
    from 3(1) [OF q1(1) [symmetric] q1(2)] Cons q1(1) show ?thesis by (simp add: case_prod_unfold)
  qed
qed simp

end

definition queue_holds :: "msg_queue \<Rightarrow> message list \<Rightarrow> bool" where
  "queue_holds q ms \<longleftrightarrow>
     (\<exists>ps. linked (\<lambda>p. snd (q_nodes q p)) (q_head q) ps \<and> map (\<lambda>p. fst (q_nodes q p)) ps = ms \<and>
        q_tail q = (if ps = [] then 0 else last ps) \<and> distinct ps \<and>
        (\<forall>p \<in> set ps. 0 < p \<and> p < q_fresh q) \<and> 0 < q_fresh q)"

lemma queue_put_holds:
  assumes "queue_holds q ms"
  shows "queue_holds (queue_put m q) (ms @ [m])"
proof -
  obtain ps where ps: "linked (\<lambda>p. snd (q_nodes q p)) (q_head q) ps" "map (\<lambda>p. fst (q_nodes q p)) ps = ms"
      "q_tail q = (if ps = [] then 0 else last ps)" "distinct ps" "\<forall>p \<in> set ps. 0 < p \<and> p < q_fresh q" "0 < q_fresh q"
    using assms by (auto simp: queue_holds_def)
  show ?thesis
  proof (cases ps rule: rev_cases)
    case Nil
    then have "q_head q = 0" using ps(1) by simp
    then show ?thesis
      unfolding queue_holds_def using ps Nil
      by (intro exI [of _ "[q_fresh q]"]) (auto simp: queue_put_def Let_def)
  next
    case (snoc xs t)
    have t: "q_tail q = t" "t \<noteq> 0" "t < q_fresh q" using ps(3,5) snoc by auto
    have f: "q_fresh q \<notin> set ps" using ps(5) by auto
    let ?q = "queue_put m q"
    have q: "q_head ?q = q_head q" "q_tail ?q = q_fresh q" "q_fresh ?q = q_fresh q + 1"
      "q_nodes ?q = (q_nodes q)(q_fresh q := (m, 0), t := (fst (q_nodes q t), q_fresh q))"
      using t by (simp_all add: queue_put_def Let_def)
    have "linked (\<lambda>p. snd (q_nodes ?q p)) (q_head ?q) (xs @ [t, q_fresh q])"
    proof (rule linked_snoc [where nx = "\<lambda>p. snd (q_nodes q p)"])
      show "linked (\<lambda>p. snd (q_nodes q p)) (q_head ?q) (xs @ [t])" using ps(1) snoc q(1) by simp
    qed (use ps(4,6) snoc f t q(4) in auto)
    moreover have "map (\<lambda>p. fst (q_nodes ?q p)) (xs @ [t, q_fresh q]) = ms @ [m]"
      using ps(2,4) snoc f t q(4) by auto
    ultimately show ?thesis
      unfolding queue_holds_def using ps(4,5,6) snoc f q(2,3)
      by (intro exI [of _ "xs @ [t, q_fresh q]"]) auto
  qed
qed

lemma queue_take_empty: "queue_holds q [] \<Longrightarrow> queue_take q = (None, q)"
  by (auto simp: queue_holds_def queue_take_def)

lemma queue_take_holds:
  assumes "queue_holds q (m # ms)"
  shows "fst (queue_take q) = Some m \<and> queue_holds (snd (queue_take q)) ms"
proof -
  from assms obtain ps where "linked (\<lambda>p. snd (q_nodes q p)) (q_head q) ps \<and> map (\<lambda>p. fst (q_nodes q p)) ps = m # ms \<and>
      q_tail q = (if ps = [] then 0 else last ps) \<and> distinct ps \<and> (\<forall>p \<in> set ps. 0 < p \<and> p < q_fresh q) \<and> 0 < q_fresh q"
    unfolding queue_holds_def ..
  then have ps: "linked (\<lambda>p. snd (q_nodes q p)) (q_head q) ps" "map (\<lambda>p. fst (q_nodes q p)) ps = m # ms"
      "q_tail q = (if ps = [] then 0 else last ps)" "distinct ps" "\<forall>p \<in> set ps. 0 < p \<and> p < q_fresh q" "0 < q_fresh q"
    by simp_all
  then obtain p rest where r: "ps = p # rest" by (cases ps) auto
  have "snd (q_nodes q p) = 0 \<longleftrightarrow> rest = []" using ps(1) r by (cases rest) auto
  then show ?thesis
    using ps r unfolding queue_holds_def queue_take_def Let_def
    by (auto intro!: exI [of _ rest])
qed

interpretation messages: fifo_queue queue_put queue_take queue_holds
  by unfold_locales (fact queue_put_holds, fact queue_take_empty, fact queue_take_holds)

text \<open>
  C22. The messages of a multi handle are read in the order they were queued, each once: in any
  sequence of completions (\<open>Some\<close>) and reads (\<open>None\<close>), what has been read followed by what is left is
  what was queued, although nodes are linked at the tail and freed at the head.
\<close>

theorem messages_fifo:
  assumes "queue_holds q ms" and "messages.run ops q = (taken, q')"
  shows "\<exists>left. queue_holds q' left \<and>
    taken @ left = ms @ concat (map (\<lambda>r. case r of Some m \<Rightarrow> [m] | None \<Rightarrow> []) ops)"
  using messages.run_fifo [OF assms(1), of ops] unfolding assms(2) by simp

definition empty_queue :: msg_queue where
  "empty_queue = \<lparr>q_head = 0, q_tail = 0, q_nodes = (\<lambda>_. (\<lparr>msg_handle = 0, msg_result = CURLE_OK\<rparr>, 0)), q_fresh = 1\<rparr>"

lemma empty_queue_holds: "queue_holds empty_queue []"
  by (auto simp: queue_holds_def empty_queue_def intro!: exI [of _ "[]"])

theorem messages_fifo_witness:
  "\<exists>left. queue_holds (snd (messages.run [Some \<lparr>msg_handle = 8, msg_result = CURLE_OK\<rparr>, None] empty_queue)) left \<and>
    [\<lparr>msg_handle = 8, msg_result = CURLE_OK\<rparr>] @ left = [\<lparr>msg_handle = 8, msg_result = CURLE_OK\<rparr>]"
proof -
  let ?ops = "[Some \<lparr>msg_handle = 8, msg_result = CURLE_OK\<rparr>, None]"
  have e: "messages.run ?ops empty_queue =
      ([\<lparr>msg_handle = 8, msg_result = CURLE_OK\<rparr>], snd (messages.run ?ops empty_queue))"
    by (simp add: empty_queue_def queue_put_def queue_take_def Let_def)
  from messages_fifo [OF empty_queue_holds e] show ?thesis by simp
qed

subsection \<open>The list of handles\<close>

definition handles_are :: "CURLM \<Rightarrow> 'w mstate \<Rightarrow> ptr list \<Rightarrow> bool" where
  "handles_are m s xs \<longleftrightarrow> linked (\<lambda>p. h_next (store s p)) (m_handles m) xs \<and> distinct xs \<and>
     (\<forall>p \<in> set xs. h_added (store s p))"

lemma linked_store_upd [simp]:
  "p \<notin> set xs \<Longrightarrow> linked (\<lambda>q. h_next ((st(p := h)) q)) c xs = linked (\<lambda>q. h_next (st q)) c xs"
  by (rule linked_cong) auto

lemma find_link_absent:
  "linked (\<lambda>q. h_next (st q)) cur xs \<Longrightarrow> p \<notin> set xs \<Longrightarrow> p \<noteq> 0 \<Longrightarrow> \<exists>prev'. find_link st p prev cur = Some (prev', 0)"
  by (induction xs arbitrary: cur prev) (subst find_link.simps, auto)+

lemma find_link_present:
  "linked (\<lambda>q. h_next (st q)) cur (ys @ p # zs) \<Longrightarrow> p \<notin> set ys \<Longrightarrow>
   find_link st p prev cur = Some (if ys = [] then prev else last ys, p)"
  by (induction ys arbitrary: cur prev) (subst find_link.simps, auto)+

lemma linked_unlink:
  assumes "linked nx c (ys @ t # p # zs)" and "distinct (ys @ t # p # zs)"
    and "nx' t = nx p" and "\<And>x. x \<in> set (ys @ zs) \<Longrightarrow> nx' x = nx x"
  shows "linked nx' c (ys @ t # zs)"
  using assms
proof (induction ys arbitrary: c)
  case Nil
  then show ?case using linked_cong [of zs nx' nx] by auto
qed auto

lemma remove_handle_list:
  assumes "handles_are m s xs" and "p \<noteq> 0"
  shows "\<exists>m' s'. curl_multi_remove_handle (Some m) p s = Some (CURLM_OK, Some m', s') \<and>
    handles_are m' s' (remove1 p xs) \<and> \<not> h_added (store s' p) \<and> m_queue m' = m_queue m"
proof (cases "p \<in> set xs")
  case False
  with assms obtain prev where f: "find_link (store s) p 0 (m_handles m) = Some (prev, 0)"
    using find_link_absent [of "store s" "m_handles m" xs p 0] by (auto simp: handles_are_def)
  let ?s = "s\<lparr>store := (store s)(p := (store s p)\<lparr>h_next := 0, h_added := False\<rparr>)\<rparr>"
  have "linked (\<lambda>q. h_next (store ?s q)) (m_handles m) xs"
    using assms(1) False by (simp add: handles_are_def del: fun_upd_apply)
  then have "handles_are m ?s xs" using assms(1) False by (auto simp: handles_are_def)
  then show ?thesis
    using f assms(2) False by (simp add: curl_multi_remove_handle_def remove1_idem Let_def)
next
  case True
  then obtain ys zs where xs: "xs = ys @ p # zs" "p \<notin> set ys" using split_list_first by metis
  have l: "linked (\<lambda>q. h_next (store s q)) (m_handles m) (ys @ p # zs)" and d: "distinct (ys @ p # zs)"
    and a: "\<forall>q \<in> set xs. h_added (store s q)"
    using assms(1) xs by (auto simp: handles_are_def)
  note f = find_link_present [OF l xs(2), of 0]
  have r: "remove1 p xs = ys @ zs" using xs by (simp add: remove1_append)
  show ?thesis
  proof (cases ys rule: rev_cases)
    case Nil
    let ?m = "m\<lparr>m_handles := h_next (store s p)\<rparr>"
    let ?s = "s\<lparr>store := (store s)(p := (store s p)\<lparr>h_next := 0, h_added := False\<rparr>)\<rparr>"
    have "linked (\<lambda>q. h_next (store ?s q)) (h_next (store s p)) zs"
      using l d Nil by (simp del: fun_upd_apply)
    then have "handles_are ?m ?s (ys @ zs)" using d a xs Nil by (auto simp: handles_are_def)
    then show ?thesis
      using f assms(2) Nil r by (simp add: curl_multi_remove_handle_def Let_def)
  next
    case (snoc us t)
    have t: "t \<noteq> 0" "t \<noteq> p" using linked_nonzero [OF l] d snoc by auto
    let ?s = "s\<lparr>store := (store s)(t := (store s t)\<lparr>h_next := h_next (store s p)\<rparr>,
        p := (store s p)\<lparr>h_next := 0, h_added := False\<rparr>)\<rparr>"
    have "linked (\<lambda>q. h_next (store ?s q)) (m_handles m) (us @ t # zs)"
      by (rule linked_unlink [where nx = "\<lambda>q. h_next (store s q)" and p = p]) (use l d snoc t in auto)
    then have "handles_are m ?s (ys @ zs)" using d a xs snoc t by (auto simp: handles_are_def)
    then show ?thesis
      using f assms(2) snoc r t by (simp add: curl_multi_remove_handle_def Let_def)
  qed
qed

text \<open>
  C23. The links through the handles implement a list without repetition: adding a handle that is in
  no multi handle puts it in front, adding one that is in the list changes nothing, and removing a
  handle takes exactly it out, wherever it is.
\<close>

theorem handle_list:
  assumes "handles_are m s xs" and "p \<noteq> 0"
  shows "(\<exists>m' s'. curl_multi_add_handle (Some m) p s = (CURLM_OK, Some m', s') \<and>
      handles_are m' s' (if h_added (store s p) then xs else p # xs)) \<and>
    (\<exists>m' s'. curl_multi_remove_handle (Some m) p s = Some (CURLM_OK, Some m', s') \<and>
      handles_are m' s' (remove1 p xs) \<and> \<not> h_added (store s' p))"
proof (intro conjI)
  show "\<exists>m' s'. curl_multi_remove_handle (Some m) p s = Some (CURLM_OK, Some m', s') \<and>
      handles_are m' s' (remove1 p xs) \<and> \<not> h_added (store s' p)"
    using remove_handle_list [OF assms] by blast
  show "\<exists>m' s'. curl_multi_add_handle (Some m) p s = (CURLM_OK, Some m', s') \<and>
      handles_are m' s' (if h_added (store s p) then xs else p # xs)"
  proof (cases "h_added (store s p)")
    case True
    then show ?thesis using assms by (simp add: curl_multi_add_handle_def)
  next
    case False
    then have p: "p \<notin> set xs" using assms(1) by (auto simp: handles_are_def)
    let ?h = "(store s p)\<lparr>h_added := True, h_completed := False, h_next := m_handles m\<rparr>"
    let ?s = "s\<lparr>store := (store s)(p := ?h)\<rparr>"
    have "linked (\<lambda>q. h_next (store ?s q)) (m_handles m) xs"
      using assms(1) p by (simp add: handles_are_def del: fun_upd_apply)
    then have "handles_are (m\<lparr>m_handles := p\<rparr>) ?s (p # xs)"
      using assms p by (auto simp: handles_are_def)
    then show ?thesis using assms(2) False by (simp add: curl_multi_add_handle_def)
  qed
qed

text \<open>Handles at 8, 16 and 24, linked in this order.\<close>

definition three_handles :: "(string \<times> request_call list) list mstate" where
  "three_handles = \<lparr>store = (\<lambda>p. calloc_handle\<lparr>h_added := p \<in> {8, 16, 24}, h_next := if p = 8 then 16 else if p = 16 then 24 else 0\<rparr>),
     cs = demo_state\<rparr>"

definition three_multi :: CURLM where
  "three_multi = \<lparr>m_handles = 8, m_queue = empty_queue\<rparr>"

lemma three_handles_are: "handles_are three_multi three_handles [8, 16, 24]"
  by (simp add: handles_are_def three_multi_def three_handles_def)

theorem handle_list_witness:
  "\<exists>m' s'. curl_multi_remove_handle (Some three_multi) 16 three_handles = Some (CURLM_OK, Some m', s') \<and>
    handles_are m' s' [8, 24]"
  using handle_list [OF three_handles_are, of 16] by auto

subsection \<open>Performing the transfers\<close>

text \<open>What a transfer leaves of a handle's place in the lists.\<close>

lemma easy_perform_place:
  assumes "curl_easy_perform net (Some h) s = Some (c, r, s')"
  shows "\<exists>h'. r = Some h' \<and> h_next h' = h_next h \<and> h_added h' = h_added h \<and> h_completed h'"
proof -
  obtain h' where h: "r = Some h'" "settings h' = settings h"
    using easy_perform_sends [OF assms] by (auto simp: sends_def)
  have "h_next h' = h_next h" "h_added h' = h_added h"
    using h(2) [THEN arg_cong, of h_next] h(2) [THEN arg_cong, of h_added] by (simp_all add: settings_def)
  moreover have "h_completed h'"
    using assms h(1) by (auto simp: curl_easy_perform_def split: prod.splits bind_splits)
  ultimately show ?thesis using h(1) by blast
qed

definition done_message :: "(ptr \<Rightarrow> CURL) \<Rightarrow> ptr \<Rightarrow> message" where
  "done_message st p = \<lparr>msg_handle = p, msg_result = h_result (st p)\<rparr>"

definition pending :: "'w mstate \<Rightarrow> ptr list \<Rightarrow> ptr list" where
  "pending s xs = filter (\<lambda>p. \<not> h_completed (store s p)) xs"

lemma pending_cong: "(\<And>q. q \<in> set xs \<Longrightarrow> store s q = store s' q) \<Longrightarrow> pending s xs = pending s' xs"
  unfolding pending_def by (rule filter_cong) simp_all

lemma perform_handles_result:
  assumes "perform_handles net p m s = Some (CURLM_OK, m', s')"
    and "linked (\<lambda>q. h_next (store s q)) p xs" and "distinct xs" and "queue_holds (m_queue m) ms"
  shows "m_handles m' = m_handles m \<and>
    (\<forall>q. h_next (store s' q) = h_next (store s q) \<and> h_added (store s' q) = h_added (store s q)) \<and>
    (\<forall>q. q \<notin> set xs \<longrightarrow> store s' q = store s q) \<and> (\<forall>q \<in> set xs. h_completed (store s' q)) \<and>
    queue_holds (m_queue m') (ms @ map (done_message (store s')) (pending s xs))"
  using assms
proof (induction xs arbitrary: p m s ms)
  case Nil
  then show ?case by (subst (asm) perform_handles.simps) (simp add: pending_def)
next
  case (Cons x xs)
  then have x: "p = x" "x \<noteq> 0" "x \<notin> set xs" "distinct xs" "linked (\<lambda>q. h_next (store s q)) (h_next (store s x)) xs"
    by auto
  show ?case
  proof (cases "h_completed (store s x)")
    case True
    with Cons.prems(1) x(1,2) have "perform_handles net (h_next (store s x)) m s = Some (CURLM_OK, m', s')"
      by (subst (asm) perform_handles.simps) simp
    from Cons.IH [OF this x(5,4) Cons.prems(4)] True x(3) show ?thesis by (auto simp: pending_def)
  next
    case False
    then obtain c r c1 where e: "curl_easy_perform net (Some (store s x)) (cs s) = Some (c, r, c1)"
      using Cons.prems(1) x(1,2) by (subst (asm) perform_handles.simps) (auto split: bind_splits)
    from easy_perform_place [OF e] obtain h' where h: "r = Some h'" "h_next h' = h_next (store s x)"
      "h_added h' = h_added (store s x)" "h_completed h'" by blast
    define s1 where "s1 = s\<lparr>store := (store s)(x := h'), cs := c1\<rparr>"
    obtain res m1 s2 where q: "curl_queue_done m x s1 = (res, m1, s2)" by (cases "curl_queue_done m x s1") auto
    have go: "res = CURLM_OK" "perform_handles net (h_next (store s2 x)) m1 s2 = Some (CURLM_OK, m', s')"
      using Cons.prems(1) x(1,2) False
      by (subst (asm) perform_handles.simps, auto simp: e h(1) s1_def [symmetric] q split: if_splits)+
    have st2: "store s2 = (store s)(x := h')" and m1: "m_handles m1 = m_handles m"
      "m_queue m1 = queue_put (done_message (store s1) x) (m_queue m)"
      using q go(1) by (auto simp: curl_queue_done_def s1_def done_message_def split: prod.splits if_splits)
    have l2: "linked (\<lambda>q. h_next (store s2 q)) (h_next (store s2 x)) xs"
      using x(3,5) h(2) by (simp add: st2 del: fun_upd_apply) simp
    note IH = Cons.IH [OF go(2) l2 x(4) queue_put_holds [OF Cons.prems(4), of "done_message (store s1) x", folded m1(2)]]
    have sx: "store s' x = h'" using IH x(3) st2 by simp
    have dm: "done_message (store s1) x = done_message (store s') x" by (simp add: done_message_def s1_def sx)
    have pe: "pending s (x # xs) = x # pending s2 xs"
    proof -
      have "pending s xs = pending s2 xs" using x(3) by (intro pending_cong) (auto simp: st2)
      with False show ?thesis by (simp add: pending_def)
    qed
    show ?thesis using IH h x(3) sx dm pe st2 m1(1) by auto
  qed
qed

lemma count_running_none:
  "linked (\<lambda>q. h_next (st q)) p xs \<Longrightarrow> \<forall>q \<in> set xs. h_completed (st q) \<Longrightarrow> count_running st p n = Some n"
  by (induction xs arbitrary: p) (subst count_running.simps, auto)+

text \<open>
  C21. When a multi handle has performed, every handle of its list is completed, none is counted as
  running, the list is what it was, and exactly the transfers that were pending have each queued one
  message, in the order of the list, with the result the handle reports.
\<close>

theorem multi_perform_completes:
  assumes "curl_multi_perform net (Some m) s = Some (CURLM_OK, r, s', n)"
    and "handles_are m s xs" and "queue_holds (m_queue m) ms"
  shows "\<exists>m'. r = Some m' \<and> n = Some 0 \<and> handles_are m' s' xs \<and> (\<forall>p \<in> set xs. h_completed (store s' p)) \<and>
    queue_holds (m_queue m') (ms @ map (done_message (store s')) (pending s xs))"
proof -
  obtain result m1 s1 where p: "perform_handles net (m_handles m) m s = Some (result, m1, s1)"
    using assms(1) by (auto simp: curl_multi_perform_def split: bind_splits)
  then have o: "result = CURLM_OK" "s1 = s'" "r = Some m1" "count_running (store s1) (m_handles m1) 0 = n"
    using assms(1) by (auto simp: curl_multi_perform_def split: if_splits bind_splits)
  note l = assms(2) [unfolded handles_are_def]
  note res = perform_handles_result [OF p [unfolded o(1)] conjunct1 [OF l] conjunct1 [OF conjunct2 [OF l]] assms(3)]
  have l': "linked (\<lambda>q. h_next (store s1 q)) (m_handles m1) xs" using l res by simp
  have "n = Some 0" using o(4) count_running_none [OF l', of 0] res by simp
  then show ?thesis using res l l' o(2,3) by (auto simp: handles_are_def)
qed

theorem multi_perform_completes_witness:
  "\<exists>m' s'. curl_multi_perform demo_net (Some three_multi) three_handles = Some (CURLM_OK, Some m', s', Some 0) \<and>
    queue_holds (m_queue m') (map (done_message (store s')) [8, 16, 24])"
proof -
  have "map_option (\<lambda>(c, r, s, n). (c, n)) (curl_multi_perform demo_net (Some three_multi) three_handles) =
      Some (CURLM_OK, Some 0)" by code_simp
  then obtain r s' n where e: "curl_multi_perform demo_net (Some three_multi) three_handles = Some (CURLM_OK, r, s', n)"
    by auto
  have p: "pending three_handles [8, 16, 24] = [8, 16, 24]"
    by (simp add: pending_def three_handles_def calloc_handle_def)
  have q: "queue_holds (m_queue three_multi) []" by (simp add: three_multi_def empty_queue_holds)
  from multi_perform_completes [OF e three_handles_are q] e show ?thesis unfolding p by auto
qed

end
