(* ===== verification/GitCompat.thy ===== *)
theory GitCompat
  imports Prelude
begin

text \<open>
  The libc functions the system lacks and git's port adds (\<open>bin/git/port/ewokos/compat.c\<close>):
  \<open>freopen\<close> over \<open>fopen\<close> and \<open>dup2\<close>, \<open>execlp\<close> over \<open>execvp\<close>, \<open>getpass\<close> over the terminal
  attributes, and the ones that only fail or print. What the system does (which descriptor \<open>fopen\<close>
  gets, whether a call fails) is a parameter; a \<open>FILE\<close> is its descriptor and its two flags.
\<close>

subsection \<open>freopen\<close>

datatype errno = EINVAL | ENOSYS | ENOMEM | OtherErrno int

record FILE =
  f_fd :: int
  f_eof :: bool
  f_has_unget :: bool

text \<open>The open descriptors of the process with what they refer to, and \<open>errno\<close>.\<close>

record 'o process =
  fds :: "int \<Rightarrow> 'o option"
  errno_of :: errno

text \<open>
  \<open>fopen\<close>'s answer: the new descriptor and the file it refers to, or an error; \<open>dup2\<close>'s answer is an
  error or none. \<open>fclose\<close> closes the descriptor and may set \<open>errno\<close> itself, \<open>free\<close> does nothing here.
\<close>

definition fclose_fd :: "errno \<Rightarrow> int \<Rightarrow> 'o process \<Rightarrow> 'o process" where
  "fclose_fd e fd p = p\<lparr>fds := (fds p)(fd := None), errno_of := e\<rparr>"

definition freopen ::
    "errno + int \<times> 'o \<Rightarrow> errno option \<Rightarrow> errno \<Rightarrow> FILE option \<Rightarrow> 'o process \<Rightarrow> FILE option \<times> 'o process" where
  "freopen opens dup2_fails close_errno stream p =
     (case stream of
        None \<Rightarrow> (None, p\<lparr>errno_of := EINVAL\<rparr>)
      | Some st \<Rightarrow>
          (case opens of
             Inl e \<Rightarrow> (None, p\<lparr>errno_of := e\<rparr>)
           | Inr (fd, obj) \<Rightarrow>
               (let p1 = p\<lparr>fds := (fds p)(fd := Some obj)\<rparr>
                in case (if fd \<noteq> f_fd st then dup2_fails else None) of
                     Some e \<Rightarrow>
                       (let p2 = fclose_fd close_errno fd (p1\<lparr>errno_of := e\<rparr>)
                        in (None, p2\<lparr>errno_of := e\<rparr>))
                   | None \<Rightarrow>
                       (let p2 = (if fd \<noteq> f_fd st
                                  then fclose_fd close_errno fd (p1\<lparr>fds := (fds p1)(f_fd st := Some obj)\<rparr>)
                                  else p1)
                        in (Some (st\<lparr>f_eof := False, f_has_unget := False\<rparr>), p2)))))"

text \<open>
  \<open>freopen\<close> replaces what the stream's descriptor refers to and nothing else: if it succeeds the
  stream keeps its descriptor, which now refers to the opened file, with its flags cleared; if it
  fails every descriptor refers to what it did and \<open>errno\<close> is that of the call that failed. No other
  descriptor is opened or closed.
\<close>

theorem freopen_replaces:
  assumes "freopen opens dup2_fails ce (Some st) p = (r, p')" and "\<And>fd obj. opens = Inr (fd, obj) \<Longrightarrow> fds p fd = None"
  shows "case r of
      Some st' \<Rightarrow> (\<exists>fd obj. opens = Inr (fd, obj) \<and> fds p' = (fds p)(f_fd st := Some obj)) \<and> f_fd st' = f_fd st \<and>
        \<not> f_eof st' \<and> \<not> f_has_unget st'
    | None \<Rightarrow> fds p' = fds p \<and> (opens = Inl (errno_of p') \<or> dup2_fails = Some (errno_of p'))"
proof (cases opens)
  case (Inl e)
  then show ?thesis using assms(1) by (auto simp: freopen_def)
next
  case (Inr x)
  obtain fd obj where x: "x = (fd, obj)" by fastforce
  have "fds p fd = None" using assms(2) Inr x by blast
  then show ?thesis
    using assms(1)
    by (auto simp: freopen_def Inr x fclose_fd_def Let_def fun_upd_twist split: option.splits if_splits)
qed

theorem freopen_replaces_witness:
  "\<exists>st' p'. freopen (Inr (5, ''log'')) None ENOMEM (Some \<lparr>f_fd = 1, f_eof = True, f_has_unget = True\<rparr>)
       \<lparr>fds = [0 \<mapsto> ''in'', 1 \<mapsto> ''out''], errno_of = ENOSYS\<rparr> = (Some st', p') \<and>
     fds p' = [0 \<mapsto> ''in'', 1 \<mapsto> ''log''] \<and> f_fd st' = 1"
proof -
  obtain r p' where f: "freopen (Inr (5, ''log'')) None ENOMEM (Some \<lparr>f_fd = 1, f_eof = True, f_has_unget = True\<rparr>)
       \<lparr>fds = [0 \<mapsto> ''in'', 1 \<mapsto> ''out''], errno_of = ENOSYS\<rparr> = (r, p')" by fastforce
  then have "r \<noteq> None" by (auto simp: freopen_def Let_def)
  then obtain st' where r: "r = Some st'" by blast
  from freopen_replaces [OF f] have "fds p' = [0 \<mapsto> ''in'', 1 \<mapsto> ''log''] \<and> f_fd st' = 1" by (auto simp: r)
  then show ?thesis using f r by blast
qed

subsection \<open>execlp\<close>

text \<open>
  The variable arguments are the list before the first null. \<open>calloc\<close> may fail; \<open>execvp\<close> only returns
  when it fails, with an \<open>errno\<close> that \<open>free\<close> must not disturb.
\<close>

datatype exec_outcome = Replaced string "string list" | Failed errno

definition execlp :: "bool \<Rightarrow> errno option \<Rightarrow> string \<Rightarrow> string \<Rightarrow> string option list \<Rightarrow> exec_outcome" where
  "execlp calloc_ok execvp_fails file arg args =
     (if \<not> calloc_ok then Failed ENOMEM
      else
        (let argv = arg # map the (takeWhile (\<lambda>a. a \<noteq> None) args)
         in case execvp_fails of None \<Rightarrow> Replaced file argv | Some e \<Rightarrow> Failed e))"

definition tcgetpgrp :: "int \<Rightarrow> int \<times> errno" where
  "tcgetpgrp fd = (- 1, ENOSYS)"

subsection \<open>getpass\<close>

datatype stream = STDIN | STDERR | TTY

text \<open>
  The terminal as \<open>getpass\<close> meets it: whether \<open>/dev/tty\<close> opens, whether the attributes can be read
  and set (the two calls may differ), the echo flag, the characters each stream still delivers, and
  what was printed.
\<close>

record console =
  tty_opens :: bool
  getattr_ok :: bool
  setattr_ok :: bool
  restore_ok :: bool
  echo :: bool
  input :: "stream \<Rightarrow> string"
  printed :: "(stream \<times> string) list"

definition fputs :: "stream \<Rightarrow> string \<Rightarrow> console \<Rightarrow> console" where
  "fputs f w c = c\<lparr>printed := printed c @ [(f, w)]\<rparr>"

text \<open>
  The result is a C string: it ends at the first NUL, which may be one that was typed. The loop: \<open>len\<close> characters are in the buffer of 128. The result is what was stored, the last
  \<open>fgetc\<close> (\<open>None\<close> for \<open>EOF\<close>) and what is left of the input; \<open>ch\<close> is the previous character.
\<close>

fun read_password :: "nat \<Rightarrow> char option \<Rightarrow> string \<Rightarrow> string \<times> char option \<times> string" where
  "read_password len ch w =
     (if len + 1 < 128 then
        (case w of
           [] \<Rightarrow> ([], None, [])
         | c # w' \<Rightarrow>
             if c = NL \<or> c = CHR 0x0D then ([], Some c, w')
             else (case read_password (len + 1) (Some c) w' of (pw, r) \<Rightarrow> (c # pw, r)))
      else ([], ch, w))"

declare read_password.simps [simp del]

definition getpass :: "string option \<Rightarrow> console \<Rightarrow> string option \<times> console" where
  "getpass prompt c =
     (let inp = (if tty_opens c then TTY else STDIN);
          outp = (if inp = STDIN then STDERR else inp);
          c1 = (case prompt of None \<Rightarrow> c | Some w \<Rightarrow> fputs outp w c);
          echo_changed = (getattr_ok c1 \<and> echo c1 \<and> setattr_ok c1);
          c2 = (if echo_changed then c1\<lparr>echo := False\<rparr> else c1)
      in case read_password 0 None (input c2 inp) of
           (pw, ch, rest) \<Rightarrow>
             (let c3 = c2\<lparr>input := (input c2)(inp := rest)\<rparr>;
                  c4 = (if echo_changed \<and> restore_ok c3 then c3\<lparr>echo := True\<rparr> else c3);
                  c5 = fputs outp [NL] c4
              in (if ch = None \<and> pw = [] then None else Some (takeWhile (\<lambda>x. x \<noteq> NUL) pw), c5)))"

definition line_end :: "char \<Rightarrow> bool" where
  "line_end x \<longleftrightarrow> x = NL \<or> x = CHR 0x0D"

lemma read_password_line:
  "len \<le> 127 \<Longrightarrow> read_password len ch w = (pw, ch', rest) \<Longrightarrow>
   pw = take (127 - len) (takeWhile (\<lambda>x. \<not> line_end x) w) \<and>
   rest = drop (min (127 - len) (Suc (length (takeWhile (\<lambda>x. \<not> line_end x) w)))) w"
proof (induction w arbitrary: len ch pw)
  case Nil
  then show ?case by (auto simp: read_password.simps [of len] split: if_splits)
next
  case (Cons c w)
  show ?case
  proof (cases "len < 127 \<and> \<not> line_end c")
    case True
    then obtain pw1 where r: "read_password (len + 1) (Some c) w = (pw1, ch', rest)" "pw = c # pw1"
      using Cons.prems(2) by (auto simp: read_password.simps [of len] line_end_def split: prod.splits)
    have "127 - len = Suc (127 - (len + 1))" using True by arith
    then show ?thesis using Cons.IH [OF _ r(1)] True by (simp add: r(2))
  next
    case False
    then show ?thesis
      using Cons.prems by (cases "127 - len")
        (auto simp: read_password.simps [of len] line_end_def split: if_splits)
  qed
qed

text \<open>
  C39. \<open>getpass\<close> reads one line: whatever the terminal does it returns the characters before the end
  of the line, at most 127 of them so that they fit the buffer with their terminator, takes exactly
  these and the line's end from its input, returns nothing only at the end of the input, and leaves
  the echo as it was if the terminal lets it. (A NUL among the characters ends the string returned.)
\<close>

theorem getpass_line:
  "let inp = (if tty_opens c then TTY else STDIN);
       line = takeWhile (\<lambda>x. \<not> line_end x) (input c inp)
   in case getpass prompt c of
        (pw, c') \<Rightarrow>
          pw = (if input c inp = [] then None else Some (takeWhile (\<lambda>x. x \<noteq> NUL) (take 127 line))) \<and>
          input c' = (input c)(inp := drop (min 127 (Suc (length line))) (input c inp)) \<and>
          echo c' = (if getattr_ok c \<and> setattr_ok c then echo c \<and> restore_ok c else echo c)"
proof -
  define inp where "inp = (if tty_opens c then TTY else STDIN)"
  define W where "W = input c inp"
  obtain pw ch rest where r: "read_password 0 None W = (pw, ch, rest)" by (cases "read_password 0 None W")
  have l: "pw = take 127 (takeWhile (\<lambda>x. \<not> line_end x) W)"
    "rest = drop (min 127 (Suc (length (takeWhile (\<lambda>x. \<not> line_end x) W)))) W"
    using read_password_line [OF _ r] by simp_all
  have e: "ch = None \<and> pw = [] \<longleftrightarrow> W = []"
    using r by (cases W) (auto simp: read_password.simps [of 0] split: if_splits prod.splits)
  define res where "res = (if ch = None \<and> pw = [] then None else Some (takeWhile (\<lambda>x. x \<noteq> NUL) pw))"
  have res: "res = (if W = [] then None
      else Some (takeWhile (\<lambda>x. x \<noteq> NUL) (take 127 (takeWhile (\<lambda>x. \<not> line_end x) W))))"
    unfolding res_def e using l(1) by simp
  have [simp]: "getattr_ok (fputs f w d) = getattr_ok d" "setattr_ok (fputs f w d) = setattr_ok d"
    "restore_ok (fputs f w d) = restore_ok d" "echo (fputs f w d) = echo d" "input (fputs f w d) = input d" for f w d
    by (simp_all add: fputs_def)
  show ?thesis
    unfolding inp_def [symmetric] W_def [symmetric] Let_def res [symmetric] l(2) [symmetric] getpass_def
    by (cases prompt) (simp_all add: W_def [symmetric] r res_def [symmetric])
qed

end
