(* ===== verification/TextBuffer.thy ===== *)
theory TextBuffer
  imports Prelude
begin

text \<open>
  The text buffer of evim and the pure line scans over it (\<open>vim_text.c\<close>, \<open>vim_util.c\<close>): the
  boundaries of the line around a pointer, line counting and line lookup, tab stops and display
  columns. \<open>tbuf\<close> holds the globals \<open>text\<close>/\<open>end\<close>/\<open>text_size\<close>: \<open>mem\<close> gives the bytes by their
  offset from \<open>text\<close>, \<open>tend\<close> is \<open>end - text\<close>.
\<close>

record tbuf =
  mem :: "int \<Rightarrow> char"
  tend :: int
  tsize :: int

text \<open>The live bytes, as a list: the abstract value of the buffer.\<close>

definition span :: "(int \<Rightarrow> char) \<Rightarrow> int \<Rightarrow> nat \<Rightarrow> string" where
  "span m p n = map (\<lambda>i. m (p + int i)) [0..<n]"

definition content :: "tbuf \<Rightarrow> string" where
  "content t = span (mem t) 0 (nat (tend t))"

lemma length_span [simp]: "length (span m p n) = n"
  by (simp add: span_def)

lemma nth_span [simp]: "i < n \<Longrightarrow> span m p n ! i = m (p + int i)"
  by (simp add: span_def)

lemma length_content [simp]: "length (content t) = nat (tend t)"
  by (simp add: content_def)

lemma nth_content: "i < nat (tend t) \<Longrightarrow> content t ! i = mem t (int i)"
  by (simp add: content_def)

lemma span_Suc: "span m p (Suc n) = span m p n @ [m (p + int n)]"
  by (simp add: span_def)

subsection \<open>Byte scans\<close>

fun memrchr :: "(int \<Rightarrow> char) \<Rightarrow> ptr \<Rightarrow> char \<Rightarrow> nat \<Rightarrow> ptr option" where
  "memrchr m s c 0 = None"
| "memrchr m s c (Suc n) = (if m (s + int n) = c then Some (s + int n) else memrchr m s c n)"

fun memchr :: "(int \<Rightarrow> char) \<Rightarrow> ptr \<Rightarrow> char \<Rightarrow> nat \<Rightarrow> ptr option" where
  "memchr m s c 0 = None"
| "memchr m s c (Suc n) = (if m s = c then Some s else memchr m (s + 1) c n)"

subsection \<open>Text movement\<close>

definition begin_line :: "tbuf \<Rightarrow> ptr \<Rightarrow> ptr" where
  "begin_line t p =
     (if p > 0 then
        (case memrchr (mem t) 0 NL (nat p) of None \<Rightarrow> 0 | Some q \<Rightarrow> q + 1)
      else p)"

definition end_line :: "tbuf \<Rightarrow> ptr \<Rightarrow> ptr" where
  "end_line t p =
     (if p < tend t - 1 then
        (case memchr (mem t) p NL (nat (tend t - p - 1)) of None \<Rightarrow> tend t - 1 | Some q \<Rightarrow> q)
      else p)"

definition dollar_line :: "tbuf \<Rightarrow> ptr \<Rightarrow> ptr" where
  "dollar_line t p =
     (let q = end_line t p
      in if mem t q = NL \<and> q - begin_line t q > 0 then q - 1 else q)"

definition prev_line :: "tbuf \<Rightarrow> ptr \<Rightarrow> ptr" where
  "prev_line t p =
     (let q = begin_line t p;
          q' = (if q > 0 \<and> mem t (q - 1) = NL then q - 1 else q)
      in begin_line t q')"

definition next_line :: "tbuf \<Rightarrow> ptr \<Rightarrow> ptr" where
  "next_line t p =
     (let q = end_line t p
      in if q < tend t - 1 \<and> mem t q = NL then q + 1 else q)"

definition end_screen :: "tbuf \<Rightarrow> ptr \<Rightarrow> int \<Rightarrow> ptr" where
  "end_screen t screenbegin rows =
     end_line t ((next_line t ^^ nat (rows - 2)) screenbegin)"

subsection \<open>Scan lemmas\<close>

lemma all_in_Suc_top:
  "(\<forall>r. s \<le> r \<and> r < s + int (Suc n) \<longrightarrow> P r) \<longleftrightarrow>
   P (s + int n) \<and> (\<forall>r. s \<le> r \<and> r < s + int n \<longrightarrow> P r)"
proof -
  have "(s \<le> r \<and> r < s + int (Suc n)) = (r = s + int n \<or> (s \<le> r \<and> r < s + int n))" for r
    by auto
  then show ?thesis
    by (simp only:) blast
qed

lemma all_in_Suc_bot:
  "(\<forall>r. s \<le> r \<and> r < s + int (Suc n) \<longrightarrow> P r) \<longleftrightarrow>
   P s \<and> (\<forall>r. s + 1 \<le> r \<and> r < s + 1 + int n \<longrightarrow> P r)"
proof -
  have "(s \<le> r \<and> r < s + int (Suc n)) = (r = s \<or> (s + 1 \<le> r \<and> r < s + 1 + int n))" for r
    by auto
  then show ?thesis
    by (simp only:) blast
qed

lemma memrchr_None: "memrchr m s c n = None \<longleftrightarrow> (\<forall>r. s \<le> r \<and> r < s + int n \<longrightarrow> m r \<noteq> c)"
  by (induction n) (simp_all only: memrchr.simps all_in_Suc_top, auto)

lemma memchr_None: "memchr m s c n = None \<longleftrightarrow> (\<forall>r. s \<le> r \<and> r < s + int n \<longrightarrow> m r \<noteq> c)"
  by (induction n arbitrary: s) (simp_all only: memchr.simps all_in_Suc_bot, auto)

lemma memrchr_Some:
  "memrchr m s c n = Some q \<Longrightarrow>
   s \<le> q \<and> q < s + int n \<and> m q = c \<and> (\<forall>r. q < r \<and> r < s + int n \<longrightarrow> m r \<noteq> c)"
proof (induction n)
  case (Suc n)
  show ?case
  proof (cases "m (s + int n) = c")
    case False
    with Suc have *: "s \<le> q \<and> q < s + int n \<and> m q = c \<and> (\<forall>r. q < r \<and> r < s + int n \<longrightarrow> m r \<noteq> c)"
      by simp
    have "m r \<noteq> c" if "q < r" "r < s + int (Suc n)" for r
      using that * False by (cases "r = s + int n") auto
    with * show ?thesis by auto
  qed (use Suc.prems in auto)
qed simp

lemma memchr_Some:
  "memchr m s c n = Some q \<Longrightarrow>
   s \<le> q \<and> q < s + int n \<and> m q = c \<and> (\<forall>r. s \<le> r \<and> r < q \<longrightarrow> m r \<noteq> c)"
proof (induction n arbitrary: s)
  case (Suc n)
  show ?case
  proof (cases "m s = c")
    case False
    with Suc.prems Suc.IH [of "s + 1"] have
      *: "s + 1 \<le> q \<and> q < s + 1 + int n \<and> m q = c \<and> (\<forall>r. s + 1 \<le> r \<and> r < q \<longrightarrow> m r \<noteq> c)"
      by simp
    have "m r \<noteq> c" if "s \<le> r" "r < q" for r
      using that * False by (cases "r = s") auto
    with * show ?thesis by auto
  qed (use Suc.prems in auto)
qed simp

subsection \<open>Line boundaries\<close>

lemma begin_line_at_0 [simp]: "begin_line t 0 = 0"
  by (simp add: begin_line_def)

lemma begin_line_neg: "p \<le> 0 \<Longrightarrow> begin_line t p = p"
  by (simp add: begin_line_def)

lemma begin_line_le [motion_bounds]: "begin_line t p \<le> p"
  by (auto simp: begin_line_def split: option.split dest!: memrchr_Some)

lemma begin_line_nonneg [motion_bounds]: "0 \<le> p \<Longrightarrow> 0 \<le> begin_line t p"
  by (auto simp: begin_line_def split: option.split dest!: memrchr_Some)

lemma begin_line_start: "0 \<le> p \<Longrightarrow> begin_line t p = 0 \<or> mem t (begin_line t p - 1) = NL"
  by (auto simp: begin_line_def split: option.split dest!: memrchr_Some)

lemma begin_line_no_NL: "0 \<le> p \<Longrightarrow> begin_line t p \<le> r \<Longrightarrow> r < p \<Longrightarrow> mem t r \<noteq> NL"
  by (auto simp: begin_line_def memrchr_None split: option.splits if_splits dest!: memrchr_Some)

lemma begin_line_unique:
  assumes "0 \<le> b" and "b \<le> p" and "b = 0 \<or> mem t (b - 1) = NL"
    and "\<And>r. b \<le> r \<Longrightarrow> r < p \<Longrightarrow> mem t r \<noteq> NL"
  shows "begin_line t p = b"
proof (rule order_antisym; rule ccontr)
  have p: "0 \<le> p" using assms(1,2) by simp
  show False if "\<not> begin_line t p \<le> b"
    using that assms(1) assms(4) [of "begin_line t p - 1"] begin_line_start [OF p, of t]
      begin_line_le [of t p] by auto
  show False if "\<not> b \<le> begin_line t p"
    using that assms(2,3) begin_line_no_NL [OF p, of t "b - 1"] begin_line_nonneg [OF p, of t]
    by auto
qed

lemma end_line_ge [motion_bounds]: "p \<le> end_line t p"
  by (auto simp: end_line_def split: option.split dest!: memchr_Some)

lemma end_line_lt [motion_bounds]: "p < tend t \<Longrightarrow> end_line t p < tend t"
  by (auto simp: end_line_def split: option.split dest!: memchr_Some)

lemma end_line_stop: "p < tend t \<Longrightarrow> end_line t p = tend t - 1 \<or> mem t (end_line t p) = NL"
  by (auto simp: end_line_def split: option.split dest!: memchr_Some)

lemma end_line_no_NL: "p \<le> r \<Longrightarrow> r < end_line t p \<Longrightarrow> mem t r \<noteq> NL"
  by (auto simp: end_line_def memchr_None split: option.splits if_splits dest!: memchr_Some)

lemma end_line_beyond: "tend t - 1 \<le> p \<Longrightarrow> end_line t p = p"
  by (simp add: end_line_def)


lemma end_line_unique:
  assumes "p \<le> e" and "e < tend t" and "e = tend t - 1 \<or> mem t e = NL"
    and "\<And>r. p \<le> r \<Longrightarrow> r < e \<Longrightarrow> mem t r \<noteq> NL"
  shows "end_line t p = e"
proof (rule order_antisym; rule ccontr)
  have p: "p < tend t" using assms(1,2) by simp
  show False if "\<not> end_line t p \<le> e"
    using that assms(1,3) end_line_no_NL [of p e t] end_line_lt [OF p] by auto
  show False if "\<not> e \<le> end_line t p"
    using that assms(2) assms(4) [of "end_line t p"] end_line_stop [OF p] end_line_ge [of p t]
    by auto
qed

text \<open>All positions of one line agree on its two ends.\<close>

lemma begin_line_same:
  assumes "0 \<le> p" and "begin_line t p \<le> r" and "r \<le> end_line t p" and "p < tend t"
  shows "begin_line t r = begin_line t p"
proof (rule begin_line_unique)
  show "mem t x \<noteq> NL" if "begin_line t p \<le> x" "x < r" for x
    using that assms begin_line_no_NL [of p t x] end_line_no_NL [of p x t] by (cases "x < p") auto
qed (use assms begin_line_nonneg [of p t] begin_line_start [of p t] in auto)

lemma end_line_same:
  assumes "0 \<le> p" and "begin_line t p \<le> r" and "r \<le> end_line t p" and "p < tend t"
  shows "end_line t r = end_line t p"
proof (rule end_line_unique)
  show "mem t x \<noteq> NL" if "r \<le> x" "x < end_line t p" for x
    using that assms begin_line_no_NL [of p t x] end_line_no_NL [of p x t] by (cases "x < p") auto
qed (use assms end_line_lt [of p t] end_line_stop [of p t] in auto)

lemma begin_line_end_line:
  "0 \<le> p \<Longrightarrow> p < tend t \<Longrightarrow> begin_line t (end_line t p) = begin_line t p"
  using begin_line_same [of p t "end_line t p"] begin_line_le [of t p] end_line_ge [of p t] by simp

lemma end_line_begin_line:
  "0 \<le> p \<Longrightarrow> p < tend t \<Longrightarrow> end_line t (begin_line t p) = end_line t p"
  using end_line_same [of p t "begin_line t p"] begin_line_le [of t p] end_line_ge [of p t] by simp

lemma begin_line_idem [simp]: "begin_line t (begin_line t p) = begin_line t p"
proof (cases "0 \<le> p")
  case True
  show ?thesis
    by (rule begin_line_unique) (use True begin_line_nonneg [of p t] begin_line_start [of p t] in auto)
qed (simp add: begin_line_neg)

lemma end_line_idem [simp]: "end_line t (end_line t p) = end_line t p"
proof (cases "p < tend t")
  case True
  show ?thesis
    by (rule end_line_unique) (use True end_line_lt [of p t] end_line_stop [of p t] in auto)
qed (simp add: end_line_beyond)

text \<open>The bounds of the derived movements.\<close>

lemma dollar_line_bounds [motion_bounds]:
  "0 \<le> p \<Longrightarrow> p < tend t \<Longrightarrow> begin_line t p \<le> dollar_line t p \<and> dollar_line t p < tend t"
  using end_line_lt [of p t] end_line_ge [of p t] begin_line_le [of t p]
  by (auto simp: dollar_line_def Let_def begin_line_end_line)

lemma prev_line_bounds [motion_bounds]: "0 \<le> p \<Longrightarrow> 0 \<le> prev_line t p \<and> prev_line t p \<le> p"
  unfolding prev_line_def Let_def
  using begin_line_le [of t p] begin_line_nonneg [of p t]
    begin_line_le [of t "begin_line t p - 1"] begin_line_nonneg [of "begin_line t p - 1" t]
  by auto

lemma next_line_ge [motion_bounds]: "p \<le> next_line t p"
  unfolding next_line_def Let_def using end_line_ge [of p t] by auto

lemma next_line_lt [motion_bounds]: "p < tend t \<Longrightarrow> next_line t p < tend t"
  unfolding next_line_def Let_def using end_line_lt [of p t] by auto

lemma next_line_beyond: "tend t - 1 \<le> p \<Longrightarrow> next_line t p = p"
  by (simp add: next_line_def Let_def end_line_beyond)

text \<open>\<open>next_line\<close> lands on the first character of the next line, or on the last byte of the text.\<close>

lemma next_line_start:
  assumes "0 \<le> p" and "next_line t p \<noteq> end_line t p"
  shows "mem t (next_line t p - 1) = NL" and "begin_line t (next_line t p) = next_line t p"
proof -
  have n: "next_line t p = end_line t p + 1" and nl: "mem t (end_line t p) = NL"
    using assms(2) by (auto simp: next_line_def Let_def split: if_splits)
  show "mem t (next_line t p - 1) = NL" using n nl by simp
  show "begin_line t (next_line t p) = next_line t p"
    by (rule begin_line_unique) (use n nl assms(1) end_line_ge [of p t] in auto)
qed

lemma prev_line_start: "0 \<le> p \<Longrightarrow> begin_line t (prev_line t p) = prev_line t p"
  by (simp add: prev_line_def Let_def)


subsection \<open>Line counting and line lookup\<close>

function count_lines_from :: "tbuf \<Rightarrow> ptr \<Rightarrow> ptr \<Rightarrow> int \<Rightarrow> int" where
  "count_lines_from t start stop cnt =
     (if start \<le> stop \<and> start \<le> tend t - 1 then
        (let e = end_line t start
         in count_lines_from t (e + 1) stop (if mem t e = NL then cnt + 1 else cnt))
      else cnt)"
  by pat_completeness auto
termination
proof (relation "measure (\<lambda>(t, start, stop, cnt). nat (stop + 1 - start))")
  fix t start stop cnt x
  assume "start \<le> stop \<and> start \<le> tend t - 1" and "(x::int) = end_line t start"
  then show "((t, x + 1, stop, if mem t x = NL then cnt + 1 else cnt), (t, start, stop, cnt))
      \<in> measure (\<lambda>(t, start, stop, cnt). nat (stop + 1 - start))"
    using end_line_ge [of start t] by auto
qed simp

declare count_lines_from.simps [simp del]

definition count_lines :: "tbuf \<Rightarrow> ptr \<Rightarrow> ptr \<Rightarrow> int" where
  "count_lines t start stop =
     (let a = (if stop < start then stop else start);
          b = (if stop < start then start else stop)
      in count_lines_from t a (end_line t b) 0)"

definition find_line :: "tbuf \<Rightarrow> int \<Rightarrow> ptr" where
  "find_line t li = (next_line t ^^ nat (li - 1)) 0"

text \<open>The number of newlines in \<open>[a, b)\<close>, the measure both routines are specified against.\<close>

definition nlcount :: "tbuf \<Rightarrow> ptr \<Rightarrow> ptr \<Rightarrow> int" where
  "nlcount t a b = int (card {r. a \<le> r \<and> r < b \<and> mem t r = NL})"

lemma finite_nl_set [simp]: "finite {r::int. a \<le> r \<and> r < b \<and> P r}"
  by (rule finite_subset [of _ "{a..<b}"]) auto

lemma nlcount_nonneg [simp]: "0 \<le> nlcount t a b"
  by (simp add: nlcount_def)

lemma nlcount_empty [simp]: "b \<le> a \<Longrightarrow> nlcount t a b = 0"
  by (auto simp: nlcount_def)

lemma nlcount_split:
  assumes "a \<le> b" and "b \<le> c"
  shows "nlcount t a c = nlcount t a b + nlcount t b c"
proof -
  let ?A = "{r. a \<le> r \<and> r < b \<and> mem t r = NL}" and ?B = "{r. b \<le> r \<and> r < c \<and> mem t r = NL}"
  have "{r. a \<le> r \<and> r < c \<and> mem t r = NL} = ?A \<union> ?B"
    using assms by auto
  moreover have "card (?A \<union> ?B) = card ?A + card ?B"
    by (rule card_Un_disjoint) auto
  ultimately show ?thesis
    by (simp only: nlcount_def of_nat_add)
qed

lemma nlcount_one: "nlcount t a (a + 1) = (if mem t a = NL then 1 else 0)"
proof -
  have "{r. a \<le> r \<and> r < a + 1 \<and> mem t r = NL} = (if mem t a = NL then {a} else {})"
    by auto
  then show ?thesis by (simp add: nlcount_def)
qed

lemma nlcount_none: "(\<And>r. a \<le> r \<Longrightarrow> r < b \<Longrightarrow> mem t r \<noteq> NL) \<Longrightarrow> nlcount t a b = 0"
  by (auto simp: nlcount_def)

lemma nlcount_to_end_line:
  "p < tend t \<Longrightarrow> nlcount t p (end_line t p + 1) = (if mem t (end_line t p) = NL then 1 else 0)"
  using nlcount_split [of p "end_line t p" "end_line t p + 1" t]
    nlcount_none [of p "end_line t p" t] end_line_ge [of p t] end_line_no_NL [of p _ t]
  by (simp add: nlcount_one)

lemma count_lines_from_nlcount:
  "stop < tend t \<Longrightarrow> stop = end_line t stop \<Longrightarrow>
   count_lines_from t start stop cnt = cnt + nlcount t start (stop + 1)"
proof (induction t start stop cnt rule: count_lines_from.induct)
  case (1 t start stop cnt)
  let ?e = "end_line t start"
  show ?case
  proof (cases "start \<le> stop")
    case True
    have le: "?e \<le> stop"
    proof (rule ccontr)
      assume "\<not> ?e \<le> stop"
      then show False
        using True 1(2,3) end_line_no_NL [of start stop t] end_line_stop [of stop t]
          end_line_lt [of start t] by auto
    qed
    have "count_lines_from t start stop cnt =
        count_lines_from t (?e + 1) stop (if mem t ?e = NL then cnt + 1 else cnt)"
      using True 1(2) by (subst count_lines_from.simps) (simp add: Let_def)
    also have "\<dots> = (if mem t ?e = NL then cnt + 1 else cnt) + nlcount t (?e + 1) (stop + 1)"
      using 1(1) [OF _ refl] True 1(2,3) by simp
    also have "\<dots> = cnt + nlcount t start (stop + 1)"
      using nlcount_split [of start "?e + 1" "stop + 1" t] le end_line_ge [of start t]
        nlcount_to_end_line [of start t] True 1(2) by simp
    finally show ?thesis .
  next
    case False
    then show ?thesis by (subst count_lines_from.simps) simp
  qed
qed

lemma count_lines_nlcount:
  "start \<le> stop \<Longrightarrow> stop < tend t \<Longrightarrow>
   count_lines t start stop = nlcount t start (end_line t stop + 1)"
  by (simp add: count_lines_def Let_def count_lines_from_nlcount end_line_lt)

lemma find_line_bounds [motion_bounds]: "0 < tend t \<Longrightarrow> 0 \<le> find_line t li \<and> find_line t li < tend t"
proof -
  have "0 \<le> (next_line t ^^ n) 0 \<and> (next_line t ^^ n) 0 < tend t" if "0 < tend t" for n
  proof (induction n)
    case (Suc n)
    then show ?case
      using that next_line_ge [of "(next_line t ^^ n) 0" t] next_line_lt [of "(next_line t ^^ n) 0" t]
      by simp
  qed (use that in simp)
  then show "0 < tend t \<Longrightarrow> ?thesis" by (simp add: find_line_def)
qed

text \<open>
  \<open>find_line n\<close> is the start of the \<open>n\<close>-th line as long as the text has \<open>n\<close> terminated lines:
  exactly \<open>n - 1\<close> newlines lie before it.
\<close>

lemma find_line_Suc: "find_line t (int n + 2) = next_line t (find_line t (int n + 1))"
  by (simp add: find_line_def nat_add_distrib)

lemma find_line_nlcount:
  "int n < nlcount t 0 (tend t) \<Longrightarrow>
   begin_line t (find_line t (int n + 1)) = find_line t (int n + 1) \<and>
   0 \<le> find_line t (int n + 1) \<and> find_line t (int n + 1) < tend t \<and>
   nlcount t 0 (find_line t (int n + 1)) = int n"
proof (induction n)
  case 0
  then show ?case
    by (cases "0 < tend t") (auto simp: find_line_def)
next
  case (Suc n)
  let ?q = "find_line t (int n + 1)"
  have q: "begin_line t ?q = ?q" "0 \<le> ?q" "?q < tend t" "nlcount t 0 ?q = int n"
    using Suc by auto
  let ?e = "end_line t ?q"
  have e: "?q \<le> ?e" "?e < tend t" using q end_line_ge [of ?q t] end_line_lt [of ?q t] by auto
  have split: "nlcount t 0 (tend t) = int n + nlcount t ?q (?e + 1) + nlcount t (?e + 1) (tend t)"
    using nlcount_split [of 0 ?q "tend t" t] nlcount_split [of ?q "?e + 1" "tend t" t] q e by simp
  have more: "mem t ?e = NL \<and> ?e < tend t - 1"
  proof (rule ccontr)
    assume "\<not> (mem t ?e = NL \<and> ?e < tend t - 1)"
    then have "tend t \<le> ?e + 1" using end_line_stop [OF q(3)] e(2) by auto
    then show False
      using split Suc.prems nlcount_to_end_line [OF q(3)] by (simp split: if_splits)
  qed
  then have nx: "next_line t ?q = ?e + 1" by (simp add: next_line_def Let_def)
  moreover have "nlcount t 0 (?e + 1) = int n + 1"
    using nlcount_split [of 0 ?q "?e + 1" t] nlcount_to_end_line [OF q(3)] more q e by simp
  moreover have "begin_line t (?e + 1) = ?e + 1"
    by (rule begin_line_unique) (use more e q in auto)
  ultimately show ?case
    using more e q find_line_Suc [of t n] by (simp add: algebra_simps)
qed

text \<open>The two routines are inverse to each other on the terminated lines.\<close>

lemma nlcount_begin_line: "0 \<le> p \<Longrightarrow> nlcount t 0 p = nlcount t 0 (begin_line t p)"
  using nlcount_split [of 0 "begin_line t p" p t] begin_line_nonneg [of p t] begin_line_le [of t p]
    nlcount_none [of "begin_line t p" p t] begin_line_no_NL [of p t] by simp

lemma line_start_inj:
  assumes "0 \<le> a" and "0 \<le> b" and "begin_line t a = a" and "begin_line t b = b"
    and "nlcount t 0 a = nlcount t 0 b"
  shows "a = b"
proof -
  have False if "0 \<le> x" "x < y" "begin_line t y = y" "nlcount t 0 x = nlcount t 0 y" for x y
  proof -
    have "mem t (y - 1) = NL" using begin_line_start [of y t] that by auto
    then have "nlcount t (y - 1) y = 1" using nlcount_one [of t "y - 1"] by simp
    then show False
      using nlcount_split [of 0 x y t] nlcount_split [of x "y - 1" y t] that
        nlcount_nonneg [of t x "y - 1"] by simp
  qed
  with assms show ?thesis by (metis linorder_neqE)
qed


lemma count_lines_begin:
  assumes "0 \<le> p" and "p < tend t" and "mem t (end_line t p) = NL"
  shows "count_lines t 0 p = nlcount t 0 (begin_line t p) + 1"
proof -
  have "count_lines t 0 p = nlcount t 0 p + nlcount t p (end_line t p + 1)"
    using assms(1,2) nlcount_split [of 0 p "end_line t p + 1" t] end_line_ge [of p t]
    by (simp add: count_lines_nlcount)
  then show ?thesis
    using assms nlcount_to_end_line [of p t] nlcount_begin_line [of p t] by simp
qed

lemma find_line_of_count:
  assumes "0 \<le> p" and "p < tend t" and "mem t (end_line t p) = NL"
  shows "find_line t (count_lines t 0 p) = begin_line t p"
proof -
  let ?b = "begin_line t p"
  define n where "n = nat (nlcount t 0 ?b)"
  have c: "count_lines t 0 p = int n + 1"
    using count_lines_begin [OF assms] by (simp add: n_def)
  have "nlcount t 0 (end_line t p + 1) \<le> nlcount t 0 (tend t)"
    using nlcount_split [of 0 "end_line t p + 1" "tend t" t] assms end_line_ge [of p t]
      end_line_lt [of p t] by simp
  moreover have "nlcount t 0 (end_line t p + 1) = int n + 1"
    using c count_lines_nlcount [of 0 p t] assms(1,2) by simp
  ultimately have "int n < nlcount t 0 (tend t)" by simp
  from find_line_nlcount [OF this] c
  show ?thesis
    using line_start_inj [of "find_line t (int n + 1)" ?b t] begin_line_nonneg [OF assms(1), of t]
    by (simp add: n_def)
qed

lemma count_of_find_line:
  assumes "1 \<le> li" and "li \<le> nlcount t 0 (tend t)"
  shows "count_lines t 0 (find_line t li) = li"
proof -
  define n where "n = nat (li - 1)"
  have n: "li = int n + 1" and lt: "int n < nlcount t 0 (tend t)" using assms by (auto simp: n_def)
  let ?q = "find_line t (int n + 1)"
  note f = find_line_nlcount [OF lt]
  have "nlcount t 0 (tend t) = int n + nlcount t ?q (end_line t ?q + 1) + nlcount t (end_line t ?q + 1) (tend t)"
    using nlcount_split [of 0 ?q "tend t" t] nlcount_split [of ?q "end_line t ?q + 1" "tend t" t] f
      end_line_ge [of ?q t] end_line_lt [of ?q t] by simp
  then have "mem t (end_line t ?q) = NL"
    using lt f nlcount_to_end_line [of ?q t] end_line_stop [of ?q t]
      nlcount_empty [of "tend t" "end_line t ?q + 1" t] by (auto split: if_splits)
  then show ?thesis
    using count_lines_begin [of ?q t] f n by simp
qed

subsection \<open>Columns\<close>

definition next_tabstop :: "int \<Rightarrow> int \<Rightarrow> int" where
  "next_tabstop tabstop col = col + ((tabstop - 1) - (col mod tabstop))"

definition prev_tabstop :: "int \<Rightarrow> int \<Rightarrow> int" where
  "prev_tabstop tabstop col =
     col - (if col mod tabstop \<noteq> 0 then col mod tabstop else tabstop)"

definition next_column :: "int \<Rightarrow> char \<Rightarrow> int \<Rightarrow> int" where
  "next_column tabstop c co =
     (let co' = (if c = TAB then next_tabstop tabstop co
                 else if cval c < 32 \<or> cval c = 127 then co + 1
                 else co)
      in co' + 1)"

fun columns_from :: "int \<Rightarrow> tbuf \<Rightarrow> ptr \<Rightarrow> nat \<Rightarrow> int \<Rightarrow> int" where
  "columns_from tabstop t r 0 co = co"
| "columns_from tabstop t r (Suc n) co = columns_from tabstop t (r + 1) n (next_column tabstop (mem t r) co)"

definition get_column :: "int \<Rightarrow> tbuf \<Rightarrow> ptr \<Rightarrow> int" where
  "get_column tabstop t p =
     (let b = begin_line t p in columns_from tabstop t b (nat (p - b)) 0)"

text \<open>
  \<open>do { if (*p == '\n') break; co = next_column(*p, co); } while (co <= l && p++ < end)\<close>: the
  last increment happens even when the comparison with \<open>end\<close> fails.
\<close>

function move_to_col_from :: "int \<Rightarrow> tbuf \<Rightarrow> ptr \<Rightarrow> int \<Rightarrow> int \<Rightarrow> ptr" where
  "move_to_col_from tabstop t p l co =
     (if mem t p = NL then p
      else let co' = next_column tabstop (mem t p) co
           in if co' \<le> l
              then if p < tend t then move_to_col_from tabstop t (p + 1) l co' else p + 1
              else p)"
  by pat_completeness auto
termination
  by (relation "measure (\<lambda>(ts, t, p, l, co). nat (tend t - p))") auto

declare move_to_col_from.simps [simp del]

definition move_to_col :: "int \<Rightarrow> tbuf \<Rightarrow> ptr \<Rightarrow> int \<Rightarrow> ptr" where
  "move_to_col tabstop t p l = move_to_col_from tabstop t (begin_line t p) l 0"

lemma next_tabstop_bounds:
  "0 < tabstop \<Longrightarrow> col \<le> next_tabstop tabstop col \<and> next_tabstop tabstop col < col + tabstop"
proof -
  assume "0 < tabstop"
  then have "0 \<le> col mod tabstop" and "col mod tabstop < tabstop"
    by (rule pos_mod_sign, rule pos_mod_bound)
  then show ?thesis unfolding next_tabstop_def by linarith
qed

lemma next_column_gt: "0 < tabstop \<Longrightarrow> co < next_column tabstop c co"
  using next_tabstop_bounds [of tabstop co] by (auto simp: next_column_def Let_def)

lemma next_column_tab_aligned:
  assumes "0 < tabstop"
  shows "next_column tabstop TAB co mod tabstop = 0"
proof -
  have "co - co mod tabstop = tabstop * (co div tabstop)"
    by (simp add: minus_mod_eq_mult_div)
  then have "next_column tabstop TAB co = tabstop * (co div tabstop + 1)"
    by (simp add: next_column_def next_tabstop_def algebra_simps)
  then show ?thesis by simp
qed

lemma move_to_col_from_bounds:
  "move_to_col_from tabstop t p l co \<ge> p \<and>
   (p \<le> tend t \<longrightarrow> move_to_col_from tabstop t p l co \<le> tend t + 1)"
proof (induction tabstop t p l co rule: move_to_col_from.induct)
  case (1 tabstop t p l co)
  then show ?case
    by (subst (1 2) move_to_col_from.simps) (auto simp: Let_def)
qed

lemma move_to_col_bounds [motion_bounds]:
  "0 \<le> p \<Longrightarrow> p \<le> tend t \<Longrightarrow> 0 \<le> move_to_col tabstop t p l \<and> move_to_col tabstop t p l \<le> tend t + 1"
  using move_to_col_from_bounds [of "begin_line t p" tabstop t l 0] begin_line_le [of t p]
    begin_line_nonneg [of p t] by (auto simp: move_to_col_def)

subsection \<open>A concrete text\<close>

definition text_of :: "string \<Rightarrow> tbuf" where
  "text_of w = \<lparr>mem = (\<lambda>i. if 0 \<le> i \<and> i < int (length w) then w ! nat i else NUL), tend = int (length w), tsize = 10240\<rparr>"

lemma columns_from_mono:
  assumes "0 < ts"
  shows "co \<le> columns_from ts t r n co"
proof (induction n arbitrary: r co)
  case (Suc n)
  have "co \<le> next_column ts (mem t r) co" using next_column_gt [OF assms, of co "mem t r"] by simp
  then show ?case using order_trans [OF _ Suc.IH] by simp
qed simp

lemma move_to_col_from_column:
  assumes "0 < ts" and "\<And>i. r \<le> i \<Longrightarrow> i < r + int n \<Longrightarrow> mem t i \<noteq> NL" and "r + int n \<le> tend t"
  shows "move_to_col_from ts t r (columns_from ts t r n co) co = r + int n"
  using assms(2,3)
proof (induction n arbitrary: r co)
  case 0
  show ?case
    using next_column_gt [OF assms(1), of co "mem t r"] by (subst move_to_col_from.simps) (simp add: Let_def)
next
  case (Suc n)
  define l where "l = columns_from ts t (r + 1) n (next_column ts (mem t r) co)"
  have "mem t r \<noteq> NL" using Suc.prems(1) [of r] by simp
  moreover have "next_column ts (mem t r) co \<le> l" using columns_from_mono [OF assms(1)] by (simp add: l_def)
  moreover have "r < tend t" using Suc.prems(2) by simp
  ultimately have "move_to_col_from ts t r l co = move_to_col_from ts t (r + 1) l (next_column ts (mem t r) co)"
    by (subst move_to_col_from.simps) (simp add: Let_def)
  also have "\<dots> = r + 1 + int n"
    unfolding l_def by (rule Suc.IH) (use Suc.prems in auto)
  finally show ?case by (simp add: l_def)
qed

text \<open>
  C16. \<open>move_to_col\<close> inverts \<open>get_column\<close>: asked for the display column where a character starts, it
  finds that character on its line, tabs and control characters in between included.
\<close>

theorem column_roundtrip:
  assumes "0 < ts" and "0 \<le> p" and "p < tend t"
  shows "move_to_col ts t p (get_column ts t p) = p"
proof -
  have "p = begin_line t p + int (nat (p - begin_line t p))" using begin_line_le [of t p] by simp
  moreover have "move_to_col_from ts t (begin_line t p) (columns_from ts t (begin_line t p) (nat (p - begin_line t p)) 0) 0 =
      begin_line t p + int (nat (p - begin_line t p))"
    by (rule move_to_col_from_column)
      (use assms begin_line_no_NL [OF assms(2), of t] begin_line_le [of t p] in auto)
  ultimately show ?thesis by (simp add: move_to_col_def get_column_def Let_def)
qed

theorem column_roundtrip_witness:
  "move_to_col 8 (text_of [TAB, CHR ''a'', NL]) 1 (get_column 8 (text_of [TAB, CHR ''a'', NL]) 1) = 1"
  by (rule column_roundtrip) (simp_all add: text_of_def)

subsection \<open>The text as a list of lines\<close>

text \<open>The \<open>k\<close>-th line, counted from zero, without its newline.\<close>

definition line_text :: "tbuf \<Rightarrow> nat \<Rightarrow> string" where
  "line_text t k = (let b = find_line t (int k + 1) in span (mem t) b (nat (end_line t b - b)))"

lemma span_append: "span m p (a + b) = span m p a @ span m (p + int a) b"
  by (rule nth_equalityI) (auto simp: nth_append)

lemma terminated_line:
  assumes "int k < nlcount t 0 (tend t)" and "mem t (tend t - 1) = NL"
  defines "b \<equiv> find_line t (int k + 1)"
  shows "mem t (end_line t b) = NL" and "end_line t b < tend t" and "b \<le> end_line t b"
    and "find_line t (int (Suc k) + 1) = (if end_line t b = tend t - 1 then end_line t b else end_line t b + 1)"
proof -
  note f = find_line_nlcount [OF assms(1), folded b_def]
  show nl: "mem t (end_line t b) = NL" using end_line_stop [of b t] f assms(2) by auto
  show lt: "end_line t b < tend t" using end_line_lt [of b t] f by simp
  show "b \<le> end_line t b" by (rule end_line_ge)
  have "find_line t (int (Suc k) + 1) = next_line t b"
    using find_line_Suc [of t k] by (simp add: b_def algebra_simps)
  then show "find_line t (int (Suc k) + 1) = (if end_line t b = tend t - 1 then end_line t b else end_line t b + 1)"
    using nl lt by (auto simp: next_line_def Let_def)
qed

lemma lines_up_to:
  assumes "int k < nlcount t 0 (tend t)" and "mem t (tend t - 1) = NL"
  shows "concat (map (\<lambda>i. line_text t i @ [NL]) [0..<Suc k]) =
     span (mem t) 0 (nat (end_line t (find_line t (int k + 1)) + 1))"
  using assms(1)
proof (induction k)
  case 0
  note f = find_line_nlcount [OF 0] and l = terminated_line [OF 0 assms(2)]
  have "nat (end_line t 0 + 1) = Suc (nat (end_line t 0))" using l by (simp add: find_line_def)
  then show ?case using l by (simp add: line_text_def find_line_def span_Suc)
next
  case (Suc k)
  then have k: "int k < nlcount t 0 (tend t)" by simp
  let ?a = "find_line t (int k + 1)" and ?b = "find_line t (int (Suc k) + 1)"
  note f = find_line_nlcount [OF k] find_line_nlcount [OF Suc.prems]
  note l = terminated_line [OF k assms(2)] terminated_line [OF Suc.prems assms(2)]
  have "?b \<noteq> ?a"
  proof
    assume "?b = ?a"
    then have "nlcount t 0 ?b = nlcount t 0 ?a" by simp
    then show False using f by simp
  qed
  have ne: "end_line t ?a \<noteq> tend t - 1"
  proof
    assume e: "end_line t ?a = tend t - 1"
    then have "?b = tend t - 1" using l(4) by simp
    moreover have "nlcount t 0 (tend t) = nlcount t 0 (tend t - 1) + 1"
      using nlcount_split [of 0 "tend t - 1" "tend t" t] nlcount_one [of t "tend t - 1"] assms(2) f by simp
    moreover have "nlcount t 0 (tend t - 1) = int k"
      using nlcount_split [of 0 ?a "tend t - 1" t] nlcount_none [of ?a "tend t - 1" t]
        end_line_no_NL [of ?a _ t] e f l by simp
    ultimately show False using f Suc.prems by simp
  qed
  then have b: "?b = end_line t ?a + 1" using l(4) by simp
  have "nat (end_line t ?b + 1) = nat (end_line t ?a + 1) + Suc (nat (end_line t ?b - ?b))"
  proof -
    have "nat (x + 1) = nat (a + 1) + Suc (nat (x - (a + 1)))" if "0 \<le> a" "a + 1 \<le> x" for a x :: int
      using that by arith
    moreover have "0 \<le> end_line t ?a" "end_line t ?a + 1 \<le> end_line t ?b" using b l f by simp_all
    ultimately show ?thesis by (simp only: b)
  qed
  then have "span (mem t) 0 (nat (end_line t ?b + 1)) =
      span (mem t) 0 (nat (end_line t ?a + 1)) @ line_text t (Suc k) @ [NL]"
    using b l f by (simp only: span_append) (simp add: span_Suc line_text_def Let_def)
  then show ?case using Suc.IH [OF k] by simp
qed

text \<open>
  C8. The line routines see the text as the list of its lines: for a text that ends in a newline,
  the lines that \<open>find_line\<close> and \<open>end_line\<close> delimit, one for every line number up to the count that
  \<open>count_lines\<close> gives, each followed by its newline, are the text; and no line contains a newline.
\<close>

theorem text_is_its_lines:
  assumes "0 < tend t" and "mem t (tend t - 1) = NL"
  defines "n \<equiv> nat (count_lines t 0 (tend t - 1))"
  shows "content t = concat (map (\<lambda>k. line_text t k @ [NL]) [0..<n]) \<and> (\<forall>k < n. NL \<notin> set (line_text t k))"
proof -
  have c: "count_lines t 0 (tend t - 1) = nlcount t 0 (tend t)"
    using count_lines_nlcount [of 0 "tend t - 1" t] assms(1) by (simp add: end_line_beyond)
  have one: "nlcount t 0 (tend t) = nlcount t 0 (tend t - 1) + 1"
    using nlcount_split [of 0 "tend t - 1" "tend t" t] nlcount_one [of t "tend t - 1"] assms(1,2) by simp
  then have "0 < n" using c nlcount_nonneg [of t 0 "tend t - 1"] by (simp add: n_def)
  then obtain k where k: "n = Suc k" by (cases n) auto
  have nk: "int k + 1 = nlcount t 0 (tend t)" using c k nlcount_nonneg [of t 0 "tend t"] by (simp add: n_def)
  then have lt: "int k < nlcount t 0 (tend t)" by simp
  let ?b = "find_line t (int k + 1)"
  note f = find_line_nlcount [OF lt] and l = terminated_line [OF lt assms(2)]
  have "nlcount t 0 (tend t) = int k + 1 + nlcount t (end_line t ?b + 1) (tend t)"
    using nlcount_split [of 0 ?b "tend t" t] nlcount_split [of ?b "end_line t ?b + 1" "tend t" t]
      nlcount_to_end_line [of ?b t] f l by simp
  then have "nlcount t (end_line t ?b + 1) (tend t) = 0" using nk by simp
  moreover have "nlcount t (end_line t ?b + 1) (tend t) = nlcount t (end_line t ?b + 1) (tend t - 1) + 1"
    if "end_line t ?b \<noteq> tend t - 1"
    using that l nlcount_split [of "end_line t ?b + 1" "tend t - 1" "tend t" t] nlcount_one [of t "tend t - 1"] assms(2)
    by simp
  ultimately have "end_line t ?b = tend t - 1"
    using nlcount_nonneg [of t "end_line t ?b + 1" "tend t - 1"] by fastforce
  then have "content t = concat (map (\<lambda>k. line_text t k @ [NL]) [0..<n])"
    using lines_up_to [OF lt assms(2)] k by (simp add: content_def)
  moreover have "NL \<notin> set (line_text t j)" for j
  proof
    assume "NL \<in> set (line_text t j)"
    then obtain x where "x < nat (end_line t (find_line t (int j + 1)) - find_line t (int j + 1))"
      "mem t (find_line t (int j + 1) + int x) = NL" by (auto simp: line_text_def Let_def span_def)
    then show False using end_line_no_NL [of "find_line t (int j + 1)" "find_line t (int j + 1) + int x" t] by simp
  qed
  ultimately show ?thesis by blast
qed

theorem text_is_its_lines_witness:
  "\<exists>n. n = nat (count_lines (text_of (''ab'' @ [NL, CHR ''c'', NL])) 0
         (tend (text_of (''ab'' @ [NL, CHR ''c'', NL])) - 1)) \<and>
     content (text_of (''ab'' @ [NL, CHR ''c'', NL])) =
       concat (map (\<lambda>k. line_text (text_of (''ab'' @ [NL, CHR ''c'', NL])) k @ [NL]) [0..<n]) \<and>
     (\<forall>k < n. NL \<notin> set (line_text (text_of (''ab'' @ [NL, CHR ''c'', NL])) k))"
proof -
  have "0 < tend (text_of (''ab'' @ [NL, CHR ''c'', NL]))" and
    "mem (text_of (''ab'' @ [NL, CHR ''c'', NL])) (tend (text_of (''ab'' @ [NL, CHR ''c'', NL])) - 1) = NL"
    by (simp_all add: text_of_def)
  then show ?thesis using text_is_its_lines by blast
qed

text \<open>
  Line numbers and line starts are inverse to each other: looking up the number that
  \<open>count_lines\<close> gives a position leads to the start of its line, for every position on a line that
  is terminated by a newline.
\<close>

theorem line_number_found:
  assumes "0 \<le> p" and "p < tend t" and "mem t (end_line t p) = NL"
  shows "find_line t (count_lines t 0 p) = begin_line t p \<and>
    count_lines t 0 (find_line t (count_lines t 0 p)) = count_lines t 0 p"
proof
  show f: "find_line t (count_lines t 0 p) = begin_line t p" using assms by (rule find_line_of_count)
  show "count_lines t 0 (find_line t (count_lines t 0 p)) = count_lines t 0 p"
  proof (rule count_of_find_line)
    show "1 \<le> count_lines t 0 p" using count_lines_begin [OF assms] by simp
    have "nlcount t 0 (end_line t p + 1) \<le> nlcount t 0 (tend t)"
      using nlcount_split [of 0 "end_line t p + 1" "tend t" t] assms end_line_ge [of p t] end_line_lt [of p t] by simp
    then show "count_lines t 0 p \<le> nlcount t 0 (tend t)"
      using count_lines_nlcount [of 0 p t] assms by simp
  qed
qed

theorem line_number_found_witness:
  "find_line (text_of [CHR ''a'', NL, CHR ''b'', NL]) (count_lines (text_of [CHR ''a'', NL, CHR ''b'', NL]) 0 2) =
     begin_line (text_of [CHR ''a'', NL, CHR ''b'', NL]) 2 \<and>
   count_lines (text_of [CHR ''a'', NL, CHR ''b'', NL]) 0
     (find_line (text_of [CHR ''a'', NL, CHR ''b'', NL]) (count_lines (text_of [CHR ''a'', NL, CHR ''b'', NL]) 0 2)) =
   count_lines (text_of [CHR ''a'', NL, CHR ''b'', NL]) 0 2"
  by (rule line_number_found) (simp_all add: text_of_def end_line_def)


end
