(* ===== verification/UndoStack.thy ===== *)
theory UndoStack
  imports TextBuffer
begin

text \<open>
  Block insertion and deletion in \<open>text[]\<close> and the undo journal (\<open>vim_text.c\<close>): the stack of
  undo objects with its queue for single typed or erased characters. \<open>ustate\<close> holds the text
  buffer, the queue globals and \<open>modified_count\<close>. The address arithmetic of a moving buffer is
  the subject of theory \<open>Relocation\<close>; here every pointer is an offset from \<open>text\<close>.
\<close>

datatype utype = UNDO_INS | UNDO_DEL | UNDO_INS_CHAIN | UNDO_DEL_CHAIN
  | UNDO_INS_QUEUED | UNDO_DEL_QUEUED | UNDO_EMPTY

datatype undo_mode = NO_UNDO | ALLOW_UNDO | ALLOW_UNDO_CHAIN | ALLOW_UNDO_QUEUED

record undo_object =
  u_start :: int
  u_length :: int
  u_type :: utype
  u_text :: string

record ustate =
  tb :: tbuf
  modified_count :: int
  undo_stack :: "undo_object list"
  undo_queue_state :: utype
  undo_queue_spos :: ptr
  undo_q :: int
  undo_queue :: "int \<Rightarrow> char"

abbreviation VI_UNDO_QUEUE_MAX :: int where
  "VI_UNDO_QUEUE_MAX \<equiv> 32"

subsection \<open>Memory blocks\<close>

definition memmove :: "(int \<Rightarrow> char) \<Rightarrow> ptr \<Rightarrow> ptr \<Rightarrow> int \<Rightarrow> (int \<Rightarrow> char)" where
  "memmove m dst src n = (\<lambda>i. if dst \<le> i \<and> i < dst + n then m (i - dst + src) else m i)"

definition memset :: "(int \<Rightarrow> char) \<Rightarrow> ptr \<Rightarrow> char \<Rightarrow> int \<Rightarrow> (int \<Rightarrow> char)" where
  "memset m p c n = (\<lambda>i. if p \<le> i \<and> i < p + n then c else m i)"

definition memcpy_str :: "(int \<Rightarrow> char) \<Rightarrow> ptr \<Rightarrow> string \<Rightarrow> (int \<Rightarrow> char)" where
  "memcpy_str m p s = (\<lambda>i. if p \<le> i \<and> i < p + int (length s) then s ! nat (i - p) else m i)"

definition set_byte :: "tbuf \<Rightarrow> ptr \<Rightarrow> char \<Rightarrow> tbuf" where
  "set_byte t p c = t\<lparr>mem := (mem t)(p := c)\<rparr>"

subsection \<open>Holes\<close>

definition text_hole_make :: "tbuf \<Rightarrow> ptr \<Rightarrow> int \<Rightarrow> tbuf" where
  "text_hole_make t p sz =
     (if sz \<le> 0 then t
      else
        let e = tend t + sz;
            ts = (if e \<ge> tsize t then tsize t + (e - tsize t + 10240) else tsize t);
            m1 = memmove (mem t) (p + sz) p (e - sz - p);
            m2 = memset m1 p (CHR '' '') sz
        in t\<lparr>mem := m2, tend := e, tsize := ts\<rparr>)"

subsection \<open>The undo journal\<close>

text \<open>The tail of \<open>undo_push\<close>: allocate an object and push it. \<open>from\<close> is the memory \<open>src\<close> points into.\<close>

definition undo_alloc :: "ustate \<Rightarrow> (int \<Rightarrow> char) \<Rightarrow> ptr \<Rightarrow> int \<Rightarrow> utype \<Rightarrow> bool \<Rightarrow> ustate" where
  "undo_alloc u from src len ty use_spos =
     (let del = (ty = UNDO_DEL \<or> ty = UNDO_DEL_CHAIN);
          len' = (if del \<and> len = tend (tb u) then len - 1 else len);
          obj = \<lparr>u_start = (if use_spos then undo_queue_spos u else src),
                 u_length = len', u_type = ty,
                 u_text = (if del then span from src (nat len') else [])\<rparr>
      in u\<lparr>undo_stack := obj # undo_stack u, modified_count := modified_count u + 1\<rparr>)"

definition undo_queue_commit :: "ustate \<Rightarrow> ustate" where
  "undo_queue_commit u =
     (if undo_q u > 0 then
        (undo_alloc u (undo_queue u) (VI_UNDO_QUEUE_MAX - undo_q u) (undo_q u)
           (undo_queue_state u) True)
        \<lparr>undo_queue_state := UNDO_EMPTY, undo_q := 0\<rparr>
      else u)"

definition queue_del :: "ustate \<Rightarrow> ptr \<Rightarrow> ustate" where
  "queue_del u src =
     (let q = undo_q u + 1;
          u' = u\<lparr>undo_queue_spos := src, undo_q := q,
                 undo_queue := (undo_queue u)(VI_UNDO_QUEUE_MAX - q := mem (tb u) src)\<rparr>
      in if q = VI_UNDO_QUEUE_MAX then undo_queue_commit u' else u')"

fun queue_ins :: "nat \<Rightarrow> ustate \<Rightarrow> ustate" where
  "queue_ins 0 u = u"
| "queue_ins (Suc n) u =
     (let u' = u\<lparr>undo_q := undo_q u + 1\<rparr>
      in queue_ins n (if undo_q u' = VI_UNDO_QUEUE_MAX then undo_queue_commit u' else u'))"

text \<open>
  The recursive calls after \<open>undo_queue_commit()\<close> find the state \<open>UNDO_EMPTY\<close> whenever something
  was queued (lemma \<open>commit_empties\<close>), so they are the \<open>UNDO_EMPTY\<close> branch, written out.
\<close>

definition undo_push :: "ustate \<Rightarrow> ptr \<Rightarrow> int \<Rightarrow> utype \<Rightarrow> ustate" where
  "undo_push u src len ty =
     (case ty of
        UNDO_EMPTY \<Rightarrow> u
      | UNDO_DEL_QUEUED \<Rightarrow>
          if len \<noteq> 1 then u
          else (case undo_queue_state u of
                  UNDO_EMPTY \<Rightarrow> queue_del (u\<lparr>undo_queue_state := UNDO_DEL\<rparr>) src
                | UNDO_DEL \<Rightarrow> queue_del u src
                | UNDO_INS \<Rightarrow>
                    queue_del ((undo_queue_commit u)\<lparr>undo_queue_state := UNDO_DEL\<rparr>) src
                | _ \<Rightarrow> undo_alloc u (mem (tb u)) src len ty False)
      | UNDO_INS_QUEUED \<Rightarrow>
          if len < 1 then u
          else (case undo_queue_state u of
                  UNDO_EMPTY \<Rightarrow>
                    queue_ins (nat len) (u\<lparr>undo_queue_state := UNDO_INS, undo_queue_spos := src\<rparr>)
                | UNDO_INS \<Rightarrow> queue_ins (nat len) u
                | UNDO_DEL \<Rightarrow>
                    queue_ins (nat len)
                      ((undo_queue_commit u)\<lparr>undo_queue_state := UNDO_INS, undo_queue_spos := src\<rparr>)
                | _ \<Rightarrow> undo_alloc u (mem (tb u)) src len ty False)
      | _ \<Rightarrow> undo_alloc u (mem (tb u)) src len ty False)"

definition flush_undo_data :: "ustate \<Rightarrow> ustate" where
  "flush_undo_data u = u\<lparr>undo_stack := []\<rparr>"

definition undo_push_insert :: "ustate \<Rightarrow> ptr \<Rightarrow> int \<Rightarrow> undo_mode \<Rightarrow> ustate" where
  "undo_push_insert u p len undo =
     (case undo of
        NO_UNDO \<Rightarrow> u
      | ALLOW_UNDO \<Rightarrow> undo_push u p len UNDO_INS
      | ALLOW_UNDO_CHAIN \<Rightarrow> undo_push u p len UNDO_INS_CHAIN
      | ALLOW_UNDO_QUEUED \<Rightarrow> undo_push u p len UNDO_INS_QUEUED)"

definition undo_push_delete :: "ustate \<Rightarrow> ptr \<Rightarrow> int \<Rightarrow> undo_mode \<Rightarrow> ustate" where
  "undo_push_delete u p len undo =
     (case undo of
        NO_UNDO \<Rightarrow> u
      | ALLOW_UNDO \<Rightarrow> undo_push u p len UNDO_DEL
      | ALLOW_UNDO_CHAIN \<Rightarrow> undo_push u p len UNDO_DEL_CHAIN
      | ALLOW_UNDO_QUEUED \<Rightarrow> undo_push u p len UNDO_DEL_QUEUED)"

text \<open>The buffer part of \<open>text_hole_delete\<close> after its range checks: the new \<open>dest\<close> and buffer.\<close>

definition hole_close :: "tbuf \<Rightarrow> ptr \<Rightarrow> ptr \<Rightarrow> int \<Rightarrow> ptr \<times> tbuf" where
  "hole_close t dest src hole_size =
     (let m = (if src \<ge> tend t then mem t else memmove (mem t) dest src (tend t - src));
          e = tend t - hole_size;
          d = (if dest \<ge> e then e - 1 else dest)
      in if e \<le> 0 then (0, t\<lparr>mem := m, tend := 0\<rparr>) else (d, t\<lparr>mem := m, tend := e\<rparr>))"

definition text_hole_delete :: "ustate \<Rightarrow> ptr \<Rightarrow> ptr \<Rightarrow> undo_mode \<Rightarrow> ptr \<times> ustate" where
  "text_hole_delete u p q undo =
     (let src = (if q < p then p + 1 else q + 1);
          dest = (if q < p then q else p);
          hole_size = q - p + 1;
          u1 = undo_push_delete u p hole_size undo
      in if src < 0 \<or> src > tend (tb u) \<or> dest < 0 \<or> dest \<ge> tend (tb u)
         then (dest, u1\<lparr>modified_count := modified_count u1 - 1\<rparr>)
         else
           (let r = hole_close (tb u1) dest src hole_size
            in (fst r, u1\<lparr>tb := snd r\<rparr>)))"

definition string_insert :: "ustate \<Rightarrow> ptr \<Rightarrow> string \<Rightarrow> undo_mode \<Rightarrow> ustate" where
  "string_insert u p s undo =
     (let i = int (length s);
          u1 = undo_push_insert u p i undo;
          t = text_hole_make (tb u1) p i
      in u1\<lparr>tb := t\<lparr>mem := memcpy_str (mem t) p s\<rparr>\<rparr>)"

definition stupid_insert :: "tbuf \<Rightarrow> ptr \<Rightarrow> char \<Rightarrow> tbuf" where
  "stupid_insert t p c = set_byte (text_hole_make t p 1) p c"

text \<open>
  What \<open>undo_pop\<close> does to the text for one object. The position is an offset here; the code keeps a
  pointer, \<open>u_start\<close>, to which it does not add the distance that \<open>text_hole_make\<close> returns, so that if
  the block moves its \<open>memcpy\<close> writes into the block that was freed.
\<close>

definition undo_apply :: "undo_object \<Rightarrow> ustate \<Rightarrow> ustate" where
  "undo_apply ob u =
     (if u_type ob = UNDO_DEL \<or> u_type ob = UNDO_DEL_CHAIN then
        (let t = text_hole_make (tb u) (u_start ob) (u_length ob)
         in u\<lparr>tb := t\<lparr>mem := memcpy_str (mem t) (u_start ob) (u_text ob)\<rparr>\<rparr>)
      else if u_type ob = UNDO_INS \<or> u_type ob = UNDO_INS_CHAIN then
        snd (text_hole_delete u (u_start ob) (u_start ob - 1 + u_length ob) NO_UNDO)
      else u)"


subsection \<open>The buffer operations on the content\<close>

lemma span_take_drop:
  assumes "0 \<le> p" and "p + int n \<le> tend t"
  shows "span (mem t) p n = take n (drop (nat p) (content t))"
  by (rule nth_equalityI) (use assms in \<open>auto simp: nth_content nat_add_distrib\<close>)

lemma tend_text_hole_make [simp]:
  "tend (text_hole_make t p n) = tend t + max 0 n"
  by (simp add: text_hole_make_def Let_def)

lemma content_text_hole_make:
  assumes "0 \<le> p" and "p \<le> tend t" and "0 \<le> n"
  shows "content (text_hole_make t p n) =
     take (nat p) (content t) @ replicate (nat n) (CHR '' '') @ drop (nat p) (content t)"
  by (rule nth_equalityI)
    (use assms in \<open>auto simp: nth_content nth_append text_hole_make_def Let_def memmove_def
        memset_def nat_add_distrib split: if_splits\<close>)

lemma content_memcpy_str:
  assumes "0 \<le> p" and "p + int (length s) \<le> tend t"
  shows "content (t\<lparr>mem := memcpy_str (mem t) p s\<rparr>) =
     take (nat p) (content t) @ s @ drop (nat p + length s) (content t)"
  by (rule nth_equalityI)
    (use assms in \<open>auto simp: nth_content nth_append memcpy_str_def nat_add_distrib nat_diff_distrib
        intro!: arg_cong [where f = "nth s"]\<close>)

lemma content_set_byte:
  "0 \<le> p \<Longrightarrow> p < tend t \<Longrightarrow> content (set_byte t p c) = (content t)[nat p := c]"
  by (rule nth_equalityI) (auto simp: nth_content set_byte_def nth_list_update)

lemma content_insert:
  assumes "0 \<le> p" and "p \<le> tend t"
  shows "content ((text_hole_make t p (int (length s)))
           \<lparr>mem := memcpy_str (mem (text_hole_make t p (int (length s)))) p s\<rparr>) =
         take (nat p) (content t) @ s @ drop (nat p) (content t)"
proof -
  let ?h = "text_hole_make t p (int (length s))"
  have "content (?h\<lparr>mem := memcpy_str (mem ?h) p s\<rparr>) =
      take (nat p) (content ?h) @ s @ drop (nat p + length s) (content ?h)"
    by (rule content_memcpy_str) (use assms in auto)
  then show ?thesis
    using assms by (simp add: content_text_hole_make)
qed

lemma content_hole_close:
  assumes "0 \<le> p" and "p \<le> q" and "q < tend t"
  shows "content (snd (hole_close t p (q + 1) (q - p + 1))) =
     take (nat p) (content t) @ drop (Suc (nat q)) (content t)"
  by (rule nth_equalityI)
    (use assms in \<open>auto simp: hole_close_def Let_def nth_content nth_append memmove_def
        nat_diff_distrib algebra_simps split: if_splits\<close>)


subsection \<open>The ends of the text\<close>

lemma tb_undo_alloc [frame_simps]: "tb (undo_alloc u f src n ty sp) = tb u"
  by (simp add: undo_alloc_def Let_def)

lemma tb_undo_queue_commit [frame_simps]: "tb (undo_queue_commit u) = tb u"
  by (simp add: undo_queue_commit_def frame_simps)

lemma tb_queue_del [frame_simps]: "tb (queue_del u p) = tb u"
  by (simp add: queue_del_def Let_def frame_simps)

lemma tb_queue_ins [frame_simps]: "tb (queue_ins n u) = tb u"
  by (induction n arbitrary: u) (simp_all add: Let_def frame_simps)

lemma tb_undo_push [frame_simps]: "tb (undo_push u p n ty) = tb u"
  by (simp add: undo_push_def Let_def frame_simps split: utype.split)

lemma tb_undo_push_insert [frame_simps]: "tb (undo_push_insert u p n m) = tb u"
  by (simp add: undo_push_insert_def frame_simps split: undo_mode.split)

lemma tb_undo_push_delete [frame_simps]: "tb (undo_push_delete u p n m) = tb u"
  by (simp add: undo_push_delete_def frame_simps split: undo_mode.split)

lemma tend_hole_close [end_nonneg]: "0 \<le> tend (snd (hole_close t d s h))"
  by (simp add: hole_close_def Let_def)

lemma tend_text_hole_delete [end_nonneg]:
  "0 \<le> tend (tb u) \<Longrightarrow> 0 \<le> tend (tb (snd (text_hole_delete u p q m)))"
  by (simp add: text_hole_delete_def Let_def frame_simps tend_hole_close)

lemma tend_string_insert: "tend (tb (string_insert u p s m)) = tend (tb u) + int (length s)"
  by (simp add: string_insert_def Let_def frame_simps)

lemma tend_undo_apply [end_nonneg]: "0 \<le> tend (tb u) \<Longrightarrow> 0 \<le> tend (tb (undo_apply ob u))"
  by (simp add: undo_apply_def Let_def tend_text_hole_delete)

lemma tend_stupid_insert [simp]: "tend (stupid_insert t p c) = tend t + 1"
  by (simp add: stupid_insert_def set_byte_def)

text \<open>
  Once a hole has been made the text fits strictly inside its allocation, and closing a hole never
  leaves it: the byte at \<open>end\<close> may be read.
\<close>

lemma text_hole_make_fits:
  "tend t < tsize t \<Longrightarrow> tend (text_hole_make t p n) < tsize (text_hole_make t p n)"
  by (simp add: text_hole_make_def Let_def)

lemma text_hole_delete_content:
  assumes "0 \<le> p" and "p \<le> q" and "q < tend (tb u)"
  shows "content (tb (snd (text_hole_delete u p q m))) =
     take (nat p) (content (tb u)) @ drop (Suc (nat q)) (content (tb u))"
  using content_hole_close [OF assms] assms
  by (simp add: text_hole_delete_def Let_def frame_simps)

lemma text_hole_delete_tend:
  assumes "0 \<le> p" and "p \<le> q" and "q < tend (tb u)"
  shows "tend (tb (snd (text_hole_delete u p q m))) = tend (tb u) - (q - p + 1)"
  using assms by (simp add: text_hole_delete_def Let_def frame_simps hole_close_def)

lemma string_insert_content:
  assumes "0 \<le> p" and "p \<le> tend (tb u)"
  shows "content (tb (string_insert u p s m)) =
     take (nat p) (content (tb u)) @ s @ drop (nat p) (content (tb u))"
  using content_insert [OF assms, of s] by (simp add: string_insert_def Let_def frame_simps)

subsection \<open>Rewinding a journal\<close>

text \<open>Replaying the objects of a journal, newest first, on an abstract value of the edited thing.\<close>

fun rewind :: "('o \<Rightarrow> 'v \<Rightarrow> 'v option) \<Rightarrow> 'o list \<Rightarrow> 'v \<Rightarrow> 'v option" where
  "rewind f [] v = Some v"
| "rewind f (ob # obs) v = (case f ob v of None \<Rightarrow> None | Some w \<Rightarrow> rewind f obs w)"

lemma rewind_append:
  "rewind f (xs @ ys) v = (case rewind f xs v of None \<Rightarrow> None | Some w \<Rightarrow> rewind f ys w)"
  by (induction xs arbitrary: v) (auto split: option.split)

text \<open>
  The contract of an editor with an undo journal: every logged step pushes objects whose replay
  takes the new value back to the old one. The client's conclusion is about whole sessions.
\<close>

locale undo_journal =
  fixes view :: "'s \<Rightarrow> 'v"
    and journal :: "'s \<Rightarrow> 'o list"
    and revert_one :: "'o \<Rightarrow> 'v \<Rightarrow> 'v option"
    and logged :: "'s \<Rightarrow> 's \<Rightarrow> bool"
  assumes logged_step:
    "logged s s' \<Longrightarrow> \<exists>obs. journal s' = obs @ journal s \<and> rewind revert_one obs (view s') = Some (view s)"
begin

lemma session_rewinds:
  "logged\<^sup>*\<^sup>* s s' \<Longrightarrow>
   \<exists>obs. journal s' = obs @ journal s \<and> rewind revert_one obs (view s') = Some (view s)"
proof (induction rule: rtranclp_induct)
  case base
  show ?case by (rule exI [of _ "[]"]) simp
next
  case (step y z)
  from step.IH obtain xs where
    xs: "journal y = xs @ journal s" "rewind revert_one xs (view y) = Some (view s)" by blast
  from logged_step [OF step.hyps(2)] obtain ys where
    ys: "journal z = ys @ journal y" "rewind revert_one ys (view z) = Some (view y)" by blast
  show ?case
    by (rule exI [of _ "ys @ xs"]) (simp add: xs ys rewind_append)
qed

end

subsection \<open>The journal of evim\<close>

definition revert :: "undo_object \<Rightarrow> string \<Rightarrow> string option" where
  "revert ob c =
     (let a = nat (u_start ob); n = nat (u_length ob)
      in if u_type ob = UNDO_DEL \<or> u_type ob = UNDO_DEL_CHAIN then
           if 0 \<le> u_start ob \<and> a \<le> length c \<and> u_length ob = int (length (u_text ob))
           then Some (take a c @ u_text ob @ drop a c) else None
         else if u_type ob = UNDO_INS \<or> u_type ob = UNDO_INS_CHAIN then
           if 0 \<le> u_start ob \<and> 1 \<le> u_length ob \<and> a + n \<le> length c
           then Some (take a c @ drop (a + n) c) else None
         else None)"

lemma undo_apply_revert:
  assumes "0 \<le> tend (tb u)" and "revert ob (content (tb u)) = Some c"
  shows "content (tb (undo_apply ob u)) = c"
proof (cases "u_type ob = UNDO_DEL \<or> u_type ob = UNDO_DEL_CHAIN")
  case True
  then have h: "0 \<le> u_start ob" "u_start ob \<le> tend (tb u)" "u_length ob = int (length (u_text ob))"
    and c: "c = take (nat (u_start ob)) (content (tb u)) @ u_text ob @ drop (nat (u_start ob)) (content (tb u))"
    using assms by (auto simp: revert_def Let_def split: if_splits)
  show ?thesis
    using True content_insert [OF h(1,2), of "u_text ob"] h c by (simp add: undo_apply_def Let_def)
next
  case False
  then have h: "u_type ob = UNDO_INS \<or> u_type ob = UNDO_INS_CHAIN" "0 \<le> u_start ob" "1 \<le> u_length ob"
    "u_start ob + u_length ob \<le> tend (tb u)"
    and c: "c = take (nat (u_start ob)) (content (tb u)) @ drop (nat (u_start ob) + nat (u_length ob)) (content (tb u))"
    using assms by (auto simp: revert_def Let_def split: if_splits)
  have n: "Suc (nat (u_start ob - 1 + u_length ob)) = nat (u_start ob) + nat (u_length ob)"
    using h by simp
  show ?thesis
    using False h text_hole_delete_content [of "u_start ob" "u_start ob - 1 + u_length ob" u NO_UNDO]
    by (simp add: undo_apply_def n c)
qed

lemma rewind_undo_apply:
  "0 \<le> tend (tb u) \<Longrightarrow> rewind revert obs (content (tb u)) = Some c \<Longrightarrow>
   content (tb (fold undo_apply obs u)) = c"
proof (induction obs arbitrary: u)
  case (Cons ob obs)
  then obtain d where d: "revert ob (content (tb u)) = Some d" "rewind revert obs d = Some c"
    by (auto split: option.splits)
  with Cons undo_apply_revert [OF Cons.prems(1) d(1)] tend_undo_apply [OF Cons.prems(1)]
  show ?case by simp
qed simp


text \<open>The in-place replacement of one character that \<open>~\<close> and \<open>J\<close> perform: log, write, log.\<close>

definition overwrite_logged :: "ustate \<Rightarrow> ptr \<Rightarrow> char \<Rightarrow> utype \<Rightarrow> ustate" where
  "overwrite_logged u p c ty =
     (let u1 = undo_push u p 1 ty;
          u2 = u1\<lparr>tb := set_byte (tb u1) p c\<rparr>
      in undo_push u2 p 1 UNDO_INS_CHAIN)"

text \<open>
  The logged edits: closing a hole that leaves some text, inserting a non-empty string, replacing a
  character of a text of at least two, and emptying a text that ends in a newline, after which the
  editor puts the newline back unlogged.
\<close>

inductive edit_step :: "ustate \<Rightarrow> ustate \<Rightarrow> bool" where
  edit_delete: "0 \<le> p \<Longrightarrow> p \<le> q \<Longrightarrow> q < tend (tb u) \<Longrightarrow> q - p + 1 < tend (tb u) \<Longrightarrow>
     m = ALLOW_UNDO \<or> m = ALLOW_UNDO_CHAIN \<Longrightarrow> edit_step u (snd (text_hole_delete u p q m))"
| edit_insert: "0 \<le> p \<Longrightarrow> p \<le> tend (tb u) \<Longrightarrow> s \<noteq> [] \<Longrightarrow>
     m = ALLOW_UNDO \<or> m = ALLOW_UNDO_CHAIN \<Longrightarrow> edit_step u (string_insert u p s m)"
| edit_overwrite: "0 \<le> p \<Longrightarrow> p < tend (tb u) \<Longrightarrow> tend (tb u) \<noteq> 1 \<Longrightarrow>
     ty = UNDO_DEL \<or> ty = UNDO_DEL_CHAIN \<Longrightarrow> edit_step u (overwrite_logged u p c ty)"
| edit_empty: "0 < tend (tb u) \<Longrightarrow> mem (tb u) (tend (tb u) - 1) = NL \<Longrightarrow>
     m = ALLOW_UNDO \<or> m = ALLOW_UNDO_CHAIN \<Longrightarrow>
     u' = snd (text_hole_delete u 0 (tend (tb u) - 1) m) \<Longrightarrow>
     edit_step u (u'\<lparr>tb := stupid_insert (tb u') 0 NL\<rparr>)"

lemma undo_push_plain:
  "ty = UNDO_DEL \<or> ty = UNDO_DEL_CHAIN \<or> ty = UNDO_INS \<or> ty = UNDO_INS_CHAIN \<Longrightarrow>
   undo_push u p n ty = undo_alloc u (mem (tb u)) p n ty False"
  by (auto simp: undo_push_def)

lemma undo_push_delete_plain:
  "m = ALLOW_UNDO \<or> m = ALLOW_UNDO_CHAIN \<Longrightarrow>
   undo_push_delete u p n m =
     undo_alloc u (mem (tb u)) p n (if m = ALLOW_UNDO then UNDO_DEL else UNDO_DEL_CHAIN) False"
  by (auto simp: undo_push_delete_def undo_push_plain)

lemma undo_push_insert_plain:
  "m = ALLOW_UNDO \<or> m = ALLOW_UNDO_CHAIN \<Longrightarrow>
   undo_push_insert u p n m =
     undo_alloc u (mem (tb u)) p n (if m = ALLOW_UNDO then UNDO_INS else UNDO_INS_CHAIN) False"
  by (auto simp: undo_push_insert_def undo_push_plain)

text \<open>What a delete leaves on the stack.\<close>

definition deleted_object :: "tbuf \<Rightarrow> ptr \<Rightarrow> int \<Rightarrow> utype \<Rightarrow> undo_object" where
  "deleted_object t p n ty =
     \<lparr>u_start = p, u_length = n, u_type = ty, u_text = span (mem t) p (nat n)\<rparr>"

lemma text_hole_delete_log:
  assumes "0 \<le> p" and "p \<le> q" and "q < tend (tb u)" and "m = ALLOW_UNDO \<or> m = ALLOW_UNDO_CHAIN"
  shows "undo_stack (snd (text_hole_delete u p q m)) =
      deleted_object (tb u) p (if q - p + 1 = tend (tb u) then q - p else q - p + 1)
        (if m = ALLOW_UNDO then UNDO_DEL else UNDO_DEL_CHAIN) # undo_stack u"
    and "modified_count (snd (text_hole_delete u p q m)) = modified_count u + 1"
proof -
  show "undo_stack (snd (text_hole_delete u p q m)) =
      deleted_object (tb u) p (if q - p + 1 = tend (tb u) then q - p else q - p + 1)
        (if m = ALLOW_UNDO then UNDO_DEL else UNDO_DEL_CHAIN) # undo_stack u"
  proof (cases "q - p + 1 = tend (tb u)")
    case True
    then have e: "tend (tb u) - 1 = q - p" by simp
    show ?thesis
      using assms True by (auto simp: text_hole_delete_def Let_def undo_push_delete_plain
          undo_alloc_def deleted_object_def e)
  next
    case False
    then show ?thesis
      using assms by (auto simp: text_hole_delete_def Let_def undo_push_delete_plain
          undo_alloc_def deleted_object_def)
  qed
  show "modified_count (snd (text_hole_delete u p q m)) = modified_count u + 1"
    using assms by (auto simp: text_hole_delete_def Let_def undo_push_delete_plain undo_alloc_def)
qed

lemma revert_del_split:
  "u_type ob = UNDO_DEL \<or> u_type ob = UNDO_DEL_CHAIN \<Longrightarrow> 0 \<le> u_start ob \<Longrightarrow>
   u_length ob = int (length (u_text ob)) \<Longrightarrow> length a = nat (u_start ob) \<Longrightarrow>
   revert ob (a @ d) = Some (a @ u_text ob @ d)"
  by (auto simp: revert_def Let_def)

lemma revert_ins_split:
  "u_type ob = UNDO_INS \<or> u_type ob = UNDO_INS_CHAIN \<Longrightarrow> 0 \<le> u_start ob \<Longrightarrow> 1 \<le> u_length ob \<Longrightarrow>
   length a = nat (u_start ob) \<Longrightarrow> length b = nat (u_length ob) \<Longrightarrow>
   revert ob (a @ b @ d) = Some (a @ d)"
  by (auto simp: revert_def Let_def)

lemma revert_deleted:
  assumes "0 \<le> p" and "p \<le> q" and "q < tend t" and "ty = UNDO_DEL \<or> ty = UNDO_DEL_CHAIN"
  shows "revert (deleted_object t p (q - p + 1) ty)
           (take (nat p) (content t) @ drop (Suc (nat q)) (content t)) = Some (content t)"
proof -
  have s: "span (mem t) p (nat (q - p + 1)) = take (nat (q - p + 1)) (drop (nat p) (content t))"
    by (rule span_take_drop) (use assms in auto)
  have "Suc (nat q) = nat (q - p + 1) + nat p" using assms by simp
  then have "take (nat (q - p + 1)) (drop (nat p) (content t)) @ drop (Suc (nat q)) (content t) =
      drop (nat p) (content t)"
    by (simp only: drop_drop [symmetric] append_take_drop_id)
  then have *: "take (nat p) (content t) @ take (nat (q - p + 1)) (drop (nat p) (content t)) @
      drop (Suc (nat q)) (content t) = content t"
    by (simp only: append_take_drop_id)
  show ?thesis
    by (subst revert_del_split) (use assms * in \<open>auto simp: deleted_object_def s min_def\<close>)
qed

lemma edit_step_logged:
  assumes "edit_step u u'"
  shows "\<exists>obs. undo_stack u' = obs @ undo_stack u \<and>
     rewind revert obs (content (tb u')) = Some (content (tb u)) \<and>
     modified_count u' = modified_count u + int (length obs)"
  using assms
proof cases
  case (edit_delete p q m)
  let ?ob = "deleted_object (tb u) p (q - p + 1) (if m = ALLOW_UNDO then UNDO_DEL else UNDO_DEL_CHAIN)"
  show ?thesis
    by (rule exI [of _ "[?ob]"])
      (use edit_delete text_hole_delete_log [of p q u m] in \<open>auto simp: text_hole_delete_content revert_deleted\<close>)
next
  case (edit_insert p s m)
  let ?ob = "\<lparr>u_start = p, u_length = int (length s),
      u_type = (if m = ALLOW_UNDO then UNDO_INS else UNDO_INS_CHAIN), u_text = []\<rparr>"
  have "undo_stack u' = ?ob # undo_stack u" and "modified_count u' = modified_count u + 1"
    using edit_insert by (auto simp: string_insert_def Let_def undo_push_insert_plain undo_alloc_def)
  moreover have "revert ?ob (content (tb u')) = Some (content (tb u))"
    unfolding edit_insert(1)
    by (subst string_insert_content) (use edit_insert in \<open>auto simp: Suc_le_eq revert_ins_split\<close>)
  ultimately show ?thesis
    by (intro exI [of _ "[?ob]"]) simp
next
  case (edit_overwrite p ty c)
  let ?d = "deleted_object (tb u) p 1 ty"
  let ?i = "\<lparr>u_start = p, u_length = 1, u_type = UNDO_INS_CHAIN, u_text = []\<rparr>"
  have st: "undo_stack u' = [?i, ?d] @ undo_stack u" "modified_count u' = modified_count u + 2"
    using edit_overwrite by (auto simp: overwrite_logged_def Let_def undo_push_plain undo_alloc_def deleted_object_def)
  have c: "content (tb u') = take (nat p) (content (tb u)) @ [c] @ drop (Suc (nat p)) (content (tb u))"
    using edit_overwrite by (simp add: overwrite_logged_def Let_def frame_simps content_set_byte
        upd_conv_take_nth_drop)
  have "revert ?i (content (tb u')) = Some (take (nat p) (content (tb u)) @ drop (Suc (nat p)) (content (tb u)))"
    unfolding c by (rule revert_ins_split) (use edit_overwrite in auto)
  moreover have "revert ?d (take (nat p) (content (tb u)) @ drop (Suc (nat p)) (content (tb u))) =
      Some (content (tb u))"
    using revert_deleted [of p p "tb u" ty] edit_overwrite by simp
  ultimately show ?thesis
    by (intro exI [of _ "[?i, ?d]"]) (simp add: st)
next
  case (edit_empty m v)
  let ?n = "tend (tb u)"
  let ?ob = "deleted_object (tb u) 0 (?n - 1) (if m = ALLOW_UNDO then UNDO_DEL else UNDO_DEL_CHAIN)"
  have v: "undo_stack v = ?ob # undo_stack u" "modified_count v = modified_count u + 1"
    using edit_empty text_hole_delete_log [of 0 "?n - 1" u m] by auto
  have tv: "tend (tb v) = 0"
    using edit_empty by (simp add: text_hole_delete_tend)
  have "content (stupid_insert (tb v) 0 NL) = [NL]"
    unfolding stupid_insert_def using tv
    by (subst content_set_byte) (auto simp: content_text_hole_make content_def span_def)
  moreover have "revert ?ob [NL] = Some (content (tb u))"
  proof -
    have "nat ?n = Suc (nat (?n - 1))" using edit_empty by simp
    then have "span (mem (tb u)) 0 (nat (?n - 1)) @ [NL] = content (tb u)"
      using edit_empty by (simp add: content_def span_Suc)
    then show ?thesis using edit_empty by (simp add: revert_def deleted_object_def Let_def)
  qed
  ultimately show ?thesis
    using v edit_empty by (intro exI [of _ "[?ob]"]) simp
qed

interpretation evim_undo: undo_journal "\<lambda>u. content (tb u)" undo_stack revert edit_step
  by unfold_locales (use edit_step_logged in blast)


lemma edit_step_tend: "edit_step u u' \<Longrightarrow> 0 \<le> tend (tb u) \<Longrightarrow> 0 \<le> tend (tb u')"
  by (induction rule: edit_step.induct)
    (auto simp: tend_text_hole_delete tend_string_insert overwrite_logged_def Let_def frame_simps set_byte_def)

lemma edit_steps_tend: "edit_step\<^sup>*\<^sup>* u u' \<Longrightarrow> 0 \<le> tend (tb u) \<Longrightarrow> 0 \<le> tend (tb u')"
  by (induction rule: rtranclp_induct) (auto dest: edit_step_tend)

subsection \<open>A concrete buffer\<close>

definition buffer_of :: "string \<Rightarrow> ustate" where
  "buffer_of w = \<lparr>tb = text_of w, modified_count = 0, undo_stack = [],
     undo_queue_state = UNDO_EMPTY, undo_queue_spos = 0, undo_q = 0, undo_queue = \<lambda>_. NUL\<rparr>"

text \<open>
  C6. Undo restores: after any sequence of logged edits, popping the objects they pushed, newest
  first, and applying each as \<open>undo_pop\<close> does, gives back the text from before the first of them.
\<close>

theorem edit_steps_restored:
  assumes "edit_step\<^sup>*\<^sup>* u u'" and "0 \<le> tend (tb u)"
  shows "\<exists>obs. undo_stack u' = obs @ undo_stack u \<and> content (tb (fold undo_apply obs u')) = content (tb u)"
  using evim_undo.session_rewinds [OF assms(1)]
    rewind_undo_apply [OF edit_steps_tend [OF assms]] by blast

theorem edit_steps_restored_witness:
  "\<exists>obs. undo_stack (string_insert (buffer_of [CHR ''a'', NL]) 1 ''xy'' ALLOW_UNDO) =
        obs @ undo_stack (buffer_of [CHR ''a'', NL]) \<and>
     content (tb (fold undo_apply obs (string_insert (buffer_of [CHR ''a'', NL]) 1 ''xy'' ALLOW_UNDO))) =
        content (tb (buffer_of [CHR ''a'', NL]))"
  by (rule edit_steps_restored, rule r_into_rtranclp, rule edit_insert)
    (simp_all add: buffer_of_def text_of_def)

text \<open>
  Inserting a string anywhere in the text and then deleting the range it occupies gives the text
  back, byte for byte, although both move the whole tail of the buffer.
\<close>

theorem insert_delete_roundtrip:
  fixes m m' :: undo_mode
  assumes "0 \<le> p" and "p \<le> tend (tb u)" and "w \<noteq> []"
  defines "v \<equiv> string_insert u p w m"
  shows "content (tb (snd (text_hole_delete v p (p + int (length w) - 1) m'))) = content (tb u)"
proof -
  have c: "content (tb v) = take (nat p) (content (tb u)) @ w @ drop (nat p) (content (tb u))"
    unfolding v_def by (rule string_insert_content) (use assms in auto)
  have n: "Suc (nat (p + int (length w) - 1)) = nat p + length w" using assms(1,3) by (cases w) (auto simp: nat_add_distrib)
  have l: "length (take (nat p) (content (tb u))) = nat p" using assms(1,2) by simp
  have "content (tb (snd (text_hole_delete v p (p + int (length w) - 1) m'))) =
      take (nat p) (content (tb v)) @ drop (Suc (nat (p + int (length w) - 1))) (content (tb v))"
    by (rule text_hole_delete_content)
      (use assms in \<open>auto simp: v_def tend_string_insert Suc_le_eq\<close>)
  also have "\<dots> = content (tb u)" unfolding n c using l by simp
  finally show ?thesis .
qed

theorem insert_delete_roundtrip_witness:
  "content (tb (snd (text_hole_delete (string_insert (buffer_of [CHR ''a'', NL]) 1 ''xy'' NO_UNDO) 1
      (1 + int (length ''xy'') - 1) NO_UNDO))) = content (tb (buffer_of [CHR ''a'', NL]))"
  by (rule insert_delete_roundtrip) (simp_all add: buffer_of_def text_of_def)

subsection \<open>The queue of erased characters\<close>

text \<open>Typing backspace \<open>n\<close> times in insert mode: \<open>p--; p = text_hole_delete(p, p, ALLOW_UNDO_QUEUED)\<close>.\<close>

fun erase_back :: "nat \<Rightarrow> ustate \<Rightarrow> ptr \<Rightarrow> ustate" where
  "erase_back 0 u p = u"
| "erase_back (Suc n) u p =
     (let r = text_hole_delete u (p - 1) (p - 1) ALLOW_UNDO_QUEUED in erase_back n (snd r) (fst r))"

definition erase_ready :: "ustate \<Rightarrow> bool" where
  "erase_ready u \<longleftrightarrow>
     0 \<le> undo_q u \<and> (undo_queue_state u = UNDO_DEL \<or> undo_queue_state u = UNDO_EMPTY)"

lemma erase_one:
  assumes "erase_ready u" and "undo_q u < 31" and "1 \<le> p" and "p < tend (tb u)"
  defines "r \<equiv> text_hole_delete u (p - 1) (p - 1) ALLOW_UNDO_QUEUED"
  shows "fst r = p - 1"
    and "tend (tb (snd r)) = tend (tb u) - 1"
    and "mem (tb (snd r)) = (\<lambda>i. if p - 1 \<le> i \<and> i < tend (tb u) - 1 then mem (tb u) (i + 1) else mem (tb u) i)"
    and "undo_q (snd r) = undo_q u + 1"
    and "undo_queue_state (snd r) = UNDO_DEL"
    and "undo_queue_spos (snd r) = p - 1"
    and "undo_stack (snd r) = undo_stack u"
    and "modified_count (snd r) = modified_count u"
    and "undo_queue (snd r) = (undo_queue u)(31 - undo_q u := mem (tb u) (p - 1))"
proof -
  have push: "undo_push_delete u (p - 1) 1 ALLOW_UNDO_QUEUED =
      u\<lparr>undo_queue_state := UNDO_DEL, undo_queue_spos := p - 1, undo_q := undo_q u + 1,
        undo_queue := (undo_queue u)(31 - undo_q u := mem (tb u) (p - 1))\<rparr>"
    using assms(1,2) by (auto simp: undo_push_delete_def undo_push_def queue_del_def Let_def erase_ready_def)
  have close: "hole_close (tb u) (p - 1) p 1 =
      (p - 1, (tb u)\<lparr>mem := memmove (mem (tb u)) (p - 1) p (tend (tb u) - p), tend := tend (tb u) - 1\<rparr>)"
    using assms(3,4) by (simp add: hole_close_def)
  have r: "r = (p - 1, (undo_push_delete u (p - 1) 1 ALLOW_UNDO_QUEUED)
        \<lparr>tb := (tb u)\<lparr>mem := memmove (mem (tb u)) (p - 1) p (tend (tb u) - p), tend := tend (tb u) - 1\<rparr>\<rparr>)"
    using assms(3,4) close by (simp add: r_def text_hole_delete_def Let_def frame_simps)
  show "fst r = p - 1" "tend (tb (snd r)) = tend (tb u) - 1"
    "undo_q (snd r) = undo_q u + 1" "undo_queue_state (snd r) = UNDO_DEL"
    "undo_queue_spos (snd r) = p - 1" "undo_stack (snd r) = undo_stack u"
    "modified_count (snd r) = modified_count u"
    "undo_queue (snd r) = (undo_queue u)(31 - undo_q u := mem (tb u) (p - 1))"
    by (simp_all add: r push)
  show "mem (tb (snd r)) = (\<lambda>i. if p - 1 \<le> i \<and> i < tend (tb u) - 1 then mem (tb u) (i + 1) else mem (tb u) i)"
    by (rule ext) (auto simp: r memmove_def)
qed

lemma erase_back_fields:
  assumes "erase_ready u" and "undo_q u + int n < 32" and "int n \<le> p" and "p < tend (tb u)"
  defines "v \<equiv> erase_back n u p"
  shows "tend (tb v) = tend (tb u) - int n \<and>
     (\<forall>i. i < p - int n \<longrightarrow> mem (tb v) i = mem (tb u) i) \<and>
     (\<forall>i. p - int n \<le> i \<and> i < tend (tb u) - int n \<longrightarrow> mem (tb v) i = mem (tb u) (i + int n)) \<and>
     undo_q v = undo_q u + int n \<and>
     (0 < n \<longrightarrow> undo_queue_state v = UNDO_DEL \<and> undo_queue_spos v = p - int n) \<and>
     undo_stack v = undo_stack u \<and> modified_count v = modified_count u \<and>
     (\<forall>i. 32 - undo_q u - int n \<le> i \<and> i < 32 - undo_q u \<longrightarrow>
        undo_queue v i = mem (tb u) (p + undo_q u - 32 + i)) \<and>
     (\<forall>i. 32 - undo_q u \<le> i \<longrightarrow> undo_queue v i = undo_queue u i)"
  using assms(1-4) unfolding v_def
proof (induction n arbitrary: u p)
  case (Suc n)
  define r where "r = text_hole_delete u (p - 1) (p - 1) ALLOW_UNDO_QUEUED"
  have pre: "undo_q u < 31" "1 \<le> p" using Suc.prems by auto
  note one = erase_one [OF Suc.prems(1) pre Suc.prems(4), folded r_def]
  have ready: "erase_ready (snd r)"
    using Suc.prems(1) one by (simp add: erase_ready_def)
  define v where "v = erase_back n (snd r) (p - 1)"
  have v: "erase_back (Suc n) u p = v"
    using one(1) by (simp add: v_def r_def [symmetric])
  have "undo_q (snd r) + int n < 32" "int n \<le> p - 1" "p - 1 < tend (tb (snd r))"
    using Suc.prems one by auto
  note IH = Suc.IH [OF ready this, folded v_def]
  have q1: "undo_queue v i = mem (tb u) (p + undo_q u - 32 + i)"
    if "32 - undo_q u - int (Suc n) \<le> i" "i < 32 - undo_q u" for i
    using IH that one(3,4,9) by (cases "i = 31 - undo_q u") auto
  have q2: "undo_queue v i = undo_queue u i" if "32 - undo_q u \<le> i" for i
    using IH that one(4,9) by auto
  have st: "undo_queue_state v = UNDO_DEL \<and> undo_queue_spos v = p - int (Suc n)"
    using IH one by (cases n) (auto simp: v_def)
  show ?case
    unfolding v using IH one q1 q2 st by (auto simp: algebra_simps)
qed auto


text \<open>
  Committing a run of backspaces pushes one object. Its length is cut by one when the run happens to
  be as long as the text that remains, because \<open>undo_push\<close> mistakes that for a deletion that
  emptied the text.
\<close>

definition empty_queue :: "ustate \<Rightarrow> bool" where
  "empty_queue u \<longleftrightarrow> undo_q u = 0 \<and> undo_queue_state u = UNDO_EMPTY"

lemma erase_back_commit:
  assumes "empty_queue u" and "0 < n" and "n < 32" and "int n \<le> p" and "p < tend (tb u)"
  defines "v \<equiv> undo_queue_commit (erase_back n u p)"
  shows "content (tb v) = take (nat p - n) (content (tb u)) @ drop (nat p) (content (tb u))"
    and "undo_stack v =
      \<lparr>u_start = p - int n,
       u_length = (if 2 * int n = tend (tb u) then int n - 1 else int n),
       u_type = UNDO_DEL,
       u_text = take (if 2 * int n = tend (tb u) then n - 1 else n) (drop (nat p - n) (content (tb u)))\<rparr>
      # undo_stack u"
    and "tend (tb v) = tend (tb u) - int n"
proof -
  let ?w = "erase_back n u p"
  have pre: "erase_ready u" "undo_q u + int n < 32"
    using assms(1,3) by (auto simp: erase_ready_def empty_queue_def)
  note f = erase_back_fields [OF pre assms(4,5)]
  have q0: "undo_q u = 0" using assms(1) by (simp add: empty_queue_def)
  have tv: "tb v = tb ?w" by (simp add: v_def frame_simps)
  show "tend (tb v) = tend (tb u) - int n" using f tv by simp
  have lo: "mem (tb ?w) i = mem (tb u) i" if "i < p - int n" for i
    using f that by blast
  have hi: "mem (tb ?w) i = mem (tb u) (i + int n)" if "p - int n \<le> i" "i < tend (tb u) - int n" for i
    using f that by blast
  show "content (tb v) = take (nat p - n) (content (tb u)) @ drop (nat p) (content (tb u))"
  proof (rule nth_equalityI)
    show "length (content (tb v)) =
        length (take (nat p - n) (content (tb u)) @ drop (nat p) (content (tb u)))"
      using f tv assms(4,5) by auto
    fix i assume "i < length (content (tb v))"
    then have i: "int i < tend (tb u) - int n" using f tv by auto
    show "content (tb v) ! i = (take (nat p - n) (content (tb u)) @ drop (nat p) (content (tb u))) ! i"
    proof (cases "i < nat p - n")
      case True
      then show ?thesis
        using lo [of "int i"] i tv assms(4,5) f by (simp add: nth_content nth_append)
    next
      case False
      then have "p - int n \<le> int i" by linarith
      moreover have "nat p + (i - (nat p - n)) = i + n"
        using False assms(4) by linarith
      ultimately show ?thesis
        using hi [of "int i"] i tv assms(4,5) f False by (simp add: nth_content nth_append)
    qed
  qed
  have sp: "span (undo_queue ?w) (32 - int n) k = take k (drop (nat p - n) (content (tb u)))"
    if "k \<le> n" for k
    by (rule nth_equalityI)
      (use f q0 assms(4,5) that in \<open>auto simp: nth_content of_nat_diff
        intro!: arg_cong [where f = "mem (tb u)"]\<close>)
  show "undo_stack v =
      \<lparr>u_start = p - int n,
       u_length = (if 2 * int n = tend (tb u) then int n - 1 else int n),
       u_type = UNDO_DEL,
       u_text = take (if 2 * int n = tend (tb u) then n - 1 else n) (drop (nat p - n) (content (tb u)))\<rparr>
      # undo_stack u"
    using f q0 assms(2) sp [of n] sp [of "n - 1"]
    by (auto simp: v_def undo_queue_commit_def undo_alloc_def Let_def nat_diff_distrib)
qed

text \<open>
  C13. A run of fewer than 32 backspaces in insert mode is undone as one: starting with an empty queue
  and the cursor on a character of the text, not after its last one, the queue collects the erased
  characters from its end backwards, committing it pushes one object, and applying that object
  restores the text, unless the run erased exactly half of the text, for then it is as long as what is
  left and \<open>undo_push\<close> drops one character (\<open>erased_half_lost\<close>).
\<close>

theorem revert_erased:
  assumes "empty_queue u" and "0 < n" and "n < 32" and "int n \<le> p" and "p < tend (tb u)"
    and "2 * int n \<noteq> tend (tb u)"
  defines "v \<equiv> undo_queue_commit (erase_back n u p)"
  shows "content (tb (undo_apply (hd (undo_stack v)) v)) = content (tb u)"
proof (rule undo_apply_revert)
  note e = erase_back_commit [OF assms(1-5), folded v_def]
  show "0 \<le> tend (tb v)" using e(3) assms(4,5) by simp
  have "take (nat p - n) (content (tb u)) @ take n (drop (nat p - n) (content (tb u))) @
      drop (nat p) (content (tb u)) = content (tb u)"
    using assms(4) append_take_drop_id [of n "drop (nat p - n) (content (tb u))"]
    by (simp add: le_nat_iff)
  then show "revert (hd (undo_stack v)) (content (tb v)) = Some (content (tb u))"
    unfolding e(1,2) using assms(4-6)
    by (subst revert_del_split) (auto simp: nat_diff_distrib min_def)
qed

theorem revert_erased_witness:
  "content (tb (undo_apply (hd (undo_stack (undo_queue_commit (erase_back 2 (buffer_of (''abc'' @ [NL, CHR ''d'', NL])) 3))))
      (undo_queue_commit (erase_back 2 (buffer_of (''abc'' @ [NL, CHR ''d'', NL])) 3)))) =
   content (tb (buffer_of (''abc'' @ [NL, CHR ''d'', NL])))"
  by (rule revert_erased) (simp_all add: buffer_of_def text_of_def empty_queue_def)

text \<open>The excluded case: one backspace that leaves one character. Undo loses the erased one.\<close>

theorem erased_half_lost:
  "content (tb (undo_apply (hd (undo_stack (undo_queue_commit (erase_back 1 (buffer_of ''ab'') 1))))
      (undo_queue_commit (erase_back 1 (buffer_of ''ab'') 1)))) = ''b''"
  by code_simp

subsection \<open>The queue\<close>

text \<open>A queue in use is never empty, so committing it always leaves the state \<open>UNDO_EMPTY\<close>.\<close>

definition queue_live :: "ustate \<Rightarrow> bool" where
  "queue_live u \<longleftrightarrow> 0 \<le> undo_q u \<and> (undo_queue_state u = UNDO_EMPTY \<or> 0 < undo_q u)"

lemma commit_empties: "queue_live u \<Longrightarrow> undo_queue_state (undo_queue_commit u) = UNDO_EMPTY \<and> undo_q (undo_queue_commit u) = 0"
  by (auto simp: queue_live_def undo_queue_commit_def)

lemma queue_live_commit: "queue_live u \<Longrightarrow> queue_live (undo_queue_commit u)"
  using commit_empties [of u] by (simp add: queue_live_def)

lemma queue_live_del: "0 \<le> undo_q u \<Longrightarrow> queue_live (queue_del u p)"
  by (auto simp: queue_del_def Let_def queue_live_def undo_queue_commit_def)

lemma queue_live_ins: "0 \<le> undo_q u \<Longrightarrow> queue_live u \<or> 0 < n \<Longrightarrow> queue_live (queue_ins n u)"
proof (induction n arbitrary: u)
  case (Suc n)
  let ?u = "u\<lparr>undo_q := undo_q u + 1\<rparr>"
  have l: "queue_live ?u" using Suc.prems by (simp add: queue_live_def)
  define v where "v = (if undo_q ?u = VI_UNDO_QUEUE_MAX then undo_queue_commit ?u else ?u)"
  have "queue_live v" using l queue_live_commit [OF l] by (simp only: v_def simp_thms split: if_split)
  moreover have "queue_ins (Suc n) u = queue_ins n v" unfolding v_def queue_ins.simps Let_def ..
  ultimately show ?case using Suc.IH [of v] by (simp add: queue_live_def)
qed simp

lemma queue_live_alloc: "queue_live u \<Longrightarrow> queue_live (undo_alloc u m p n ty sp)"
  by (simp add: queue_live_def undo_alloc_def Let_def)

lemma queue_live_push: "queue_live u \<Longrightarrow> queue_live (undo_push u p n ty)"
proof -
  assume l: "queue_live u"
  then have "0 \<le> undo_q u" "0 \<le> undo_q (undo_queue_commit u)"
    using commit_empties [of u] by (simp_all add: queue_live_def)
  then show ?thesis
    using l queue_live_alloc [OF l]
    by (auto simp: undo_push_def simp del: queue_ins.simps intro!: queue_live_del queue_live_ins split: utype.split)
qed

end
