(* ===== verification/Relocation.thy ===== *)
theory Relocation
  imports UndoStack
begin

text \<open>
  The other theories let a pointer into \<open>text[]\<close> be its offset from \<open>text\<close>. This one models
  \<open>text_hole_make\<close> (\<open>vim_text.c\<close>) with addresses: the text is a block that \<open>realloc\<close> may move, and
  the pointers into it are moved by the distance. The offset model is its view: the hole is the same,
  and the pointers that are moved keep their offsets. Two pointers are not moved.
\<close>

text \<open>
  All memory by address, the block of the text, and the pointers into it: \<open>screenbegin\<close>, \<open>dot\<close>,
  \<open>mark[]\<close>, \<open>vi_visual_anchor\<close>, the start of the undo queue and the line the main loop remembers.
\<close>

record arena =
  a_mem :: "int \<Rightarrow> char"
  a_text :: int
  a_end :: int
  a_size :: int
  a_screenbegin :: int
  a_dot :: int
  a_mark :: "nat \<Rightarrow> int option"
  a_anchor :: "int option"
  a_queue_spos :: int
  a_cur_line :: "int option"

text \<open>
  \<open>realloc\<close> as documented: the bytes of the old block, as many as fit, are at the new address; the
  rest of the new block, and the old one once it is freed, hold anything (\<open>junk\<close>).
\<close>

definition realloc :: "(int \<Rightarrow> char) \<Rightarrow> int \<Rightarrow> int \<Rightarrow> int \<Rightarrow> int \<Rightarrow> (int \<Rightarrow> char) \<Rightarrow> (int \<Rightarrow> char)" where
  "realloc junk old old_size new new_size m =
     (\<lambda>i. if new \<le> i \<and> i < new + min old_size new_size then m (i - new + old)
          else if new \<le> i \<and> i < new + new_size \<or> old \<le> i \<and> i < old + old_size then junk i
          else m i)"

definition move_text :: "(int \<Rightarrow> char) \<Rightarrow> int \<Rightarrow> arena \<Rightarrow> int \<times> arena" where
  "move_text junk new_text a =
     (let total = a_size a + (a_end a - (a_text a + a_size a) + 10240);
          bias = new_text - a_text a
      in (bias,
          a\<lparr>a_mem := realloc junk (a_text a) (a_size a) new_text total (a_mem a), a_size := total,
            a_screenbegin := a_screenbegin a + bias, a_dot := a_dot a + bias, a_end := a_end a + bias,
            a_mark := (\<lambda>i. map_option (\<lambda>p. p + bias) (a_mark a i)),
            a_anchor := map_option (\<lambda>p. p + bias) (a_anchor a), a_text := new_text\<rparr>))"

definition hole_make :: "(int \<Rightarrow> char) \<Rightarrow> int \<Rightarrow> int \<Rightarrow> int \<Rightarrow> arena \<Rightarrow> int \<times> arena" where
  "hole_make junk new_text p sz a =
     (if sz \<le> 0 then (0, a)
      else
        (let a1 = a\<lparr>a_end := a_end a + sz\<rparr>;
             (bias, a2) = (if a_end a1 \<ge> a_text a1 + a_size a1 then move_text junk new_text a1 else (0, a1));
             q = p + bias;
             m = memset (memmove (a_mem a2) (q + sz) q (a_end a2 - sz - q)) q (CHR '' '') sz
         in (bias, a2\<lparr>a_mem := m\<rparr>)))"

text \<open>The offset view.\<close>

definition view :: "arena \<Rightarrow> tbuf" where
  "view a = \<lparr>mem = \<lambda>i. a_mem a (a_text a + i), tend = a_end a - a_text a, tsize = a_size a\<rparr>"

definition offsets :: "arena \<Rightarrow> int \<times> int \<times> (nat \<Rightarrow> int option) \<times> int option" where
  "offsets a = (a_screenbegin a - a_text a, a_dot a - a_text a,
     \<lambda>i. map_option (\<lambda>p. p - a_text a) (a_mark a i), map_option (\<lambda>p. p - a_text a) (a_anchor a))"

lemma move_text_view:
  assumes "move_text junk new_text a = (bias, b)"
  shows "bias = a_text b - a_text a" "a_text b = new_text" "offsets b = offsets a" "a_end b - a_text b = a_end a - a_text a"
    "0 \<le> i \<Longrightarrow> i < a_size a \<Longrightarrow> i < a_size b \<Longrightarrow> a_mem b (a_text b + i) = a_mem a (a_text a + i)"
    "a_size b = a_end a - a_text a + 10240"
  using assms by (auto simp: move_text_def Let_def offsets_def realloc_def option.map_comp o_def algebra_simps)

text \<open>
  C38. Moving the text is invisible: wherever \<open>realloc\<close> puts the block and whatever the fresh memory
  holds, opening a hole gives the text, its length and its capacity of the offset model, the returned
  bias relocates the caller's pointer, and \<open>dot\<close>, \<open>screenbegin\<close>, the marks and the anchor of the
  selection keep their offsets.
\<close>

theorem hole_make_relocates:
  assumes "a_text a \<le> p" and "p \<le> a_end a" and "a_end a < a_text a + a_size a" and "hole_make junk new_text p sz a = (bias, b)"
  shows "content (view b) = content (text_hole_make (view a) (p - a_text a) sz) \<and>
    tend (view b) = tend (text_hole_make (view a) (p - a_text a) sz) \<and>
    tsize (view b) = tsize (text_hole_make (view a) (p - a_text a) sz) \<and>
    p + bias - a_text b = p - a_text a \<and> offsets b = offsets a"
proof (cases "sz \<le> 0")
  case True
  then show ?thesis using assms(4) by (auto simp: hole_make_def text_hole_make_def)
next
  case False
  define a1 where "a1 = a\<lparr>a_end := a_end a + sz\<rparr>"
  obtain bias' a2 where a2': "(if a_end a1 \<ge> a_text a1 + a_size a1 then move_text junk new_text a1 else (0, a1)) = (bias', a2)"
    by fastforce
  have "bias' = bias" and b: "b = a2\<lparr>a_mem := memset (memmove (a_mem a2) (p + bias + sz) (p + bias)
      (a_end a2 - sz - (p + bias))) (p + bias) (CHR '' '') sz\<rparr>"
    using assms(4) False a2' unfolding hole_make_def a1_def [symmetric] Let_def by auto
  note a2 = a2' [unfolded \<open>bias' = bias\<close>]
  have v: "bias = a_text a2 - a_text a" "offsets a2 = offsets a1" "a_end a2 - a_text a2 = a_end a + sz - a_text a"
    "a_size a2 = (if a_end a1 \<ge> a_text a1 + a_size a1 then a_end a + sz - a_text a + 10240 else a_size a)"
    using a2 move_text_view [of junk new_text a1 bias a2] by (auto simp: a1_def split: if_splits)
  have m: "a_mem a2 (a_text a2 + i) = a_mem a (a_text a + i)" if "0 \<le> i" "i < a_end a - a_text a" for i
    using a2 move_text_view(5) [of junk new_text a1 bias a2 i] that v(4) assms(3) False
    by (auto simp: a1_def split: if_splits)
  have t: "tend (view b) = tend (text_hole_make (view a) (p - a_text a) sz)"
    "tsize (view b) = tsize (text_hole_make (view a) (p - a_text a) sz)"
    using v False by (auto simp: view_def b text_hole_make_def a1_def Let_def)
  have "mem (view b) i = mem (text_hole_make (view a) (p - a_text a) sz) i" if "0 \<le> i" "i < tend (view b)" for i
    using that v(1,3) m [of i] m [of "i - sz"] assms(1,2) False
    by (auto simp: view_def b text_hole_make_def memset_def memmove_def Let_def algebra_simps)
  then have "content (view b) = content (text_hole_make (view a) (p - a_text a) sz)"
    using t(1) by (auto simp: content_def span_def)
  moreover have "offsets b = offsets a" using v(2) by (simp add: offsets_def b a1_def)
  moreover have "p + bias - a_text b = p - a_text a" by (simp add: b v(1))
  ultimately show ?thesis using t by blast
qed

theorem hole_make_relocates_witness:
  "\<exists>b. hole_make (\<lambda>_. CHR ''?'') 500 102 3
       \<lparr>a_mem = \<lambda>i. CHR ''x'', a_text = 100, a_end = 104, a_size = 6, a_screenbegin = 100, a_dot = 103,
         a_mark = \<lambda>_. None, a_anchor = Some 101, a_queue_spos = 102, a_cur_line = Some 100\<rparr> = (400, b) \<and>
     content (view b) = ''xx   xx'' \<and> a_dot b = 503 \<and> a_anchor b = Some 501"
proof -
  define a where "a = \<lparr>a_mem = \<lambda>i. CHR ''x'', a_text = 100, a_end = 104, a_size = 6, a_screenbegin = 100, a_dot = 103,
         a_mark = \<lambda>_. None, a_anchor = Some 101, a_queue_spos = 102, a_cur_line = Some 100\<rparr>"
  obtain bias b where h: "hole_make (\<lambda>_. CHR ''?'') 500 102 3 a = (bias, b)" by fastforce
  have bias: "bias = 400" "a_text b = 500" using h by (auto simp: hole_make_def move_text_def a_def Let_def)
  have "content (view b) = content (text_hole_make (view a) (102 - a_text a) 3) \<and> offsets b = offsets a"
    using hole_make_relocates [OF _ _ _ h] by (simp add: a_def)
  moreover have "content (text_hole_make (view a) (102 - a_text a) 3) = ''xx   xx''"
    by (simp add: view_def a_def content_def span_def upt_rec numeral_eq_Suc text_hole_make_def memset_def
        memmove_def Let_def)
  ultimately show ?thesis using h bias by (auto simp: a_def offsets_def)
qed

text \<open>
  The start of the undo queue and the line of the main loop are not relocated: after a move they are
  off by the distance.
\<close>

lemma stale_pointers:
  assumes "hole_make junk new_text p sz a = (bias, b)"
  shows "a_queue_spos b - a_text b = a_queue_spos a - a_text a - bias"
    and "map_option (\<lambda>q. q - a_text b) (a_cur_line b) = map_option (\<lambda>q. q - a_text a - bias) (a_cur_line a)"
  using assms
  by (auto simp: hole_make_def move_text_def Let_def algebra_simps split: if_splits prod.splits
      intro!: option.map_cong)

end
