(* ===== verification/Syntax.thy ===== *)
theory Syntax
  imports Prelude
begin

text \<open>
  Line-oriented syntax colouring (\<open>vim_syntax.c\<close>): the mode chosen from a file name, the five
  colour scanners, and the writer that emits one slice of a formatted screen line with SGR
  sequences. A line is the list of its \<open>columns\<close> bytes, the colour buffer a list of the same
  length; a scanner's loop body is one definition that maps an index and a buffer to the next
  index and buffer, and \<open>run_tokens\<close> is the \<open>while (i < n)\<close> around it.
\<close>

datatype syntax_mode = SYNTAX_NONE | SYNTAX_JSON | SYNTAX_RD | SYNTAX_CONF | SYNTAX_JS | SYNTAX_C

datatype color = C_DEFAULT | C_STRING | C_KEY | C_NUMBER | C_LITERAL | C_BRACE | C_COMMENT
  | C_CMD | C_PATH | C_OPER

definition ESC_BOLD_TEXT :: string where
  "ESC_BOLD_TEXT = ESC # ''[7m''"

definition ESC_NORM_TEXT :: string where
  "ESC_NORM_TEXT = ESC # ''[m''"

fun sgr_seq :: "color \<Rightarrow> string" where
  "sgr_seq C_DEFAULT = ESC # ''[m''"
| "sgr_seq C_STRING = ESC # ''[32m''"
| "sgr_seq C_KEY = ESC # ''[1;36m''"
| "sgr_seq C_NUMBER = ESC # ''[35m''"
| "sgr_seq C_LITERAL = ESC # ''[33m''"
| "sgr_seq C_BRACE = ESC # ''[1;37m''"
| "sgr_seq C_COMMENT = ESC # ''[1;30m''"
| "sgr_seq C_CMD = ESC # ''[1;32m''"
| "sgr_seq C_PATH = ESC # ''[36m''"
| "sgr_seq C_OPER = ESC # ''[31m''"

text \<open>The enumeration order of the ids, which \<open>cur > C_DEFAULT\<close> compares.\<close>

fun color_id :: "color \<Rightarrow> nat" where
  "color_id C_DEFAULT = 0"
| "color_id C_STRING = 1"
| "color_id C_KEY = 2"
| "color_id C_NUMBER = 3"
| "color_id C_LITERAL = 4"
| "color_id C_BRACE = 5"
| "color_id C_COMMENT = 6"
| "color_id C_CMD = 7"
| "color_id C_PATH = 8"
| "color_id C_OPER = 9"

lemma color_id_inject: "color_id a = color_id b \<longleftrightarrow> a = b"
  by (cases a; cases b) simp_all

instantiation color :: linorder
begin

definition less_eq_color :: "color \<Rightarrow> color \<Rightarrow> bool" where
  "less_eq_color a b \<longleftrightarrow> color_id a \<le> color_id b"

definition less_color :: "color \<Rightarrow> color \<Rightarrow> bool" where
  "less_color a b \<longleftrightarrow> color_id a < color_id b"

instance
  by standard (auto simp: less_eq_color_def less_color_def color_id_inject [symmetric])

end

subsection \<open>The mode of a file\<close>

text \<open>\<open>strrchr(fn, '.')\<close>: the suffix from the last dot on.\<close>

fun strrchr_dot :: "string \<Rightarrow> string option" where
  "strrchr_dot [] = None"
| "strrchr_dot (c # cs) =
     (case strrchr_dot cs of Some e \<Rightarrow> Some e | None \<Rightarrow> if c = CHR ''.'' then Some (c # cs) else None)"

definition syntax_set_file :: "string option \<Rightarrow> syntax_mode" where
  "syntax_set_file fn =
     (case fn of None \<Rightarrow> SYNTAX_NONE
      | Some f \<Rightarrow>
          (case strrchr_dot f of None \<Rightarrow> SYNTAX_NONE
           | Some ext \<Rightarrow>
               if ext = ''.json'' then SYNTAX_JSON
               else if ext = ''.rd'' then SYNTAX_RD
               else if ext = ''.conf'' then SYNTAX_CONF
               else if ext = ''.js'' then SYNTAX_JS
               else if ext \<in> set [''.c'', ''.h'', ''.cc'', ''.cpp'', ''.cxx'', ''.hpp''] then SYNTAX_C
               else SYNTAX_NONE))"

subsection \<open>Scanning and painting\<close>

function scan :: "(char \<Rightarrow> bool) \<Rightarrow> string \<Rightarrow> nat \<Rightarrow> nat \<Rightarrow> nat" where
  "scan P s n j = (if j < n \<and> P (s ! j) then scan P s n (j + 1) else j)"
  by pat_completeness auto
termination by (relation "measure (\<lambda>(P, s, n, j). n - j)") auto

declare scan.simps [simp del]

text \<open>\<open>while (e >= i && P(s[e])) e--\<close> started at \<open>e = j - 1\<close>: the number of bytes kept is \<open>e + 1\<close>.\<close>

fun trim_back :: "(char \<Rightarrow> bool) \<Rightarrow> string \<Rightarrow> nat \<Rightarrow> nat \<Rightarrow> nat" where
  "trim_back P s i 0 = 0"
| "trim_back P s i (Suc e) = (if i \<le> e \<and> P (s ! e) then trim_back P s i e else Suc e)"

text \<open>The body of a quoted token, a backslash skipping one byte.\<close>

function scan_quoted :: "char \<Rightarrow> string \<Rightarrow> nat \<Rightarrow> nat \<Rightarrow> nat" where
  "scan_quoted q s n j =
     (if j < n \<and> s ! j \<noteq> q then
        scan_quoted q s n ((if s ! j = CHR 0x5C \<and> j + 1 < n then j + 1 else j) + 1)
      else j)"
  by pat_completeness auto
termination by (relation "measure (\<lambda>(q, s, n, j). n - j)") auto

declare scan_quoted.simps [simp del]

text \<open>The body of a block comment: up to the byte where the closing sequence starts.\<close>

function scan_comment :: "string \<Rightarrow> nat \<Rightarrow> nat \<Rightarrow> nat" where
  "scan_comment s n j =
     (if j + 1 < n \<and> \<not> (s ! j = CHR ''*'' \<and> s ! (j + 1) = CHR ''/'') then scan_comment s n (j + 1)
      else j)"
  by pat_completeness auto
termination by (relation "measure (\<lambda>(s, n, j). n - j)") auto

declare scan_comment.simps [simp del]

text \<open>\<open>paint(col, from, to - 1, cl)\<close>: the half-open form avoids \<open>to = -1\<close>.\<close>

fun paint :: "color list \<Rightarrow> nat \<Rightarrow> nat \<Rightarrow> color \<Rightarrow> color list" where
  "paint col from 0 cl = col"
| "paint col from (Suc to) cl = (if from \<le> to then (paint col from to cl)[to := cl] else col)"

definition blank_or_tab :: "char \<Rightarrow> bool" where
  "blank_or_tab c \<longleftrightarrow> c = CHR '' '' \<or> c = TAB"

text \<open>Is the token \<open>s[i..j-1]\<close> one of the words?\<close>

definition token :: "string \<Rightarrow> nat \<Rightarrow> nat \<Rightarrow> string" where
  "token s i j = take (j - i) (drop i s)"

definition word_in :: "string \<Rightarrow> nat \<Rightarrow> nat \<Rightarrow> string list \<Rightarrow> bool" where
  "word_in s i j ws \<longleftrightarrow> token s i j \<in> set ws"

text \<open>A scanner loop. Each body advances the index, so \<open>n\<close> rounds are enough (\<open>run_tokens_total\<close>).\<close>

type_synonym token_step = "string \<Rightarrow> nat \<Rightarrow> nat \<Rightarrow> color list \<Rightarrow> nat \<times> color list"

fun run_tokens :: "token_step \<Rightarrow> string \<Rightarrow> nat \<Rightarrow> nat \<Rightarrow> nat \<Rightarrow> color list \<Rightarrow> nat \<times> color list" where
  "run_tokens step s n 0 i col = (i, col)"
| "run_tokens step s n (Suc fuel) i col =
     (if i < n then case step s n i col of (i', col') \<Rightarrow> run_tokens step s n fuel i' col'
      else (i, col))"

subsection \<open>JSON\<close>

definition json_token :: token_step where
  "json_token s n i col =
     (let c = s ! i in
      if c = CHR 0x22 then
        (let j = scan_quoted (CHR 0x22) s n (i + 1);
             e = (if j < n then j + 1 else n);
             k = scan blank_or_tab s n (if j < n then j + 1 else n)
         in (e, paint col i e (if k < n \<and> s ! k = CHR '':'' then C_KEY else C_STRING)))
      else if c \<in> set ''{}[]'' then (i + 1, col[i := C_BRACE])
      else if isdigit c \<or> (c = CHR ''-'' \<and> i + 1 < n \<and> isdigit (s ! (i + 1))) then
        (let j = scan (\<lambda>d. isdigit d \<or> d \<in> set ''.eE+-'') s n (i + 1)
         in (j, paint col i j C_NUMBER))
      else if isalpha c then
        (let j = scan isalpha s n i
         in (j, if token s i j \<in> set [''true'', ''false'', ''null''] then paint col i j C_LITERAL
                else col))
      else (i + 1, col))"

definition color_json :: "string \<Rightarrow> nat \<Rightarrow> color list \<Rightarrow> color list" where
  "color_json s n col = snd (run_tokens json_token s n n 0 col)"

subsection \<open>Init scripts\<close>

definition rd_token :: token_step where
  "rd_token s n i col =
     (let c = s ! i in
      if blank_or_tab c then (i + 1, col)
      else if c \<in> set ''|><&'' then (i + 1, col[i := C_OPER])
      else if c = CHR 0x22 then
        (let q = scan (\<lambda>d. d \<noteq> CHR 0x22) s n (i + 1);
             e = (if q < n then q + 1 else n)
         in (e, paint col i e C_STRING))
      else
        (let t = scan (\<lambda>d. \<not> blank_or_tab d \<and> d \<notin> set ''|><&'') s n i;
             cl = (if c = CHR ''/'' \<or> (c = CHR ''.'' \<and> i + 1 < n \<and> s ! (i + 1) = CHR ''/'') then C_PATH
                   else if c = CHR ''$'' then C_LITERAL
                   else if isdigit c then C_NUMBER
                   else C_DEFAULT)
         in (t, paint col i t cl)))"

definition color_rd :: "string \<Rightarrow> nat \<Rightarrow> color list \<Rightarrow> color list" where
  "color_rd s n col =
     (if 0 < n \<and> s ! 0 = CHR ''#'' then paint col 0 n C_COMMENT
      else
        (let (i0, col0) = (if 0 < n \<and> s ! 0 = CHR ''@'' then (1, col[0 := C_OPER]) else (0, col));
             i = scan blank_or_tab s n i0;
             j = scan (\<lambda>d. \<not> blank_or_tab d) s n i
         in snd (run_tokens rd_token s n n j (paint col0 i j C_CMD))))"

subsection \<open>Configuration files\<close>

definition color_conf :: "string \<Rightarrow> nat \<Rightarrow> color list \<Rightarrow> color list" where
  "color_conf s n col =
     (let i = scan blank_or_tab s n 0
      in if i < n \<and> s ! i = CHR ''#'' then paint col i n C_COMMENT
         else
           (let j = scan (\<lambda>d. d \<noteq> CHR ''='' \<and> d \<noteq> CHR ''#'') s n i;
                ke = trim_back blank_or_tab s i j;
                col1 = (if ke > i then paint col i ke C_KEY else col)
            in if j < n \<and> s ! j = CHR ''#'' then paint col1 j n C_COMMENT
               else
                 (let (i2, col2) = (if j < n \<and> s ! j = CHR ''='' then (j + 1, col1[j := C_OPER])
                                    else (j, col1));
                      i3 = scan blank_or_tab s n i2;
                      v = scan (\<lambda>d. d \<noteq> CHR ''#'') s n i3;
                      ve = trim_back blank_or_tab s i3 v;
                      cl = (if list_all (\<lambda>d. isdigit d \<or> d \<in> set ''.-+'') (token s i3 ve)
                            then C_NUMBER else C_STRING);
                      col3 = (if ve > i3 then paint col2 i3 ve cl else col2)
                  in if v < n \<and> s ! v = CHR ''#'' then paint col3 v n C_COMMENT else col3)))"

subsection \<open>JavaScript\<close>

definition js_keywords :: "string list" where
  "js_keywords =
    [''async'', ''await'', ''break'', ''case'', ''catch'', ''class'', ''const'',
     ''continue'', ''debugger'', ''default'', ''delete'', ''do'', ''else'', ''export'',
     ''extends'', ''finally'', ''for'', ''function'', ''get'', ''if'', ''import'',
     ''in'', ''instanceof'', ''let'', ''new'', ''of'', ''return'', ''set'',
     ''static'', ''super'', ''switch'', ''throw'', ''try'', ''typeof'', ''var'',
     ''void'', ''while'', ''with'', ''yield'']"

definition js_literals :: "string list" where
  "js_literals = [''true'', ''false'', ''null'', ''undefined'', ''NaN'', ''Infinity'', ''this'']"

text \<open>The end of a block comment opened at \<open>i\<close>, of a numeral starting at \<open>i\<close>, and the call test.\<close>

definition comment_end :: "string \<Rightarrow> nat \<Rightarrow> nat \<Rightarrow> nat" where
  "comment_end s n i =
     (let j = scan_comment s n (i + 2) in if j + 1 < n then j + 2 else n)"

definition number_end :: "string \<Rightarrow> nat \<Rightarrow> nat \<Rightarrow> nat" where
  "number_end s n i =
     (let j = i + 1
      in if s ! i = CHR ''0'' \<and> j < n \<and> s ! j \<in> set ''xX'' then scan isxdigit s n (j + 1)
         else
           (let j1 = scan (\<lambda>d. isdigit d \<or> d = CHR ''.'') s n j
            in if j1 < n \<and> s ! j1 \<in> set ''eE'' then
                 (let j2 = j1 + 1;
                      j3 = (if j2 < n \<and> s ! j2 \<in> set ''+-'' then j2 + 1 else j2)
                  in scan isdigit s n j3)
               else j1))"

definition followed_by_paren :: "string \<Rightarrow> nat \<Rightarrow> nat \<Rightarrow> bool" where
  "followed_by_paren s n j \<longleftrightarrow>
     (let k = scan blank_or_tab s n j in k < n \<and> s ! k = CHR ''('')"

definition js_ident :: "string \<Rightarrow> nat \<Rightarrow> nat \<Rightarrow> nat" where
  "js_ident s n i = scan (\<lambda>d. isalnum d \<or> d = CHR ''_'' \<or> d = CHR ''$'') s n i"

definition js_token :: token_step where
  "js_token s n i col =
     (let c = s ! i in
      if c = CHR ''/'' \<and> i + 1 < n \<and> s ! (i + 1) = CHR ''/'' then (n, paint col i n C_COMMENT)
      else if c = CHR ''/'' \<and> i + 1 < n \<and> s ! (i + 1) = CHR ''*'' then
        (let e = comment_end s n i in (e, paint col i e C_COMMENT))
      else if c = CHR 0x22 \<or> c = CHR 0x27 \<or> c = CHR 0x60 then
        (let j = scan_quoted c s n (i + 1); e = (if j < n then j + 1 else n)
         in (e, paint col i e C_STRING))
      else if isdigit c then
        (let j = number_end s n i in (j, paint col i j C_NUMBER))
      else if isalpha c \<or> c = CHR ''_'' \<or> c = CHR ''$'' then
        (let j = js_ident s n i
         in (j, if word_in s i j js_literals then paint col i j C_LITERAL
                else if word_in s i j js_keywords then paint col i j C_KEY
                else if followed_by_paren s n j then paint col i j C_CMD
                else col))
      else if c \<in> set ''{}[]()'' then (i + 1, col[i := C_BRACE])
      else if in_strchr ''+-*/%=<>!&|?:~^'' (cval c) then (i + 1, col[i := C_OPER])
      else (i + 1, col))"

definition color_js :: "string \<Rightarrow> nat \<Rightarrow> color list \<Rightarrow> color list" where
  "color_js s n col = snd (run_tokens js_token s n n 0 col)"

subsection \<open>C source\<close>

definition c_keywords :: "string list" where
  "c_keywords =
    [''auto'', ''break'', ''case'', ''const'', ''continue'', ''default'', ''do'',
     ''else'', ''enum'', ''extern'', ''for'', ''goto'', ''if'', ''inline'',
     ''register'', ''restrict'', ''return'', ''sizeof'', ''static'', ''struct'', ''switch'',
     ''typedef'', ''union'', ''volatile'', ''while'']"

definition c_types :: "string list" where
  "c_types =
    [''bool'', ''char'', ''double'', ''float'', ''int'', ''long'', ''short'',
     ''signed'', ''unsigned'', ''void'', ''size_t'', ''ssize_t'', ''ptrdiff_t'',
     ''intptr_t'', ''uintptr_t'', ''int8_t'', ''int16_t'', ''int32_t'', ''int64_t'', ''uint8_t'',
     ''uint16_t'', ''uint32_t'', ''uint64_t'', ''intptr_t'', ''FILE'']"

definition c_literals :: "string list" where
  "c_literals = [''NULL'', ''true'', ''false'', ''EOF'']"

definition c_token :: token_step where
  "c_token s n i col =
     (let c = s ! i in
      if c = CHR ''/'' \<and> i + 1 < n \<and> s ! (i + 1) = CHR ''/'' then (n, paint col i n C_COMMENT)
      else if c = CHR ''/'' \<and> i + 1 < n \<and> s ! (i + 1) = CHR ''*'' then
        (let e = comment_end s n i in (e, paint col i e C_COMMENT))
      else if c = CHR 0x22 \<or> c = CHR 0x27 then
        (let q = scan_quoted c s n (i + 1); e = (if q < n then q + 1 else n)
         in (e, paint col i e C_STRING))
      else if isdigit c then
        (let q = scan (\<lambda>d. in_strchr ''uUlLfF'' (cval d)) s n (number_end s n i)
         in (q, paint col i q C_NUMBER))
      else if isalpha c \<or> c = CHR ''_'' then
        (let q = scan (\<lambda>d. isalnum d \<or> d = CHR ''_'') s n i
         in (q, if word_in s i q c_literals then paint col i q C_LITERAL
                else if word_in s i q c_keywords then paint col i q C_KEY
                else if word_in s i q c_types then paint col i q C_PATH
                else if followed_by_paren s n q then paint col i q C_CMD
                else col))
      else if c \<in> set ''{}[]()'' then (i + 1, col[i := C_BRACE])
      else if in_strchr ''+-*/%=<>!&|?:~^'' (cval c) then (i + 1, col[i := C_OPER])
      else (i + 1, col))"

text \<open>The directive prefix of a C line: where the token scan starts, and the colours so far.\<close>

definition c_directive :: "string \<Rightarrow> nat \<Rightarrow> color list \<Rightarrow> nat \<times> color list" where
  "c_directive s n col =
     (let j0 = scan blank_or_tab s n 0
      in if j0 < n \<and> s ! j0 = CHR ''#'' then
           (let j = j0 + 1;
                k = scan isalpha s n j;
                col1 = paint (col[j0 := C_CMD]) j k C_CMD;
                q = scan blank_or_tab s n k
            in if token s j k = ''include'' \<and> q < n \<and> s ! q = CHR ''<'' then
                 (let e = scan (\<lambda>d. d \<noteq> CHR ''>'') s n (q + 1);
                      e' = (if e \<ge> n then n else e + 1)
                  in (e', paint col1 q e' C_STRING))
               else (k, col1))
         else (0, col))"

definition color_c :: "string \<Rightarrow> nat \<Rightarrow> color list \<Rightarrow> color list" where
  "color_c s n col =
     (let (i, col') = c_directive s n col in snd (run_tokens c_token s n n i col'))"

subsection \<open>Writing a slice\<close>

definition is_filler_line :: "string \<Rightarrow> nat \<Rightarrow> bool" where
  "is_filler_line s n \<longleftrightarrow>
     0 < n \<and> s ! 0 = CHR ''~'' \<and> list_all (\<lambda>c. c = CHR '' '') (drop 1 (take n s))"

definition line_colors :: "syntax_mode \<Rightarrow> string \<Rightarrow> nat \<Rightarrow> color list option" where
  "line_colors mode vline n =
     (if mode = SYNTAX_NONE \<or> is_filler_line vline n then None
      else
        (let col = replicate n C_DEFAULT
         in Some (case mode of SYNTAX_JSON \<Rightarrow> color_json vline n col
                  | SYNTAX_CONF \<Rightarrow> color_conf vline n col
                  | SYNTAX_JS \<Rightarrow> color_js vline n col
                  | SYNTAX_C \<Rightarrow> color_c vline n col
                  | _ \<Rightarrow> color_rd vline n col)))"

text \<open>
  The emission loop over one column after the other; \<open>cur = None\<close> is the C code's \<open>-1\<close>. The
  result is the text written, the active colour and whether reverse video is on.
\<close>

fun emit_slice :: "color list option \<Rightarrow> (nat \<Rightarrow> bool) \<Rightarrow> string \<Rightarrow> nat \<Rightarrow> nat \<Rightarrow>
    color option \<Rightarrow> bool \<Rightarrow> string \<times> color option \<times> bool" where
  "emit_slice cols sel vline i 0 cur cur_sel = ([], cur, cur_sel)"
| "emit_slice cols sel vline i (Suc k) cur cur_sel =
     (let s = sel i;
          (o1, cur1, sel1) =
            (if s \<noteq> cur_sel then (ESC_NORM_TEXT @ (if s then ESC_BOLD_TEXT else []), None, s)
             else ([], cur, cur_sel));
          (o2, cur2) =
            (case cols of
               Some cb \<Rightarrow> if \<not> s \<and> Some (cb ! i) \<noteq> cur1 then (sgr_seq (cb ! i), Some (cb ! i)) else ([], cur1)
             | None \<Rightarrow> ([], cur1));
          (o3, r) = emit_slice cols sel vline (i + 1) k cur2 sel1
      in (o1 @ o2 @ vline ! i # o3, r))"

definition syntax_write_slice :: "syntax_mode \<Rightarrow> nat \<Rightarrow> string \<Rightarrow> nat \<Rightarrow> int \<Rightarrow> (nat \<Rightarrow> bool) \<Rightarrow> string" where
  "syntax_write_slice mode n vline from to0 sel =
     (let to1 = (if to0 \<ge> int n then int n - 1 else to0)
      in if to1 < int from then []
         else
           (let (w, cur, cur_sel) =
                  emit_slice (line_colors mode vline n) sel vline from (nat (to1 - int from + 1)) None False
            in w @ (if cur_sel \<or> (case cur of None \<Rightarrow> False | Some c \<Rightarrow> c > C_DEFAULT) then ESC_NORM_TEXT else [])))"


subsection \<open>Scans stay inside the line\<close>

lemma scan_ge: "j \<le> scan P s n j"
  by (induction P s n j rule: scan.induct) (subst scan.simps, auto)

lemma scan_le: "j \<le> n \<Longrightarrow> scan P s n j \<le> n"
  by (induction P s n j rule: scan.induct) (subst scan.simps, auto)

lemma scan_all: "j \<le> k \<Longrightarrow> k < scan P s n j \<Longrightarrow> P (s ! k)"
proof (induction P s n j rule: scan.induct)
  case (1 P s n j)
  show ?case
  proof (cases "j < n \<and> P (s ! j)")
    case True
    then have "scan P s n j = scan P s n (j + 1)" by (subst scan.simps) simp
    then show ?thesis using 1 True by (cases "k = j") auto
  next
    case False
    then have "scan P s n j = j" by (subst scan.simps) auto
    then show ?thesis using 1(2,3) by simp
  qed
qed

lemma scan_gt: "j < n \<Longrightarrow> P (s ! j) \<Longrightarrow> j < scan P s n j"
  using scan_ge [of "j + 1" P s n] by (subst scan.simps) simp

lemma scan_quoted_bounds: "j \<le> n \<Longrightarrow> j \<le> scan_quoted q s n j \<and> scan_quoted q s n j \<le> n"
  by (induction q s n j rule: scan_quoted.induct) (subst (1 2) scan_quoted.simps, auto split: if_splits)

lemma scan_comment_bounds: "j \<le> n \<Longrightarrow> j \<le> scan_comment s n j \<and> scan_comment s n j \<le> n"
  by (induction s n j rule: scan_comment.induct) (subst (1 2) scan_comment.simps, auto)

lemma trim_back_le: "trim_back P s i e \<le> e"
  by (induction e) auto

lemma length_paint [simp]: "length (paint col i j cl) = length col"
  by (induction j) auto

lemma comment_end_bounds: "i + 1 < n \<Longrightarrow> i < comment_end s n i \<and> comment_end s n i \<le> n"
  using scan_comment_bounds [of "i + 2" n s] by (auto simp: comment_end_def Let_def)

lemma number_end_bounds: "i < n \<Longrightarrow> i < number_end s n i \<and> number_end s n i \<le> n"
proof -
  assume i: "i < n"
  let ?j1 = "scan (\<lambda>d. isdigit d \<or> d = CHR ''.'') s n (i + 1)"
  have j1: "i < ?j1" "?j1 \<le> n"
    using i scan_ge [of "i + 1" _ s n] scan_le [of "i + 1" n _ s] by (auto simp: Suc_le_eq)
  have hex: "i < scan isxdigit s n (i + 2) \<and> scan isxdigit s n (i + 2) \<le> n" if "i + 1 < n"
    using that scan_ge [of "i + 2" isxdigit s n] scan_le [of "i + 2" n isxdigit s] by simp
  have exp: "i < scan isdigit s n k \<and> scan isdigit s n k \<le> n" if "?j1 < k" "k \<le> n" for k
    using that j1 scan_ge [of k isdigit s n] scan_le [of k n isdigit s] by simp
  show ?thesis
    using i j1 hex exp by (auto simp: number_end_def Let_def)
qed

subsection \<open>Every scanner reaches the end of the line\<close>

text \<open>
  What the loop relies on: a body moves forward, stays inside the line and recolours without
  changing the length of the buffer.
\<close>

locale token_scanner =
  fixes step :: token_step
  assumes step_forward: "i < n \<Longrightarrow> i < fst (step s n i col) \<and> fst (step s n i col) \<le> n"
    and step_length: "length (snd (step s n i col)) = length col"
begin

lemma run_tokens_end: "i \<le> n \<Longrightarrow> n - i \<le> fuel \<Longrightarrow> fst (run_tokens step s n fuel i col) = n"
proof (induction fuel arbitrary: i col)
  case (Suc fuel)
  show ?case
  proof (cases "i < n")
    case True
    have "n - fst (step s n i col) \<le> fuel"
      using Suc.prems step_forward [OF True, of s col] by linarith
    then show ?thesis
      using True Suc.IH [of "fst (step s n i col)" "snd (step s n i col)"]
        step_forward [OF True, of s col] by (simp add: case_prod_beta)
  qed (use Suc.prems in simp)
qed simp

lemma run_tokens_length: "length (snd (run_tokens step s n fuel i col)) = length col"
  by (induction fuel arbitrary: i col) (simp_all add: case_prod_beta step_length)

lemma run_tokens_more_fuel:
  "i \<le> n \<Longrightarrow> n - i \<le> fuel \<Longrightarrow> run_tokens step s n (fuel + k) i col = run_tokens step s n fuel i col"
proof (induction fuel arbitrary: i col)
  case 0
  then show ?case by (cases k) auto
next
  case (Suc fuel)
  show ?case
  proof (cases "i < n")
    case True
    have "n - fst (step s n i col) \<le> fuel"
      using Suc.prems step_forward [OF True, of s col] by linarith
    then show ?thesis
      using True Suc.IH [of "fst (step s n i col)" "snd (step s n i col)"]
        step_forward [OF True, of s col] by (simp add: case_prod_beta)
  qed (use Suc.prems in simp)
qed

end

text \<open>The bounds the bodies need, for a quoted token and for a token that starts at \<open>i\<close>.\<close>

lemma quoted_end:
  "i < n \<Longrightarrow> i < (if scan_quoted q s n (i + 1) < n then scan_quoted q s n (i + 1) + 1 else n) \<and>
     (if scan_quoted q s n (i + 1) < n then scan_quoted q s n (i + 1) + 1 else n) \<le> n"
  using scan_quoted_bounds [of "i + 1" n q s] by auto

lemma scan_next: "i < n \<Longrightarrow> i < scan P s n (i + 1) \<and> scan P s n (i + 1) \<le> n"
  using scan_ge [of "i + 1" P s n] scan_le [of "i + 1" n P s] by simp

lemma scan_here: "i < n \<Longrightarrow> P (s ! i) \<Longrightarrow> i < scan P s n i \<and> scan P s n i \<le> n"
  using scan_gt [of i n P s] scan_le [of i n P s] by simp

lemma scan_after:
  "i < j \<Longrightarrow> j \<le> n \<Longrightarrow> i < scan P s n j \<and> scan P s n j \<le> n"
  using scan_ge [of j P s n] scan_le [of j n P s] by simp

interpretation json_scanner: token_scanner json_token
proof
  show "i < fst (json_token s n i col) \<and> fst (json_token s n i col) \<le> n" if "i < n" for i n s col
    using that quoted_end [of i n "CHR 0x22" s] scan_next [of i n _ s] scan_here [of i n isalpha s]
    by (auto simp: json_token_def Let_def)
qed (simp add: json_token_def Let_def)

interpretation rd_scanner: token_scanner rd_token
proof
  show "i < fst (rd_token s n i col) \<and> fst (rd_token s n i col) \<le> n" if "i < n" for i n s col
    using that scan_next [of i n "\<lambda>d. d \<noteq> CHR 0x22" s]
      scan_here [of i n "\<lambda>d. \<not> blank_or_tab d \<and> d \<notin> set ''|><&''" s]
    by (auto simp: rd_token_def Let_def less_Suc_eq)
qed (simp add: rd_token_def Let_def)

interpretation js_scanner: token_scanner js_token
proof
  show "i < fst (js_token s n i col) \<and> fst (js_token s n i col) \<le> n" if "i < n" for i n s col
    using that quoted_end [of i n "s ! i" s] comment_end_bounds [of i n s] number_end_bounds [of i n s]
      scan_here [of i n "\<lambda>d. isalnum d \<or> d = CHR ''_'' \<or> d = CHR ''$''" s]
    by (auto simp: js_token_def js_ident_def Let_def isalnum_def)
qed (simp add: js_token_def Let_def)

interpretation c_scanner: token_scanner c_token
proof
  show "i < fst (c_token s n i col) \<and> fst (c_token s n i col) \<le> n" if "i < n" for i n s col
    using that quoted_end [of i n "s ! i" s] comment_end_bounds [of i n s] number_end_bounds [of i n s]
      scan_after [of i "number_end s n i" n "\<lambda>d. in_strchr ''uUlLfF'' (cval d)" s]
      scan_here [of i n "\<lambda>d. isalnum d \<or> d = CHR ''_''" s]
    by (auto simp: c_token_def Let_def isalnum_def)
qed (simp add: c_token_def Let_def)


subsection \<open>What a terminal shows\<close>

text \<open>
  The SGR subset the editor writes, as a VT100 terminal executes it: parameter 0 (or none) resets
  the pen, 1 sets bold, 7 reverse video, 30 to 37 the foreground. Each printed character takes the
  pen of the moment.
\<close>

record pen =
  fg :: nat
  bold :: bool
  rev_video :: bool

definition plain_pen :: pen where
  "plain_pen = \<lparr>fg = 0, bold = False, rev_video = False\<rparr>"

definition sgr_one :: "nat \<Rightarrow> pen \<Rightarrow> pen" where
  "sgr_one k p =
     (if k = 0 then plain_pen
      else if k = 1 then p\<lparr>bold := True\<rparr>
      else if k = 7 then p\<lparr>rev_video := True\<rparr>
      else if 30 \<le> k \<and> k \<le> 37 then p\<lparr>fg := k\<rparr>
      else p)"

fun sgr_params :: "string \<Rightarrow> nat \<Rightarrow> pen \<Rightarrow> pen" where
  "sgr_params [] k p = sgr_one k p"
| "sgr_params (c # cs) k p =
     (if c = CHR '';'' then sgr_params cs 0 (sgr_one k p)
      else sgr_params cs (10 * k + (nat (cval c) - 48)) p)"

function tty :: "string \<Rightarrow> pen \<Rightarrow> (char \<times> pen) list \<times> pen" where
  "tty [] p = ([], p)"
| "tty (c # cs) p =
     (if c = ESC then
        tty (drop 1 (dropWhile (\<lambda>d. d \<noteq> CHR ''m'') cs)) (sgr_params (takeWhile (\<lambda>d. d \<noteq> CHR ''m'') (drop 1 cs)) 0 p)
      else (case tty cs p of (cells, q) \<Rightarrow> ((c, p) # cells, q)))"
  by pat_completeness auto
termination
proof (relation "measure (\<lambda>(cs, p). length cs)")
  fix c :: char and cs :: string and p :: pen
  have "length (drop 1 (dropWhile (\<lambda>d. d \<noteq> CHR ''m'') cs)) < length (c # cs)"
    using length_dropWhile_le [of "\<lambda>d. d \<noteq> CHR ''m''" cs] by simp
  then show "((drop 1 (dropWhile (\<lambda>d. d \<noteq> CHR ''m'') cs),
      sgr_params (takeWhile (\<lambda>d. d \<noteq> CHR ''m'') (drop 1 cs)) 0 p), (c # cs, p)) \<in> measure (\<lambda>(cs, p). length cs)"
    by simp
qed auto

text \<open>The pen a colour id asks for.\<close>

definition color_fg :: "color \<Rightarrow> nat" where
  "color_fg c = fg (snd (tty (sgr_seq c) plain_pen))"

definition color_bold :: "color \<Rightarrow> bool" where
  "color_bold c = bold (snd (tty (sgr_seq c) plain_pen))"

lemma tty_sgr_seq:
  "tty (sgr_seq c @ w) p =
     tty w (if c = C_DEFAULT then plain_pen else p\<lparr>fg := color_fg c, bold := bold p \<or> color_bold c\<rparr>)"
  by (cases c; cases p) (simp_all add: color_fg_def color_bold_def sgr_one_def plain_pen_def)

lemma color_default [simp]: "color_fg C_DEFAULT = 0" "color_bold C_DEFAULT = False"
  by (simp_all add: color_fg_def color_bold_def sgr_one_def plain_pen_def)

lemma tty_norm: "tty (ESC_NORM_TEXT @ w) p = tty w plain_pen"
  by (simp add: ESC_NORM_TEXT_def sgr_one_def)

lemma tty_bold: "tty (ESC_BOLD_TEXT @ w) p = tty w (p\<lparr>rev_video := True\<rparr>)"
  by (simp add: ESC_BOLD_TEXT_def sgr_one_def)

text \<open>The pen that agrees with what the emission loop believes is active.\<close>

definition pen_for :: "color option \<Rightarrow> bool \<Rightarrow> pen \<Rightarrow> bool" where
  "pen_for cur cur_sel p \<longleftrightarrow>
     rev_video p = cur_sel \<and>
     (case cur of None \<Rightarrow> fg p = 0 \<and> \<not> bold p
      | Some c \<Rightarrow> \<not> cur_sel \<and> fg p = color_fg c \<and> (color_bold c \<longrightarrow> bold p) \<and> (c = C_DEFAULT \<longrightarrow> \<not> bold p))"

text \<open>
  How column \<open>i\<close> of a slice that begins at column \<open>from\<close> looks: its colour is the one asked for, and it is
  bold exactly if some column from \<open>from\<close> up to it asked for a bright colour and none after that one was
  selected or had the default colour. Only these two reset the pen; a plain colour that follows a bright
  one directly keeps the bold of it.
\<close>

definition bold_run :: "bool \<Rightarrow> color list option \<Rightarrow> (nat \<Rightarrow> bool) \<Rightarrow> nat \<Rightarrow> nat \<Rightarrow> bool" where
  "bold_run b cols sel from i \<longleftrightarrow>
     (case cols of None \<Rightarrow> False
      | Some cb \<Rightarrow>
          (b \<and> (\<forall>m\<in>{from..i}. \<not> sel m \<and> cb ! m \<noteq> C_DEFAULT)) \<or>
          (\<exists>j\<in>{from..i}. color_bold (cb ! j) \<and> (\<forall>m\<in>{j..i}. \<not> sel m \<and> cb ! m \<noteq> C_DEFAULT)))"

definition cell_ok :: "color list option \<Rightarrow> (nat \<Rightarrow> bool) \<Rightarrow> nat \<Rightarrow> nat \<Rightarrow> pen \<Rightarrow> bool" where
  "cell_ok cols sel from i p \<longleftrightarrow>
     rev_video p = sel i \<and>
     fg p = (if sel i then 0 else (case cols of None \<Rightarrow> 0 | Some cb \<Rightarrow> color_fg (cb ! i))) \<and>
     bold p = bold_run False cols sel from i"

lemma bold_run_here:
  "bold_run b cols sel i i = (case cols of None \<Rightarrow> False
     | Some cb \<Rightarrow> \<not> sel i \<and> cb ! i \<noteq> C_DEFAULT \<and> (b \<or> color_bold (cb ! i)))"
  by (auto simp: bold_run_def split: option.split)

lemma bold_run_step: "i \<le> k \<Longrightarrow> bold_run (bold_run b cols sel i i) cols sel (Suc i) (Suc k) = bold_run b cols sel i (Suc k)"
proof (cases cols)
  case (Some cb)
  assume "i \<le> k"
  then have "{i..Suc k} = insert i {Suc i..Suc k}" by auto
  then show ?thesis
    by (auto simp: bold_run_here Some) (auto simp: bold_run_def)
qed (simp add: bold_run_def)

definition cell_from :: "bool \<Rightarrow> color list option \<Rightarrow> (nat \<Rightarrow> bool) \<Rightarrow> nat \<Rightarrow> nat \<Rightarrow> pen \<Rightarrow> bool" where
  "cell_from b cols sel from i p \<longleftrightarrow>
     rev_video p = sel i \<and>
     fg p = (if sel i then 0 else (case cols of None \<Rightarrow> 0 | Some cb \<Rightarrow> color_fg (cb ! i))) \<and>
     bold p = bold_run b cols sel from i"

lemma cell_from_start: "cell_from False = cell_ok"
  by (intro ext) (simp add: cell_from_def cell_ok_def)

lemma emit_slice_shown:
  assumes "pen_for cur cur_sel p" and "\<And>j. i \<le> j \<Longrightarrow> j < i + k \<Longrightarrow> vline ! j \<noteq> ESC"
    and "emit_slice cols sel vline i k cur cur_sel = (w, cur', sel')"
    and "cols = None \<longrightarrow> cur = None"
  shows "\<exists>cells q. (\<forall>rest. tty (w @ rest) p = (cells @ fst (tty rest q), snd (tty rest q))) \<and>
     pen_for cur' sel' q \<and> map fst cells = map (\<lambda>j. vline ! j) [i..<i + k] \<and>
     (\<forall>j < k. cell_from (bold p) cols sel i (i + j) (snd (cells ! j)))"
  using assms
proof (induction k arbitrary: i cur cur_sel p w cur' sel')
  case 0
  then show ?case
    by (intro exI [of _ "[]"] exI [of _ p]) simp
next
  case (Suc k)
  define o1 where "o1 = (if sel i \<noteq> cur_sel then ESC_NORM_TEXT @ (if sel i then ESC_BOLD_TEXT else []) else [])"
  define cur1 where "cur1 = (if sel i \<noteq> cur_sel then None else cur)"
  define p1 where "p1 = (if sel i \<noteq> cur_sel then plain_pen\<lparr>rev_video := sel i\<rparr> else p)"
  have t1: "tty (o1 @ x) p = tty x p1" for x
    by (auto simp: o1_def p1_def tty_norm tty_bold plain_pen_def)
  have p1: "pen_for cur1 (sel i) p1"
    using Suc.prems(1) by (auto simp: pen_for_def cur1_def p1_def plain_pen_def split: option.splits)
  define change where "change = (case cols of None \<Rightarrow> False | Some cb \<Rightarrow> \<not> sel i \<and> Some (cb ! i) \<noteq> cur1)"
  define o2 where "o2 = (if change then sgr_seq (the cols ! i) else [])"
  define cur2 where "cur2 = (if change then Some (the cols ! i) else cur1)"
  define p2 where "p2 = snd (tty o2 p1)"
  have t2: "tty (o2 @ x) p1 = tty x p2" for x
    using tty_sgr_seq [of "the cols ! i" x p1] tty_sgr_seq [of "the cols ! i" "[]" p1]
    by (simp add: o2_def p2_def)
  have p2: "pen_for cur2 (sel i) p2"
    using p1 tty_sgr_seq [of "the cols ! i" "[]" p1]
    by (auto simp: pen_for_def cur2_def p2_def o2_def change_def plain_pen_def split: option.splits)
  have c2: "cols = None \<longrightarrow> cur2 = None"
    using Suc.prems(4) by (auto simp: cur2_def change_def cur1_def)
  have bold: "bold p2 = bold_run (bold p) cols sel i i"
    using tty_sgr_seq [of "the cols ! i" "[]" p1] Suc.prems(1,4) p1 c2
    by (auto simp: bold_run_here p2_def o2_def p1_def change_def cur1_def cur2_def pen_for_def plain_pen_def
        split: option.splits if_splits)
  have ok: "cell_from (bold p) cols sel i i p2"
    using p2 c2 Suc.prems(4) bold
    by (auto simp: cell_from_def pen_for_def cur2_def change_def split: option.splits if_splits)
  obtain o3 c3 s3 where e: "emit_slice cols sel vline (i + 1) k cur2 (sel i) = (o3, c3, s3)"
    by (cases "emit_slice cols sel vline (i + 1) k cur2 (sel i)") auto
  have w: "w = o1 @ o2 @ vline ! i # o3" "cur' = c3" "sel' = s3"
    using Suc.prems(3) e
    by (auto simp: Let_def o1_def o2_def cur1_def cur2_def change_def split: option.splits if_splits)
  have "\<And>j. i + 1 \<le> j \<Longrightarrow> j < i + 1 + k \<Longrightarrow> vline ! j \<noteq> ESC"
    using Suc.prems(2) by simp
  from Suc.IH [OF p2 this e c2] obtain cells q where
    c: "\<And>rest. tty (o3 @ rest) p2 = (cells @ fst (tty rest q), snd (tty rest q))"
    "pen_for c3 s3 q" "map fst cells = map (\<lambda>j. vline ! j) [i + 1..<i + 1 + k]"
    "\<And>j. j < k \<Longrightarrow> cell_from (bold p2) cols sel (i + 1) (i + 1 + j) (snd (cells ! j))" by blast
  have "cell_from (bold p) cols sel i (i + 1 + j) (snd (cells ! j))" if "j < k" for j
    using c(4) [OF that] bold_run_step [of i "i + j" "bold p" cols sel] by (simp add: cell_from_def bold)
  note cells = this
  have "vline ! i \<noteq> ESC" using Suc.prems(2) [of i] by simp
  then have "\<forall>rest. tty (w @ rest) p = (((vline ! i, p2) # cells) @ fst (tty rest q), snd (tty rest q))"
    by (simp add: w t1 t2 c(1))
  moreover have "\<forall>j < Suc k. cell_from (bold p) cols sel i (i + j) (snd (((vline ! i, p2) # cells) ! j))"
    using ok cells by (auto simp: less_Suc_eq_0_disj)
  moreover have "map fst ((vline ! i, p2) # cells) = map (\<lambda>j. vline ! j) [i..<i + Suc k]"
    using c(3) by (simp add: upt_rec)
  ultimately show ?case
    using c(2) w by blast
qed


lemma pen_for_plain: "pen_for None False plain_pen"
  by (simp add: pen_for_def plain_pen_def)

lemma pen_for_default: "pen_for cur False p \<Longrightarrow> cur = None \<or> cur = Some C_DEFAULT \<Longrightarrow> p = plain_pen"
  by (cases p) (auto simp: pen_for_def plain_pen_def)

lemma default_least: "\<not> C_DEFAULT < c \<longleftrightarrow> c = C_DEFAULT"
  by (cases c) (simp_all add: less_color_def)

text \<open>
  C15. What a slice of a line looks like: a terminal with a plain pen that executes the escape
  sequences written for columns \<open>from\<close> to \<open>to\<close> prints exactly those characters, unless one of them is
  an escape character, and is left with a plain pen. Inside the selection they are in reverse video
  without a colour; outside it each has the foreground of the colour the scanner gave it, and is bold
  exactly from a bright colour on up to the next column that is selected or has the default colour.
\<close>

theorem slice_shown:
  assumes "from \<le> to" and "to < n"
    and "\<And>j. from \<le> j \<Longrightarrow> j \<le> to \<Longrightarrow> vline ! j \<noteq> ESC"
  shows "\<exists>cells. tty (syntax_write_slice mode n vline from (int to) sel) plain_pen = (cells, plain_pen) \<and>
     map fst cells = map (\<lambda>j. vline ! j) [from..<to + 1] \<and>
     (\<forall>j < to + 1 - from. cell_ok (line_colors mode vline n) sel from (from + j) (snd (cells ! j)))"
proof -
  let ?k = "to + 1 - from"
  obtain w cur cs where e: "emit_slice (line_colors mode vline n) sel vline from ?k None False = (w, cur, cs)"
    by (cases "emit_slice (line_colors mode vline n) sel vline from ?k None False") auto
  have "\<And>j. from \<le> j \<Longrightarrow> j < from + ?k \<Longrightarrow> vline ! j \<noteq> ESC"
    using assms by auto
  from emit_slice_shown [OF pen_for_plain this e] obtain cells q where
    c: "\<And>rest. tty (w @ rest) plain_pen = (cells @ fst (tty rest q), snd (tty rest q))"
    "pen_for cur cs q" "map fst cells = map (\<lambda>j. vline ! j) [from..<from + ?k]"
    "\<forall>j < ?k. cell_from (bold plain_pen) (line_colors mode vline n) sel from (from + j) (snd (cells ! j))" by blast
  define fin where "fin = (if cs \<or> (case cur of None \<Rightarrow> False | Some c \<Rightarrow> c > C_DEFAULT) then ESC_NORM_TEXT else [])"
  have "tty fin q = ([], plain_pen)"
  proof (cases "cs \<or> (case cur of None \<Rightarrow> False | Some c \<Rightarrow> c > C_DEFAULT)")
    case True
    then show ?thesis using tty_norm [of "[]" q] by (simp add: fin_def)
  next
    case False
    then have "q = plain_pen"
      using c(2) pen_for_default [of cur q] by (auto simp: default_least split: option.splits)
    then show ?thesis using False by (simp add: fin_def)
  qed
  moreover have "nat (int to - int from + 1) = ?k"
    using assms(1) by simp
  then have "syntax_write_slice mode n vline from (int to) sel = w @ fin"
    using assms(1,2) e by (simp add: syntax_write_slice_def fin_def)
  moreover have "from + ?k = to + 1" using assms(1) by simp
  ultimately show ?thesis
    using c by (intro exI [of _ cells]) (simp add: cell_from_start plain_pen_def)
qed

theorem slice_shown_witness:
  "\<exists>cells. tty (syntax_write_slice SYNTAX_C 6 ''int a;'' 0 (int 5) (\<lambda>i. i = 4)) plain_pen = (cells, plain_pen) \<and>
     map fst cells = map (\<lambda>j. ''int a;'' ! j) [0..<5 + 1] \<and>
     (\<forall>j < 5 + 1 - 0. cell_ok (line_colors SYNTAX_C ''int a;'' 6) (\<lambda>i. i = 4) 0 (0 + j) (snd (cells ! j)))"
proof (rule slice_shown)
  show "''int a;'' ! j \<noteq> ESC" if "0 \<le> j" "j \<le> 5" for j :: nat
    using that nth_mem [of j "''int a;''"] by (auto simp del: nth_mem)
qed simp_all

text \<open>The number after a JSON bracket is shown bold, although its colour is a plain one.\<close>

lemma number_after_bracket_bold:
  "fst (tty (syntax_write_slice SYNTAX_JSON 2 ''[1'' 0 1 (\<lambda>_. False)) plain_pen) ! 1 =
     (CHR ''1'', \<lparr>fg = 35, bold = True, rev_video = False\<rparr>) \<and>
   color_fg C_NUMBER = 35 \<and> \<not> color_bold C_NUMBER"
  by code_simp

text \<open>
  C17. The four token scanners end at the end of the line: started at column 0 with as many rounds as
  the line has columns, each stops exactly at the end, and more rounds change nothing; so every
  round of the loop makes progress and the colours cover the whole line.
\<close>

theorem scanners_finish:
  "fst (run_tokens json_token s n n 0 col) = n \<and> run_tokens json_token s n (n + k) 0 col = run_tokens json_token s n n 0 col \<and>
   fst (run_tokens rd_token s n n 0 col) = n \<and> run_tokens rd_token s n (n + k) 0 col = run_tokens rd_token s n n 0 col \<and>
   fst (run_tokens js_token s n n 0 col) = n \<and> run_tokens js_token s n (n + k) 0 col = run_tokens js_token s n n 0 col \<and>
   fst (run_tokens c_token s n n 0 col) = n \<and> run_tokens c_token s n (n + k) 0 col = run_tokens c_token s n n 0 col"
  using json_scanner.run_tokens_end [of 0 n n s col] rd_scanner.run_tokens_end [of 0 n n s col]
    js_scanner.run_tokens_end [of 0 n n s col] c_scanner.run_tokens_end [of 0 n n s col]
    json_scanner.run_tokens_more_fuel [of 0 n n s k col] rd_scanner.run_tokens_more_fuel [of 0 n n s k col]
    js_scanner.run_tokens_more_fuel [of 0 n n s k col] c_scanner.run_tokens_more_fuel [of 0 n n s k col]
  by simp

text \<open>Every scanner returns one colour per column.\<close>

lemma length_color_conf: "length (color_conf s n col) = length col"
  by (simp add: color_conf_def Let_def split: prod.splits)

lemma length_c_directive: "length (snd (c_directive s n col)) = length col"
  by (simp add: c_directive_def Let_def)

lemma c_directive_le: "fst (c_directive s n col) \<le> n"
proof -
  let ?j0 = "scan blank_or_tab s n 0" and ?k = "scan isalpha s n (scan blank_or_tab s n 0 + 1)"
  let ?q = "scan blank_or_tab s n ?k"
  have "?j0 < n \<Longrightarrow> ?k \<le> n" by (rule scan_le) simp
  moreover have "?q < n \<Longrightarrow> scan (\<lambda>d. d \<noteq> CHR ''>'') s n (?q + 1) \<le> n" by (rule scan_le) simp
  ultimately show ?thesis by (auto simp: c_directive_def Let_def)
qed

lemma length_color_rd: "length (color_rd s n col) = length col"
  by (simp add: color_rd_def Let_def rd_scanner.run_tokens_length)

lemma length_color_c: "length (color_c s n col) = length col"
  by (simp add: color_c_def case_prod_beta c_scanner.run_tokens_length length_c_directive)

lemma length_color_json: "length (color_json s n col) = length col"
  by (simp add: color_json_def json_scanner.run_tokens_length)

lemma length_color_js: "length (color_js s n col) = length col"
  by (simp add: color_js_def js_scanner.run_tokens_length)

lemma length_line_colors: "line_colors mode vline n = Some col \<Longrightarrow> length col = n"
  by (cases mode) (auto simp: line_colors_def length_color_conf length_color_rd length_color_c
      length_color_json length_color_js split: if_splits)

end
