(* ===== verification/EditorState.thy ===== *)
theory EditorState
  imports UndoStack Syntax
begin

text \<open>
  The globals of the editor (\<open>vim.h\<close>, \<open>vim_util.c\<close>) as one record, grouped by who owns them:
  the text with its undo journal (\<open>ed\<close>), the display (\<open>dsp\<close>), the keyboard with its replay
  queue (\<open>kbd\<close>), the file system the process sees (\<open>fsys\<close>), and the command state itself. The
  small operations on it that every other part calls stand here: output, status messages,
  registers, marks and the simple dot movements.

  Standard input is the list of what \<open>poll\<close> and \<open>read\<close> will report: a byte, a pause longer than
  any timeout the editor uses, or a failing read (end of file included). Past the end of the list
  nothing more arrives: a bounded wait times out and a blocking read never returns. A function
  that may read input therefore has an \<open>option\<close> result, \<open>None\<close> for not returning.
\<close>

datatype event = Byte char | Pause | ReadError

datatype buftype = PARTIAL | WHOLE | MULTI

record display =
  rows :: int
  columns :: int
  crow :: int
  ccol :: int
  offset :: int
  screen :: "int \<Rightarrow> char"
  screensize :: int
  screenbegin :: ptr
  have_status_msg :: int
  last_status_cksum :: int
  status_buffer :: string
  last_modified_count :: int
  format_edit_status_tot :: int
  refresh_old_offset :: int
  cursor_hidden :: bool
  vis_last_screenbegin :: "ptr option"
  cindex :: int
  keep_index :: bool
  cur_syntax :: syntax_mode
  stdout :: string

record keyboard =
  stdin :: "event list"
  rb_count :: int
  rb :: "int \<Rightarrow> char"
  adding2q :: bool
  last_modifying_cmd :: string
  ioq :: "string option"
  dotcnt :: int

text \<open>
  The system calls on files: \<open>st_size\<close> (\<open>None\<close> for a failing \<open>stat\<close>), whether \<open>open\<close> succeeds for
  reading and for writing, the bytes \<open>read\<close> delivers into a hole of the file's size (\<open>None\<close> for
  an error), the count \<open>write\<close> returns, the message of \<open>errno\<close>, and what has been written.
\<close>

record filesystem =
  st_size :: "string \<Rightarrow> int option"
  can_read :: "string \<Rightarrow> bool"
  can_write :: "string \<Rightarrow> bool"
  read_bytes :: "string \<Rightarrow> string option"
  write_count :: "string \<Rightarrow> int \<Rightarrow> int"
  errno_text :: string
  written :: "(string \<times> string) list"

record vi =
  ed :: ustate
  dsp :: display
  kbd :: keyboard
  fsys :: filesystem
  dot :: ptr
  marks :: "nat \<Rightarrow> ptr option"
  regs :: "nat \<Rightarrow> (nat \<times> string) option"
  regtype :: "nat \<Rightarrow> buftype"
  allocs :: nat
  YDreg :: nat
  vi_setops :: "16 word"
  tabstop :: int
  cmd_mode :: int
  cmdcnt :: int
  cmd_error :: bool
  editing :: int
  current_filename :: "string option"
  last_search_pattern :: string
  last_search_char :: int
  last_search_cmd :: int
  indentcol :: int
  vi_visual :: bool
  vi_visual_anchor :: "ptr option"
  edit_file_cur_line :: "ptr option"
  argc :: int
  vi_optind :: int

abbreviation tx :: "vi \<Rightarrow> tbuf" where
  "tx s \<equiv> tb (ed s)"

abbreviation vend :: "vi \<Rightarrow> ptr" where
  "vend s \<equiv> tend (tb (ed s))"

abbreviation ch :: "vi \<Rightarrow> ptr \<Rightarrow> char" where
  "ch s p \<equiv> mem (tb (ed s)) p"

definition on_ed :: "(ustate \<Rightarrow> ustate) \<Rightarrow> vi \<Rightarrow> vi" where
  "on_ed f s = s\<lparr>ed := f (ed s)\<rparr>"

definition on_tb :: "(tbuf \<Rightarrow> tbuf) \<Rightarrow> vi \<Rightarrow> vi" where
  "on_tb f s = s\<lparr>ed := (ed s)\<lparr>tb := f (tb (ed s))\<rparr>\<rparr>"

definition on_dsp :: "(display \<Rightarrow> display) \<Rightarrow> vi \<Rightarrow> vi" where
  "on_dsp f s = s\<lparr>dsp := f (dsp s)\<rparr>"

definition on_kbd :: "(keyboard \<Rightarrow> keyboard) \<Rightarrow> vi \<Rightarrow> vi" where
  "on_kbd f s = s\<lparr>kbd := f (kbd s)\<rparr>"

subsection \<open>Options\<close>

text \<open>The bit of an option is half its index in \<open>OPTS_STR\<close>, where each has two names.\<close>

definition autoindent :: "vi \<Rightarrow> bool" where
  "autoindent s = bit (vi_setops s) 0"

definition expandtab :: "vi \<Rightarrow> bool" where
  "expandtab s = bit (vi_setops s) 1"

definition err_method :: "vi \<Rightarrow> bool" where
  "err_method s = bit (vi_setops s) 2"

definition ignorecase :: "vi \<Rightarrow> bool" where
  "ignorecase s = bit (vi_setops s) 3"

definition showmatch :: "vi \<Rightarrow> bool" where
  "showmatch s = bit (vi_setops s) 4"

subsection \<open>Text output\<close>

text \<open>A C string ends at its first NUL.\<close>

definition cstr :: "string \<Rightarrow> string" where
  "cstr w = takeWhile (\<lambda>c. c \<noteq> NUL) w"

definition puts_no_eol :: "string \<Rightarrow> display \<Rightarrow> display" where
  "puts_no_eol w d = d\<lparr>stdout := stdout d @ cstr w\<rparr>"

definition STATUS_BUFFER_LEN :: nat where
  "STATUS_BUFFER_LEN = 200"

definition status_line :: "string \<Rightarrow> vi \<Rightarrow> vi" where
  "status_line w = on_dsp (\<lambda>d. d\<lparr>status_buffer := take (STATUS_BUFFER_LEN - 1) (cstr w),
      have_status_msg := 1\<rparr>)"

definition status_line_bold :: "string \<Rightarrow> vi \<Rightarrow> vi" where
  "status_line_bold w = on_dsp (\<lambda>d. d\<lparr>
      status_buffer := ESC_BOLD_TEXT @
        take (STATUS_BUFFER_LEN - (length ESC_BOLD_TEXT + 1) - (length ESC_NORM_TEXT + 1) - 1) (cstr w) @
        ESC_NORM_TEXT,
      have_status_msg := 1 + int (length ESC_BOLD_TEXT) + int (length ESC_NORM_TEXT)\<rparr>)"

definition status_line_bold_errno :: "string \<Rightarrow> vi \<Rightarrow> vi" where
  "status_line_bold_errno fn s = status_line_bold (CHR 0x27 # cstr fn @ [CHR 0x27] @ '' '' @ errno_text (fsys s)) s"

text \<open>\<open>print_literal\<close>: the text built so far is the accumulator; the loop stops when it grows long.\<close>

definition MAX_INPUT_LEN :: nat where
  "MAX_INPUT_LEN = 128"

fun print_literal_from :: "string \<Rightarrow> string \<Rightarrow> string" where
  "print_literal_from acc [] = acc"
| "print_literal_from acc (c0 # cs) =
     (let c = (if cval c0 \<ge> 128 then CHR ''?'' else c0);
          acc' = (if cval c < 32 \<or> cval c = 127
                  then acc @ [CHR ''^'', (let x = (if cval c < 64 then cval c + 64 else cval c)
                                         in if x = 127 then CHR ''?'' else to_char x)]
                  else acc @ [c])
      in if length acc' > MAX_INPUT_LEN - 10 then acc' else print_literal_from acc' cs)"

definition print_literal :: "string \<Rightarrow> string" where
  "print_literal w = print_literal_from [] (if cstr w = [] then ''(NULL)'' else cstr w)"

definition not_implemented :: "string \<Rightarrow> vi \<Rightarrow> vi" where
  "not_implemented w = status_line_bold (CHR 0x27 # print_literal w @ [CHR 0x27] @ '' is not implemented'')"

definition force_status :: "vi \<Rightarrow> vi" where
  "force_status = on_dsp (\<lambda>d. d\<lparr>last_status_cksum := 0\<rparr>)"

subsection \<open>Registers and marks\<close>

text \<open>
  \<open>strndup\<close> copies up to a NUL. The first component of a register is the number of its
  allocation, which stands for its address in the comparisons \<open>reg[YDreg] != savereg\<close>.
\<close>

definition text_yank :: "ptr \<Rightarrow> ptr \<Rightarrow> nat \<Rightarrow> buftype \<Rightarrow> vi \<Rightarrow> vi" where
  "text_yank p q dest ty s =
     (let cnt = abs (q - p); p' = min p q
      in s\<lparr>regs := (regs s)(dest := Some (allocs s, cstr (span (mem (tx s)) p' (nat (cnt + 1))))),
           regtype := (regtype s)(dest := ty), allocs := allocs s + 1\<rparr>)"

definition what_reg :: "vi \<Rightarrow> char" where
  "what_reg s =
     (if YDreg s \<le> 25 then char_of (97 + YDreg s)
      else if YDreg s = 26 then CHR ''D''
      else if YDreg s = 27 then CHR ''U''
      else CHR ''D'')"

definition check_context :: "int \<Rightarrow> vi \<Rightarrow> vi" where
  "check_context cmd s =
     (if in_strchr (CHR '':'' # CHR ''%'' # CHR ''{'' # CHR ''}'' # CHR 0x27 # ''GHLMz/?Nn'') cmd
      then s\<lparr>marks := (marks s)(27 := marks s 26, 26 := Some (dot s))\<rparr>
      else s)"

definition swap_context :: "ptr \<Rightarrow> vi \<Rightarrow> ptr \<times> vi" where
  "swap_context p s =
     (case marks s 27 of None \<Rightarrow> (p, s)
      | Some m \<Rightarrow> if 0 \<le> m \<and> m \<le> vend s - 1
                  then (m, s\<lparr>marks := (marks s)(27 := Some p, 26 := Some m)\<rparr>)
                  else (p, s))"

definition yank_status :: "string \<Rightarrow> string \<Rightarrow> int \<Rightarrow> vi \<Rightarrow> vi" where
  "yank_status op p cnt s =
     status_line (op @ '' '' @ dec (int (length (filter (\<lambda>c. c = NL) (cstr p))) * cnt) @ '' lines ('' @
       dec (int (length (cstr p)) * cnt) @ '' chars) from ['' @ [what_reg s] @ '']'') s"

definition yank_delete :: "ptr \<Rightarrow> ptr \<Rightarrow> buftype \<Rightarrow> bool \<Rightarrow> undo_mode \<Rightarrow> vi \<Rightarrow> ptr \<times> vi" where
  "yank_delete start0 stop0 ty del undo s =
     (let start = min start0 stop0; stop = max start0 stop0
      in if ty = PARTIAL \<and> ch s start = NL then (start, s)
         else
           (let s1 = text_yank start stop (YDreg s) ty s
            in if del then
                 (case text_hole_delete (ed s1) start stop undo of (p, u) \<Rightarrow> (p, s1\<lparr>ed := u\<rparr>))
               else (start, s1)))"

subsection \<open>Dot movements\<close>

definition commit :: "vi \<Rightarrow> vi" where
  "commit = on_ed undo_queue_commit"

definition dot_left :: "vi \<Rightarrow> vi" where
  "dot_left s =
     (let s = commit s
      in if dot s > 0 \<and> ch s (dot s - 1) \<noteq> NL then s\<lparr>dot := dot s - 1\<rparr> else s)"

definition dot_right :: "vi \<Rightarrow> vi" where
  "dot_right s =
     (let s = commit s
      in if dot s < vend s - 1 \<and> ch s (dot s) \<noteq> NL then s\<lparr>dot := dot s + 1\<rparr> else s)"

definition dot_begin :: "vi \<Rightarrow> vi" where
  "dot_begin s = (let s = commit s in s\<lparr>dot := begin_line (tx s) (dot s)\<rparr>)"

definition dot_end :: "vi \<Rightarrow> vi" where
  "dot_end s = (let s = commit s in s\<lparr>dot := end_line (tx s) (dot s)\<rparr>)"

definition dot_next :: "vi \<Rightarrow> vi" where
  "dot_next s = (let s = commit s in s\<lparr>dot := next_line (tx s) (dot s)\<rparr>)"

definition dot_prev :: "vi \<Rightarrow> vi" where
  "dot_prev s = (let s = commit s in s\<lparr>dot := prev_line (tx s) (dot s)\<rparr>)"

function skip_over_ws :: "tbuf \<Rightarrow> ptr \<Rightarrow> ptr" where
  "skip_over_ws t p =
     (if isspace (mem t p) \<and> mem t p \<noteq> NL \<and> p < tend t - 1 then skip_over_ws t (p + 1) else p)"
  by pat_completeness auto
termination by (relation "measure (\<lambda>(t, p). nat (tend t - p))") auto

declare skip_over_ws.simps [simp del]

definition dot_skip_over_ws :: "vi \<Rightarrow> vi" where
  "dot_skip_over_ws s = s\<lparr>dot := skip_over_ws (tx s) (dot s)\<rparr>"

definition dot_scroll :: "int \<Rightarrow> int \<Rightarrow> vi \<Rightarrow> vi" where
  "dot_scroll cnt dir s =
     (let s = commit s;
          t = tx s;
          sb = ((if dir < 0 then prev_line t else next_line t) ^^ nat cnt) (screenbegin (dsp s));
          d = (if dot s < sb then sb else dot s);
          q = end_screen t sb (rows (dsp s));
          d' = (if d > q then begin_line t q else d)
      in dot_skip_over_ws (s\<lparr>dsp := (dsp s)\<lparr>screenbegin := sb\<rparr>, dot := d'\<rparr>))"

definition start_new_cmd_q :: "int \<Rightarrow> vi \<Rightarrow> vi" where
  "start_new_cmd_q c s =
     on_kbd (\<lambda>k. k\<lparr>dotcnt := (if cmdcnt s \<noteq> 0 then cmdcnt s else 1),
       last_modifying_cmd := [to_char c], adding2q := True\<rparr>) s"

definition end_cmd_q :: "vi \<Rightarrow> vi" where
  "end_cmd_q s = on_kbd (\<lambda>k. k\<lparr>adding2q := False\<rparr>) (s\<lparr>YDreg := 26\<rparr>)"

text \<open>\<open>indent_len\<close>: the blanks a line starts with, never past the last byte of the text.\<close>

function indent_end :: "tbuf \<Rightarrow> ptr \<Rightarrow> ptr" where
  "indent_end t r = (if r < tend t - 1 \<and> isblank (mem t r) then indent_end t (r + 1) else r)"
  by pat_completeness auto
termination by (relation "measure (\<lambda>(t, r). nat (tend t - r))") auto

declare indent_end.simps [simp del]

definition indent_len :: "tbuf \<Rightarrow> ptr \<Rightarrow> int" where
  "indent_len t p = indent_end t p - p"

subsection \<open>What these operations leave alone\<close>

lemma ed_on_dsp [frame_simps]: "ed (on_dsp f s) = ed s"
  and dot_on_dsp [frame_simps]: "dot (on_dsp f s) = dot s"
  and kbd_on_dsp [frame_simps]: "kbd (on_dsp f s) = kbd s"
  by (simp_all add: on_dsp_def)

lemma ed_on_kbd [frame_simps]: "ed (on_kbd f s) = ed s"
  and dot_on_kbd [frame_simps]: "dot (on_kbd f s) = dot s"
  and dsp_on_kbd [frame_simps]: "dsp (on_kbd f s) = dsp s"
  by (simp_all add: on_kbd_def)

lemma ed_status_line [frame_simps]: "ed (status_line w s) = ed s"
  and dot_status_line [frame_simps]: "dot (status_line w s) = dot s"
  by (simp_all add: status_line_def frame_simps)

lemma ed_status_line_bold [frame_simps]: "ed (status_line_bold w s) = ed s"
  and dot_status_line_bold [frame_simps]: "dot (status_line_bold w s) = dot s"
  by (simp_all add: status_line_bold_def frame_simps)

lemma ed_messages [frame_simps]:
  "ed (status_line_bold_errno w s) = ed s" "ed (not_implemented w s) = ed s"
  "ed (force_status s) = ed s" "ed (yank_status op p cnt s) = ed s"
  "dot (status_line_bold_errno w s) = dot s" "dot (not_implemented w s) = dot s"
  "dot (force_status s) = dot s" "dot (yank_status op p cnt s) = dot s"
  by (simp_all add: status_line_bold_errno_def not_implemented_def force_status_def yank_status_def
      frame_simps)

lemma ed_text_yank [frame_simps]: "ed (text_yank p q r ty s) = ed s"
  and dot_text_yank [frame_simps]: "dot (text_yank p q r ty s) = dot s"
  by (simp_all add: text_yank_def Let_def)

lemma ed_check_context [frame_simps]: "ed (check_context c s) = ed s"
  and dot_check_context [frame_simps]: "dot (check_context c s) = dot s"
  by (simp_all add: check_context_def)

lemma ed_swap_context [frame_simps]: "ed (snd (swap_context p s)) = ed s"
  by (simp add: swap_context_def split: option.split)

lemma tx_commit [frame_simps]: "tx (commit s) = tx s"
  and dot_commit [frame_simps]: "dot (commit s) = dot s"
  and dsp_commit [frame_simps]: "dsp (commit s) = dsp s"
  and kbd_commit [frame_simps]: "kbd (commit s) = kbd s"
  by (simp_all add: commit_def on_ed_def frame_simps)

lemma tx_dot_moves [frame_simps]:
  "tx (dot_left s) = tx s" "tx (dot_right s) = tx s" "tx (dot_begin s) = tx s"
  "tx (dot_end s) = tx s" "tx (dot_next s) = tx s" "tx (dot_prev s) = tx s"
  "tx (dot_skip_over_ws s) = tx s" "tx (dot_scroll cnt dir s) = tx s"
  by (simp_all add: dot_left_def dot_right_def dot_begin_def dot_end_def dot_next_def dot_prev_def
      dot_skip_over_ws_def dot_scroll_def Let_def frame_simps)

lemma ed_cmd_q [frame_simps]:
  "ed (start_new_cmd_q c s) = ed s" "ed (end_cmd_q s) = ed s"
  "dot (start_new_cmd_q c s) = dot s" "dot (end_cmd_q s) = dot s"
  by (simp_all add: start_new_cmd_q_def end_cmd_q_def frame_simps)

lemma yank_delete_end [end_nonneg]: "0 \<le> vend s \<Longrightarrow> 0 \<le> vend (snd (yank_delete p q ty del u s))"
  using tend_text_hole_delete [of "ed s" "min p q" "max p q" u]
  by (auto simp: yank_delete_def Let_def frame_simps split: prod.split)


subsection \<open>A concrete editor\<close>

text \<open>
  An editor on a screen of three rows and twenty columns, with a given text and given input, for
  evaluating the definitions: \<open>demo\<close> has two lines and no input.
\<close>

definition editor_of :: "string \<Rightarrow> event list \<Rightarrow> vi" where
  "editor_of w input =
       \<lparr>ed = buffer_of w,
        dsp = \<lparr>rows = 3, columns = 20, crow = 0, ccol = 0, offset = 0, screen = \<lambda>_. CHR '' '', screensize = 68,
               screenbegin = 0, have_status_msg = 0, last_status_cksum = 0, status_buffer = [],
               last_modified_count = - 1, format_edit_status_tot = 0, refresh_old_offset = 0,
               cursor_hidden = False, vis_last_screenbegin = None, cindex = 0, keep_index = False,
               cur_syntax = SYNTAX_NONE, stdout = []\<rparr>,
        kbd = \<lparr>stdin = input, rb_count = 0, rb = \<lambda>_. NUL, adding2q = False, last_modifying_cmd = [],
               ioq = None, dotcnt = 0\<rparr>,
        fsys = \<lparr>st_size = \<lambda>_. None, can_read = \<lambda>_. False, can_write = \<lambda>_. True, read_bytes = \<lambda>_. None,
                write_count = \<lambda>_ n. n, errno_text = [], written = []\<rparr>,
        dot = 0, marks = \<lambda>_. None, regs = \<lambda>_. None, regtype = \<lambda>_. PARTIAL, allocs = 0,
        YDreg = 26, vi_setops = 0, tabstop = 8, cmd_mode = 0, cmdcnt = 0, cmd_error = False,
        editing = 1, current_filename = None, last_search_pattern = [], last_search_char = 0,
        last_search_cmd = 0, indentcol = 0, vi_visual = False, vi_visual_anchor = None,
        edit_file_cur_line = None, argc = 0, vi_optind = 0\<rparr>"

definition demo :: vi where
  "demo = editor_of (''ab'' @ [NL] @ ''cd'' @ [NL]) []"

end
