(* ===== verification/Keyboard.thy ===== *)
theory Keyboard
  imports EditorState "HOL-Library.Sublist"
begin

text \<open>
  Keyboard input (\<open>vim_input.c\<close>): bytes from standard input, the decoding of escape sequences with
  its read-ahead buffer, the recording of the last modifying command and its replay, and motion
  counts. A key is an \<open>int\<close>: a byte, a negative \<open>KEYCODE\<close>, or -1 for an error.

  \<open>rb_count\<close> is \<open>readbuffer[0]\<close>, the number of pending bytes, and \<open>rb i\<close> is \<open>readbuffer[i + 1]\<close>.
  \<open>ioq = None\<close> is \<open>ioq_start == NULL\<close>; otherwise it is what is left of the replayed string.
\<close>

subsection \<open>Key codes\<close>

abbreviation "KEYCODE_UP \<equiv> - 2 :: int"
abbreviation "KEYCODE_DOWN \<equiv> - 3 :: int"
abbreviation "KEYCODE_RIGHT \<equiv> - 4 :: int"
abbreviation "KEYCODE_LEFT \<equiv> - 5 :: int"
abbreviation "KEYCODE_HOME \<equiv> - 6 :: int"
abbreviation "KEYCODE_END \<equiv> - 7 :: int"
abbreviation "KEYCODE_INSERT \<equiv> - 8 :: int"
abbreviation "KEYCODE_DELETE \<equiv> - 9 :: int"
abbreviation "KEYCODE_PAGEUP \<equiv> - 10 :: int"
abbreviation "KEYCODE_PAGEDOWN \<equiv> - 11 :: int"
abbreviation "KEYCODE_BACKSPACE \<equiv> - 12 :: int"
abbreviation "KEYCODE_D \<equiv> - 13 :: int"

unbundle bit_operations_syntax

definition KEYCODE_CTRL_RIGHT :: int where
  "KEYCODE_CTRL_RIGHT = KEYCODE_RIGHT AND NOT 0x40"

definition KEYCODE_CTRL_LEFT :: int where
  "KEYCODE_CTRL_LEFT = KEYCODE_LEFT AND NOT 0x40"

definition KEYCODE_ALT_RIGHT :: int where
  "KEYCODE_ALT_RIGHT = KEYCODE_RIGHT AND NOT 0x20"

definition KEYCODE_ALT_LEFT :: int where
  "KEYCODE_ALT_LEFT = KEYCODE_LEFT AND NOT 0x20"

definition KEYCODE_ALT_BACKSPACE :: int where
  "KEYCODE_ALT_BACKSPACE = KEYCODE_BACKSPACE AND NOT 0x20"

definition KEYCODE_ALT_D :: int where
  "KEYCODE_ALT_D = KEYCODE_D AND NOT 0x20"

definition key_isdigit :: "int \<Rightarrow> bool" where
  "key_isdigit c \<longleftrightarrow> 48 \<le> c \<and> c \<le> 57"

subsection \<open>Bytes from standard input\<close>

text \<open>One bounded wait, and one blocking read, each giving the result of \<open>safe_poll\<close> and the byte.\<close>

fun poll_bounded :: "event list \<Rightarrow> int \<times> char \<times> event list" where
  "poll_bounded [] = (0, NUL, [])"
| "poll_bounded (Byte c # es) = (1, c, es)"
| "poll_bounded (Pause # es) = (0, NUL, es)"
| "poll_bounded (ReadError # es) = (- 1, NUL, es)"

fun poll_blocking :: "event list \<Rightarrow> (int \<times> char \<times> event list) option" where
  "poll_blocking [] = None"
| "poll_blocking (Byte c # es) = Some (1, c, es)"
| "poll_blocking (Pause # es) = poll_blocking es"
| "poll_blocking (ReadError # es) = Some (- 1, NUL, es)"

definition store_poll :: "int \<Rightarrow> int \<times> char \<times> event list \<Rightarrow> keyboard \<Rightarrow> int \<times> keyboard" where
  "store_poll pos r k =
     (case r of (n, c, es) \<Rightarrow>
        (n, k\<lparr>stdin := es, rb := (if n = 1 then (rb k)(pos := c) else rb k)\<rparr>))"

definition safe_poll :: "int \<Rightarrow> int \<Rightarrow> keyboard \<Rightarrow> (int \<times> keyboard) option" where
  "safe_poll pos timeout k =
     (if timeout \<ge> 0 then Some (store_poll pos (poll_bounded (stdin k)) k)
      else map_option (\<lambda>r. store_poll pos r k) (poll_blocking (stdin k)))"

subsection \<open>Escape sequences\<close>

text \<open>\<open>esccmds\<close>: the bytes after ESC, without the end mark in bit 7, and the key code.\<close>

definition esccmds :: "(string \<times> int) list" where
  "esccmds =
    [([CHR 0x7F], KEYCODE_ALT_BACKSPACE), ([CHR 0x08], KEYCODE_ALT_BACKSPACE),
     (''d'', KEYCODE_ALT_D), (''f'', KEYCODE_ALT_RIGHT), (''b'', KEYCODE_ALT_LEFT),
     (''OA'', KEYCODE_UP), (''OB'', KEYCODE_DOWN), (''OC'', KEYCODE_RIGHT), (''OD'', KEYCODE_LEFT),
     (''OH'', KEYCODE_HOME), (''OF'', KEYCODE_END),
     (''[A'', KEYCODE_UP), (''[B'', KEYCODE_DOWN), (''[C'', KEYCODE_RIGHT), (''[D'', KEYCODE_LEFT),
     (''[H'', KEYCODE_HOME), (''[F'', KEYCODE_END),
     (''[1~'', KEYCODE_HOME), (''[2~'', KEYCODE_INSERT), (''[3~'', KEYCODE_DELETE),
     (''[4~'', KEYCODE_END), (''[5~'', KEYCODE_PAGEUP), (''[6~'', KEYCODE_PAGEDOWN),
     (''[7~'', KEYCODE_HOME), (''[8~'', KEYCODE_END),
     (''[1;5C'', KEYCODE_CTRL_RIGHT), (''[1;5D'', KEYCODE_CTRL_LEFT),
     (''[1;3C'', KEYCODE_ALT_RIGHT), (''[1;3D'', KEYCODE_ALT_LEFT)]"

datatype seq_result = NoMore int keyboard | Mismatch int keyboard | Matched keyboard

text \<open>The comparison of one sequence from position \<open>i\<close> on, \<open>n\<close> bytes having been read.\<close>

fun match_seq :: "string \<Rightarrow> int \<Rightarrow> int \<Rightarrow> keyboard \<Rightarrow> seq_result" where
  "match_seq [] i n k = Matched k"
| "match_seq (c # cs) i n k =
     (let (r, k') = (if n \<le> i then store_poll n (poll_bounded (stdin k)) k else (1, k));
          n' = (if n \<le> i then n + 1 else n)
      in if r \<le> 0 then NoMore n k'
         else if rb k' i \<noteq> c then Mismatch n' k'
         else if cs = [] then Matched k'
         else match_seq cs (i + 1) n' k')"

datatype key_result = Key int keyboard | StartOver keyboard

fun walk_seqs :: "(string \<times> int) list \<Rightarrow> int \<Rightarrow> keyboard \<Rightarrow> key_result" where
  "walk_seqs [] n k = (if n \<le> 1 then Key 27 (k\<lparr>rb_count := n\<rparr>) else StartOver (k\<lparr>rb_count := 0\<rparr>))"
| "walk_seqs ((sq, code) # rest) n k =
     (case match_seq sq 0 n k of
        NoMore n' k' \<Rightarrow> Key (if n' = 0 then 27 else - 1) k'
      | Mismatch n' k' \<Rightarrow> walk_seqs rest n' k'
      | Matched k' \<Rightarrow> Key code (k'\<lparr>rb_count := 0\<rparr>))"

definition take_pending :: "int \<Rightarrow> keyboard \<Rightarrow> key_result" where
  "take_pending n k =
     (let c = rb k 0;
          m = n - 1;
          k' = (if m \<noteq> 0 then k\<lparr>rb := memmove (rb k) 0 1 m\<rparr> else k)
      in if c \<noteq> ESC then Key (cval c) (k'\<lparr>rb_count := m\<rparr>) else walk_seqs esccmds m k')"

definition read_key_once :: "int \<Rightarrow> keyboard \<Rightarrow> key_result option" where
  "read_key_once timeout k =
     (if rb_count k = 0 then
        (case safe_poll 0 timeout k of None \<Rightarrow> None
         | Some (n, k') \<Rightarrow> Some (if n \<le> 0 then Key (- 1) k' else take_pending n k'))
      else Some (take_pending (rb_count k) k))"

partial_function (option) read_key :: "int \<Rightarrow> keyboard \<Rightarrow> (int \<times> keyboard) option" where
  "read_key timeout k =
     Option.bind (read_key_once timeout k)
       (\<lambda>r. case r of Key c k' \<Rightarrow> Some (c, k') | StartOver k' \<Rightarrow> read_key timeout k')"

declare read_key.simps [code]

subsection \<open>Characters, replayed or typed\<close>

definition readit :: "keyboard \<Rightarrow> (int \<times> keyboard) option" where
  "readit k = read_key (- 1) k"

definition get_one_char :: "keyboard \<Rightarrow> (int \<times> keyboard) option" where
  "get_one_char k =
     (if \<not> adding2q k then
        (case ioq k of None \<Rightarrow> readit k
         | Some q \<Rightarrow>
             if q \<noteq> [] \<and> hd q \<noteq> NUL then Some (cval (hd q), k\<lparr>ioq := Some (tl q)\<rparr>)
             else readit (k\<lparr>ioq := None\<rparr>))
      else
        (case readit k of None \<Rightarrow> None
         | Some (c, k') \<Rightarrow>
             Some (c, if length (last_modifying_cmd k') \<ge> MAX_INPUT_LEN - 2
                      then k'\<lparr>adding2q := False, last_modifying_cmd := []\<rparr>
                      else k'\<lparr>last_modifying_cmd := last_modifying_cmd k' @ [to_char c]\<rparr>)))"

definition getc :: "vi \<Rightarrow> (int \<times> vi) option" where
  "getc s = map_option (\<lambda>(c, k). (c, s\<lparr>kbd := k\<rparr>)) (get_one_char (kbd s))"

partial_function (option) motion_count :: "int \<Rightarrow> int \<Rightarrow> vi \<Rightarrow> (int \<times> int \<times> vi) option" where
  "motion_count c cnt s =
     (if key_isdigit c then
        Option.bind (getc s) (\<lambda>(c', s'). motion_count c' (cnt * 10 + (c - 48)) s')
      else Some (c, cnt, s))"

declare motion_count.simps [code]

definition get_motion_char :: "vi \<Rightarrow> (int \<times> vi) option" where
  "get_motion_char s =
     do {
       (c, s1) \<leftarrow> getc s;
       if key_isdigit c then
         if c \<noteq> 48 then
           do {
             (c', cnt, s2) \<leftarrow> motion_count c 0 s1;
             Some (c', s2\<lparr>cmdcnt := (if cmdcnt s2 \<noteq> 0 then cmdcnt s2 else 1) * cnt\<rparr>)
           }
         else Some (c, s1\<lparr>cmdcnt := 0\<rparr>)
       else Some (c, s1)
     }"


subsection \<open>Reading keys touches only the keyboard\<close>

lemma getc_frame: "getc s = Some (c, s') \<Longrightarrow> \<exists>k. s' = s\<lparr>kbd := k\<rparr>"
  by (auto simp: getc_def)

lemma motion_count_frame:
  assumes "motion_count c cnt s = Some r"
  shows "\<exists>k. snd (snd r) = s\<lparr>kbd := k\<rparr>"
proof (rule motion_count.raw_induct [where P = "\<lambda>c cnt s r. \<exists>k. snd (snd r) = s\<lparr>kbd := k\<rparr>",
      OF _ assms])
  fix mc :: "int \<Rightarrow> int \<Rightarrow> vi \<Rightarrow> (int \<times> int \<times> vi) option" and c cnt s r
  assume IH: "\<And>c cnt s r. mc c cnt s = Some r \<Longrightarrow> \<exists>k. snd (snd r) = s\<lparr>kbd := k\<rparr>"
    and eq: "(if key_isdigit c then
        Option.bind (getc s) (\<lambda>(c', s'). mc c' (cnt * 10 + (c - 48)) s')
      else Some (c, cnt, s)) = Some r"
  show "\<exists>k. snd (snd r) = s\<lparr>kbd := k\<rparr>"
  proof (cases "key_isdigit c")
    case True
    with eq obtain c' s1 where g: "getc s = Some (c', s1)" "mc c' (cnt * 10 + (c - 48)) s1 = Some r"
      by (auto simp: bind_eq_Some_conv)
    then obtain k where "s1 = s\<lparr>kbd := k\<rparr>" using getc_frame by blast
    then show ?thesis using IH [OF g(2)] by auto
  qed (use eq in \<open>auto intro: exI [of _ "kbd s"]\<close>)
qed

lemma get_motion_char_frame:
  assumes "get_motion_char s = Some (c, s')"
  shows "\<exists>k n. s' = s\<lparr>kbd := k, cmdcnt := n\<rparr>"
proof -
  obtain c1 s1 where g: "getc s = Some (c1, s1)"
    using assms by (auto simp: get_motion_char_def bind_eq_Some_conv)
  then obtain k where s1: "s1 = s\<lparr>kbd := k\<rparr>" using getc_frame by blast
  show ?thesis
  proof (cases "key_isdigit c1 \<and> c1 \<noteq> 48")
    case True
    then obtain c' cnt s2 where m: "motion_count c1 0 s1 = Some (c', cnt, s2)"
      "s' = s2\<lparr>cmdcnt := (if cmdcnt s2 \<noteq> 0 then cmdcnt s2 else 1) * cnt\<rparr>"
      using assms g by (auto simp: get_motion_char_def bind_eq_Some_conv)
    with motion_count_frame [OF m(1)] s1 show ?thesis by auto
  next
    case False
    then have "s' = s1\<lparr>cmdcnt := 0\<rparr> \<or> s' = s1"
      using assms g by (auto simp: get_motion_char_def split: if_splits)
    then show ?thesis
    proof
      assume "s' = s1"
      then show ?thesis using s1 by (intro exI [of _ k] exI [of _ "cmdcnt s"]) simp
    qed (use s1 in auto)
  qed
qed

lemmas getc_frames = getc_frame get_motion_char_frame

subsection \<open>The read-ahead buffer\<close>

text \<open>
  Only the first five bytes of the buffer are ever written, so the 15 that follow the count are
  enough; between keys at most one byte is pending.
\<close>

definition rb_ok :: "keyboard \<Rightarrow> keyboard \<Rightarrow> bool" where
  "rb_ok k k' \<longleftrightarrow> (\<forall>i. i < 0 \<or> 5 \<le> i \<longrightarrow> rb k' i = rb k i)"

lemma rb_ok_refl [simp]: "rb_ok k k"
  by (simp add: rb_ok_def)

lemma rb_ok_trans: "rb_ok a b \<Longrightarrow> rb_ok b c \<Longrightarrow> rb_ok a c"
  by (simp add: rb_ok_def)

lemma store_poll_rb:
  "0 \<le> pos \<Longrightarrow> pos < 5 \<Longrightarrow> rb_ok k (snd (store_poll pos r k)) \<and> rb_count (snd (store_poll pos r k)) = rb_count k"
  by (auto simp: store_poll_def rb_ok_def split: prod.split)

fun seq_res_ok :: "keyboard \<Rightarrow> int \<Rightarrow> seq_result \<Rightarrow> bool" where
  "seq_res_ok k l (NoMore n k') \<longleftrightarrow> rb_ok k k' \<and> rb_count k' = rb_count k \<and> 0 \<le> n"
| "seq_res_ok k l (Mismatch n k') \<longleftrightarrow> rb_ok k k' \<and> rb_count k' = rb_count k \<and> 0 \<le> n \<and> n \<le> l"
| "seq_res_ok k l (Matched k') \<longleftrightarrow> rb_ok k k' \<and> rb_count k' = rb_count k"

lemma match_seq_rb:
  "0 \<le> i \<Longrightarrow> i + int (length cs) \<le> 5 \<Longrightarrow> 0 \<le> n \<Longrightarrow> n \<le> 5 \<Longrightarrow> i \<le> n \<Longrightarrow> seq_res_ok k 5 (match_seq cs i n k)"
proof (induction cs arbitrary: i n k)
  case (Cons c cs)
  define r where "r = (if n \<le> i then store_poll n (poll_bounded (stdin k)) k else (1, k))"
  define n' where "n' = (if n \<le> i then n + 1 else n)"
  obtain x k' where r': "r = (x, k')" by (cases r)
  have k': "rb_ok k k' \<and> rb_count k' = rb_count k"
    using store_poll_rb [of n k "poll_bounded (stdin k)"] Cons.prems r' by (auto simp: r_def split: if_splits)
  have n': "0 \<le> n'" "n' \<le> 5" "i + 1 \<le> n'" using Cons.prems by (auto simp: n'_def)
  have IH: "seq_res_ok k' 5 (match_seq cs (i + 1) n' k')"
    using Cons.IH [of "i + 1" n' k'] Cons.prems n' by simp
  then have "seq_res_ok k 5 (match_seq cs (i + 1) n' k')"
    using k' by (cases "match_seq cs (i + 1) n' k'") (auto intro: rb_ok_trans)
  moreover have "match_seq (c # cs) i n k =
      (if x \<le> 0 then NoMore n k' else if rb k' i \<noteq> c then Mismatch n' k'
       else if cs = [] then Matched k' else match_seq cs (i + 1) n' k')"
    by (simp only: match_seq.simps r_def [symmetric] n'_def [symmetric] r' Let_def prod.case)
  ultimately show ?case
    using k' n' Cons.prems by simp
qed simp

lemma esccmds_lengths: "\<forall>(sq, code) \<in> set esccmds. length sq \<le> 5"
  by (simp add: esccmds_def)

fun key_res_ok :: "keyboard \<Rightarrow> key_result \<Rightarrow> bool" where
  "key_res_ok k (Key c k') \<longleftrightarrow> rb_ok k k' \<and> 0 \<le> rb_count k' \<and> rb_count k' \<le> 1"
| "key_res_ok k (StartOver k') \<longleftrightarrow> rb_ok k k' \<and> rb_count k' = 0"

lemma walk_seqs_rb:
  "\<forall>(sq, code) \<in> set tab. length sq \<le> 5 \<Longrightarrow> 0 \<le> n \<Longrightarrow> n \<le> 5 \<Longrightarrow> 0 \<le> rb_count k \<Longrightarrow> rb_count k \<le> 1 \<Longrightarrow>
   key_res_ok k (walk_seqs tab n k)"
proof (induction tab arbitrary: n k)
  case Nil
  then show ?case by (simp add: rb_ok_def)
next
  case (Cons e tab)
  obtain sq code where e: "e = (sq, code)" by (cases e)
  have m: "seq_res_ok k 5 (match_seq sq 0 n k)"
    using match_seq_rb [of 0 sq n k] Cons.prems by (auto simp: e)
  show ?case
  proof (cases "match_seq sq 0 n k")
    case (Mismatch n' k')
    then have "key_res_ok k' (walk_seqs tab n' k')"
      using Cons.IH [of n' k'] Cons.prems m by (auto simp: e)
    then have "key_res_ok k (walk_seqs tab n' k')"
      using m Mismatch by (cases "walk_seqs tab n' k'") (auto intro: rb_ok_trans)
    then show ?thesis by (simp add: e Mismatch)
  qed (use m Cons.prems in \<open>auto simp: e rb_ok_def\<close>)
qed

lemma poll_result:
  "fst (poll_bounded es) = 1 \<or> fst (poll_bounded es) \<le> 0"
  "poll_blocking es = Some r \<Longrightarrow> fst r = 1 \<or> fst r \<le> 0"
  by (induction es rule: poll_blocking.induct) auto

lemma read_key_once_rb:
  assumes "read_key_once t k = Some r" and "0 \<le> rb_count k" and "rb_count k \<le> 1"
  shows "key_res_ok k r"
proof -
  have pend: "key_res_ok k (take_pending 1 k)" if "0 \<le> rb_count k" "rb_count k \<le> 1" for k
    using that walk_seqs_rb [OF esccmds_lengths, of 0 k] by (auto simp: take_pending_def Let_def rb_ok_def)
  show ?thesis
  proof (cases "rb_count k = 0")
    case True
    then obtain n k' where p: "safe_poll 0 t k = Some (n, k')" "r = (if n \<le> 0 then Key (- 1) k' else take_pending n k')"
      using assms(1) by (auto simp: read_key_once_def split: option.splits)
    have "\<exists>x. (n, k') = store_poll 0 x k"
    proof (cases "0 \<le> t")
      case True
      then show ?thesis using p(1) by (intro exI [of _ "poll_bounded (stdin k)"]) (simp add: safe_poll_def)
    next
      case False
      then obtain y where "poll_blocking (stdin k) = Some y" "store_poll 0 y k = (n, k')"
        using p(1) by (simp add: safe_poll_def) blast
      then show ?thesis by (intro exI [of _ y]) simp
    qed
    then obtain x where x: "(n, k') = store_poll 0 x k" by blast
    have nx: "n = 1 \<or> n \<le> 0"
      using p(1) poll_result [of "stdin k"]
      by (auto simp: safe_poll_def store_poll_def split: if_splits prod.splits)
    have "rb_ok k k' \<and> rb_count k' = rb_count k"
      using store_poll_rb [of 0 k x] x by (metis order_refl snd_conv zero_less_numeral)
    then show ?thesis
      using pend [of k'] assms p(2) nx by (cases "take_pending 1 k'") (auto intro: rb_ok_trans)
  next
    case False
    then have "rb_count k = 1" using assms by simp
    then show ?thesis using assms pend [of k] by (auto simp: read_key_once_def)
  qed
qed

lemma read_key_rb:
  assumes "read_key t k = Some r" and "0 \<le> rb_count k \<and> rb_count k \<le> 1"
  shows "rb_ok k (snd r) \<and> 0 \<le> rb_count (snd r) \<and> rb_count (snd r) \<le> 1"
proof -
  let ?P = "\<lambda>(t::int) k r. 0 \<le> rb_count k \<and> rb_count k \<le> 1 \<longrightarrow>
      rb_ok k (snd r) \<and> 0 \<le> rb_count (snd r) \<and> rb_count (snd r) \<le> 1"
  have "?P t k r"
  proof (rule read_key.raw_induct [where P = ?P, OF _ assms(1)])
    fix rk :: "int \<Rightarrow> keyboard \<Rightarrow> (int \<times> keyboard) option" and t k r
    assume IH: "\<And>t k r. rk t k = Some r \<Longrightarrow> ?P t k r"
      and "Option.bind (read_key_once t k)
        (\<lambda>r. case r of Key c k' \<Rightarrow> Some (c, k') | StartOver k' \<Rightarrow> rk t k') = Some r"
    then obtain x where x: "read_key_once t k = Some x"
      "(case x of Key c k' \<Rightarrow> Some (c, k') | StartOver k' \<Rightarrow> rk t k') = Some r"
      by (auto simp: bind_eq_Some_conv)
    show "?P t k r"
    proof (cases x)
      case (StartOver k')
      then have "?P t k' r" using x(2) IH [of t k' r] by simp
      then show ?thesis
        using read_key_once_rb [OF x(1)] StartOver rb_ok_trans [of k k' "snd r"] by auto
    qed (use read_key_once_rb [OF x(1)] x(2) in auto)
  qed
  then show ?thesis using assms(2) by blast
qed

subsection \<open>Escape sequences are decoded as the table says\<close>

text \<open>
  \<open>held w n k es\<close>: of the bytes \<open>w\<close> that follow ESC the first \<open>n\<close> are in the read-ahead buffer
  and the others are still to come, before \<open>es\<close>.
\<close>

definition held :: "string \<Rightarrow> int \<Rightarrow> keyboard \<Rightarrow> event list \<Rightarrow> bool" where
  "held w n k es \<longleftrightarrow> 0 \<le> n \<and> n \<le> int (length w) \<and>
     (\<forall>i. 0 \<le> i \<and> i < n \<longrightarrow> rb k i = w ! nat i) \<and> stdin k = map Byte (drop (nat n) w) @ es"

text \<open>Keyboards that differ in the input and the read-ahead buffer only.\<close>

definition same_queue :: "keyboard \<Rightarrow> keyboard \<Rightarrow> bool" where
  "same_queue k k' \<longleftrightarrow> (\<forall>r es. k'\<lparr>stdin := es, rb := r\<rparr> = k\<lparr>stdin := es, rb := r\<rparr>)"

lemma same_queue_refl [simp]: "same_queue k k"
  by (simp add: same_queue_def)

lemma same_queue_trans [trans]: "same_queue a b \<Longrightarrow> same_queue b c \<Longrightarrow> same_queue a c"
  by (simp add: same_queue_def)

lemma drop_nat_Cons:
  assumes "drop (nat i) w = c # cs" and "0 \<le> i"
  shows "i < int (length w)" and "w ! nat i = c" and "drop (nat (i + 1)) w = cs"
proof -
  show i: "i < int (length w)" by (rule ccontr) (use assms in auto)
  then have "w ! nat i # drop (Suc (nat i)) w = c # cs"
    using assms Cons_nth_drop_Suc [of "nat i" w] by simp
  then show "w ! nat i = c" "drop (nat (i + 1)) w = cs" using assms(2) by (simp_all add: nat_add_distrib)
qed

lemma need_byte:
  assumes "held w n k es" and "0 \<le> i" and "i \<le> n" and "i < int (length w)"
  obtains k' where "(if n \<le> i then store_poll n (poll_bounded (stdin k)) k else (1, k)) = (1, k')"
    and "rb k' i = w ! nat i" and "held w (if n \<le> i then n + 1 else n) k' es" and "same_queue k k'"
proof (cases "n \<le> i")
  case False
  then show thesis using assms that by (simp add: held_def)
next
  case True
  then have n: "n = i" using assms(3) by simp
  then have "drop (nat n) w = w ! nat n # drop (Suc (nat n)) w"
    using assms(2,4) by (simp add: Cons_nth_drop_Suc)
  then have st: "stdin k = Byte (w ! nat n) # map Byte (drop (Suc (nat n)) w) @ es"
    using assms(1) by (simp add: held_def)
  define k' where "k' = k\<lparr>stdin := map Byte (drop (Suc (nat n)) w) @ es, rb := (rb k)(n := w ! nat n)\<rparr>"
  have e: "(if n \<le> i then store_poll n (poll_bounded (stdin k)) k else (1, k)) = (1, k')"
    using True st by (simp add: store_poll_def k'_def)
  have r: "rb k' i = w ! nat i" by (simp add: k'_def n)
  have h: "held w (if n \<le> i then n + 1 else n) k' es"
    using assms True by (auto simp: held_def k'_def nat_add_distrib)
  have "same_queue k k'" by (auto simp: same_queue_def k'_def)
  from that [OF e r h this] show thesis .
qed

lemma match_seq_same:
  assumes "held w n k es" and "0 \<le> i" and "i \<le> n" and "drop (nat i) w = cs" and "cs \<noteq> []"
  shows "\<exists>k'. match_seq cs i n k = Matched k' \<and> stdin k' = es \<and> same_queue k k'"
  using assms
proof (induction cs arbitrary: i n k)
  case (Cons c cs)
  note c = drop_nat_Cons [OF Cons.prems(4,2)]
  obtain k' where k': "(if n \<le> i then store_poll n (poll_bounded (stdin k)) k else (1, k)) = (1, k')"
    "rb k' i = w ! nat i" "held w (if n \<le> i then n + 1 else n) k' es" "same_queue k k'"
    using need_byte [OF Cons.prems(1-3) c(1)] .
  show ?case
  proof (cases "cs = []")
    case True
    then have "int (length w) \<le> i + 1" using c(3) Cons.prems(2) by simp
    then have "stdin k' = es" using k'(3) Cons.prems(3) c(1) by (auto simp: held_def split: if_splits)
    then show ?thesis using k' c True by simp
  next
    case False
    have "0 \<le> i + 1" "i + 1 \<le> (if n \<le> i then n + 1 else n)" using Cons.prems by auto
    from Cons.IH [OF k'(3) this c(3) False] obtain k'' where
      "match_seq cs (i + 1) (if n \<le> i then n + 1 else n) k' = Matched k''" "stdin k'' = es" "same_queue k' k''" by blast
    then show ?thesis using k' c False same_queue_trans by auto
  qed
qed simp

lemma match_seq_other:
  assumes "held w n k es" and "0 \<le> i" and "i \<le> n" and "drop (nat i) w = us @ x # vs" and "x \<noteq> c"
  shows "\<exists>n' k'. match_seq (us @ c # cs) i n k = Mismatch n' k' \<and> held w n' k' es \<and> same_queue k k'"
  using assms
proof (induction us arbitrary: i n k)
  case Nil
  then have "drop (nat i) w = x # vs" by simp
  note x = drop_nat_Cons [OF this Nil.prems(2)]
  obtain k' where k': "(if n \<le> i then store_poll n (poll_bounded (stdin k)) k else (1, k)) = (1, k')"
    "rb k' i = w ! nat i" "held w (if n \<le> i then n + 1 else n) k' es" "same_queue k k'"
    using need_byte [OF Nil.prems(1-3) x(1)] .
  then show ?case using Nil.prems(5) x(2) by simp
next
  case (Cons u us)
  then have "drop (nat i) w = u # us @ x # vs" by simp
  note u = drop_nat_Cons [OF this Cons.prems(2)]
  obtain k' where k': "(if n \<le> i then store_poll n (poll_bounded (stdin k)) k else (1, k)) = (1, k')"
    "rb k' i = w ! nat i" "held w (if n \<le> i then n + 1 else n) k' es" "same_queue k k'"
    using need_byte [OF Cons.prems(1-3) u(1)] .
  have "0 \<le> i + 1" "i + 1 \<le> (if n \<le> i then n + 1 else n)" using Cons.prems by auto
  from Cons.IH [OF k'(3) this u(3) Cons.prems(5)] k' u show ?case
    using same_queue_trans by fastforce
qed

text \<open>A table in which no sequence is a prefix of another.\<close>

definition prefix_free :: "(string \<times> int) list \<Rightarrow> bool" where
  "prefix_free tab \<longleftrightarrow> distinct (map fst tab) \<and>
     (\<forall>a \<in> set (map fst tab). a \<noteq> [] \<and> (\<forall>b \<in> set (map fst tab). a \<noteq> b \<longrightarrow> \<not> prefix a b))"

lemma prefix_free_tail: "prefix_free (e # tab) \<Longrightarrow> prefix_free tab"
  by (auto simp: prefix_free_def)

lemma walk_seqs_finds:
  assumes "prefix_free tab" and "(w, code) \<in> set tab" and "held w n k es"
  shows "\<exists>k'. walk_seqs tab n k = Key code (k'\<lparr>rb_count := 0\<rparr>) \<and> stdin k' = es \<and> same_queue k k'"
  using assms
proof (induction tab arbitrary: n k)
  case (Cons e tab)
  obtain sq co where e: "e = (sq, co)" by (cases e)
  have n: "0 \<le> n" using Cons.prems(3) by (simp add: held_def)
  show ?case
  proof (cases "sq = w")
    case True
    then have "co = code" using Cons.prems(1,2) by (force simp: e prefix_free_def)
    moreover have "w \<noteq> []" using Cons.prems(1,2) by (force simp: prefix_free_def)
    ultimately show ?thesis
      using match_seq_same [OF Cons.prems(3) order_refl n, of w] True by (auto simp: e)
  next
    case False
    then have w: "(w, code) \<in> set tab" using Cons.prems(2) by (auto simp: e)
    then have "\<not> prefix sq w" "\<not> prefix w sq"
      using Cons.prems(1) False by (force simp: prefix_free_def e)+
    then obtain us b bs c cs where p: "b \<noteq> c" "w = us @ b # bs" "sq = us @ c # cs"
      using parallel_decomp [of w sq] by (auto simp: parallel_def)
    have "drop (nat 0) w = us @ b # bs" using p(2) by simp
    from match_seq_other [OF Cons.prems(3) order_refl n this p(1), of cs] p(3) obtain n' k' where
      m: "match_seq sq 0 n k = Mismatch n' k'" "held w n' k' es" "same_queue k k'" by auto
    from Cons.IH [OF prefix_free_tail [OF Cons.prems(1)] w m(2)] m show ?thesis
      using same_queue_trans by (fastforce simp: e)
  qed
qed simp

lemma prefix_free_esccmds: "prefix_free esccmds"
  by code_simp

lemma first_byte:
  assumes "rb_count k = 0" and "stdin k = Byte c # es"
  shows "read_key_once t k = Some (take_pending 1 (k\<lparr>stdin := es, rb := (rb k)(0 := c)\<rparr>))"
  using assms by (simp add: read_key_once_def safe_poll_def store_poll_def)

lemma read_key_plain:
  assumes "rb_count k = 0" and "stdin k = Byte c # es" and "c \<noteq> ESC"
  shows "read_key t k = Some (cval c, k\<lparr>stdin := es, rb := (rb k)(0 := c)\<rparr>)"
  using assms by (simp add: read_key.simps first_byte take_pending_def)

text \<open>
  C9. Every escape sequence of the table is decoded to its key code, whatever follows it, and the
  bytes of the sequence are the ones consumed. (No sequence of the table is a prefix of another,
  so the comparisons that fail before the right entry never read past it.)
\<close>

theorem read_key_escape:
  assumes "(w, code) \<in> set esccmds" and "rb_count k = 0" and "stdin k = map Byte (ESC # w) @ es"
  shows "\<exists>r. read_key t k = Some (code, k\<lparr>stdin := es, rb := r\<rparr>)"
proof -
  define k1 where "k1 = k\<lparr>stdin := map Byte w @ es, rb := (rb k)(0 := ESC)\<rparr>"
  have "held w 0 k1 es" by (auto simp: held_def k1_def)
  from walk_seqs_finds [OF prefix_free_esccmds assms(1) this] obtain k2 where
    k2: "walk_seqs esccmds 0 k1 = Key code (k2\<lparr>rb_count := 0\<rparr>)" "stdin k2 = es" "same_queue k1 k2" by blast
  have "read_key_once t k = Some (Key code (k2\<lparr>rb_count := 0\<rparr>))"
    using first_byte [OF assms(2), of ESC "map Byte w @ es" t] assms(3) k2(1)
    by (simp add: take_pending_def k1_def fun_upd_def)
  then have "read_key t k = Some (code, k2\<lparr>rb_count := 0\<rparr>)"
    by (simp add: read_key.simps)
  moreover have "\<exists>r. k2\<lparr>rb_count := 0\<rparr> = k\<lparr>stdin := es, rb := r\<rparr>"
    using k2(2,3) assms(2) by (intro exI [of _ "rb k2"], cases k2, cases k) (auto simp: same_queue_def k1_def)
  ultimately show ?thesis by auto
qed

theorem read_key_escape_witness:
  "\<exists>r. read_key (- 1) (kbd (editor_of [] (map Byte (ESC # ''OA'') @ [Byte CHR ''x'']))) =
     Some (KEYCODE_UP, (kbd (editor_of [] (map Byte (ESC # ''OA'') @ [Byte CHR ''x''])))
        \<lparr>stdin := [Byte CHR ''x''], rb := r\<rparr>)"
  by (rule read_key_escape [where w = "''OA''"]) (simp_all add: esccmds_def editor_of_def)

subsection \<open>What a key does to the keyboard\<close>

definition input_only :: "keyboard \<Rightarrow> keyboard \<Rightarrow> bool" where
  "input_only k k' \<longleftrightarrow> adding2q k' = adding2q k \<and> last_modifying_cmd k' = last_modifying_cmd k \<and>
     ioq k' = ioq k \<and> dotcnt k' = dotcnt k"

lemma input_only_refl [simp]: "input_only k k"
  by (simp add: input_only_def)

lemma input_only_trans: "input_only a b \<Longrightarrow> input_only b c \<Longrightarrow> input_only a c"
  by (simp add: input_only_def)

lemma input_only_update [simp]:
  "input_only a (b\<lparr>rb_count := n\<rparr>) = input_only a b" "input_only a (b\<lparr>rb := r\<rparr>) = input_only a b"
  by (simp_all add: input_only_def)

lemma input_only_store_poll: "store_poll pos r k = (n, k') \<Longrightarrow> input_only k k'"
  by (auto simp: store_poll_def input_only_def split: prod.splits)

fun seq_result_kbd :: "seq_result \<Rightarrow> keyboard" where
  "seq_result_kbd (NoMore n k) = k"
| "seq_result_kbd (Mismatch n k) = k"
| "seq_result_kbd (Matched k) = k"

lemma input_only_match_seq: "input_only k (seq_result_kbd (match_seq cs i n k))"
proof (induction cs arbitrary: i n k)
  case (Cons c cs)
  obtain r k1 where r: "(if n \<le> i then store_poll n (poll_bounded (stdin k)) k else (1, k)) = (r, k1)"
    by fastforce
  then have k1: "input_only k k1" by (auto split: if_splits dest: input_only_store_poll)
  then have "input_only k (seq_result_kbd (match_seq cs j m k1))" for j m
    using Cons.IH input_only_trans by blast
  then show ?case using k1 by (simp only: match_seq.simps r Let_def prod.case) auto
qed simp

fun key_result_kbd :: "key_result \<Rightarrow> keyboard" where
  "key_result_kbd (Key c k) = k"
| "key_result_kbd (StartOver k) = k"

lemma input_only_walk_seqs: "input_only k (key_result_kbd (walk_seqs tab n k))"
proof (induction tab arbitrary: n k)
  case (Cons e tab)
  obtain sq co where e: "e = (sq, co)" by (cases e)
  have m: "input_only k (seq_result_kbd (match_seq sq 0 n k))" by (rule input_only_match_seq)
  show ?case
    using m input_only_trans [OF _ Cons.IH] by (cases "match_seq sq 0 n k") (auto simp: e)
qed simp

lemma input_only_take_pending: "input_only k (key_result_kbd (take_pending n k))"
proof -
  have "input_only k (key_result_kbd (walk_seqs esccmds m k'))" if "input_only k k'" for m k'
    using input_only_trans [OF that input_only_walk_seqs] .
  then show ?thesis by (simp add: take_pending_def Let_def)
qed

lemma input_only_read_key_once:
  assumes "read_key_once t k = Some r"
  shows "input_only k (key_result_kbd r)"
proof -
  have "safe_poll 0 t k = Some (n, k') \<Longrightarrow> input_only k k'" for n k'
    by (auto simp: safe_poll_def split: if_splits dest: input_only_store_poll)
  then show ?thesis
    using assms input_only_take_pending input_only_trans
    by (fastforce simp: read_key_once_def split: if_splits option.splits prod.splits)
qed

lemma input_only_read_key:
  assumes "read_key t k = Some r"
  shows "input_only k (snd r)"
proof (rule read_key.raw_induct [where P = "\<lambda>t k r. input_only k (snd r)", OF _ assms])
  fix rk :: "int \<Rightarrow> keyboard \<Rightarrow> (int \<times> keyboard) option" and t k r
  assume IH: "\<And>t k r. rk t k = Some r \<Longrightarrow> input_only k (snd r)"
    and "Option.bind (read_key_once t k)
      (\<lambda>r. case r of Key c k' \<Rightarrow> Some (c, k') | StartOver k' \<Rightarrow> rk t k') = Some r"
  then obtain x where x: "read_key_once t k = Some x"
    "(case x of Key c k' \<Rightarrow> Some (c, k') | StartOver k' \<Rightarrow> rk t k') = Some r"
    by (auto simp: bind_eq_Some_conv)
  show "input_only k (snd r)"
  proof (cases x)
    case (StartOver k1)
    then show ?thesis
      using input_only_trans [OF _ IH [of t k1 r]] input_only_read_key_once [OF x(1)] x(2) by simp
  qed (use input_only_read_key_once [OF x(1)] x(2) in auto)
qed

definition kbd_ok :: "keyboard \<Rightarrow> bool" where
  "kbd_ok k \<longleftrightarrow> 0 \<le> rb_count k \<and> rb_count k \<le> 1 \<and> length (last_modifying_cmd k) \<le> MAX_INPUT_LEN - 2"

lemma get_one_char_ok:
  assumes "get_one_char k = Some (c, k')" and "kbd_ok k"
  shows "kbd_ok k'"
proof -
  have rd: "kbd_ok k2 \<and> rb_ok k1 k2" if "readit k1 = Some (c, k2)" "kbd_ok k1" for c k1 k2
    using that read_key_rb [of "- 1" k1 "(c, k2)"] input_only_read_key [of "- 1" k1 "(c, k2)"]
    by (auto simp: readit_def kbd_ok_def input_only_def)
  show ?thesis
  proof (cases "adding2q k")
    case True
    then obtain k1 where "readit k = Some (c, k1)"
      "k' = (if length (last_modifying_cmd k1) \<ge> MAX_INPUT_LEN - 2 then k1\<lparr>adding2q := False, last_modifying_cmd := []\<rparr>
             else k1\<lparr>last_modifying_cmd := last_modifying_cmd k1 @ [to_char c]\<rparr>)"
      using assms(1) by (auto simp: get_one_char_def split: option.splits)
    then show ?thesis using rd assms(2) by (auto simp: kbd_ok_def)
  next
    case False
    have "kbd_ok (k\<lparr>ioq := None\<rparr>)" using assms(2) by (simp add: kbd_ok_def)
    then show ?thesis
      using False assms rd by (auto simp: get_one_char_def kbd_ok_def split: option.splits if_splits)
  qed
qed

subsection \<open>The recorded command\<close>

fun get_keys :: "nat \<Rightarrow> keyboard \<Rightarrow> (int list \<times> keyboard) option" where
  "get_keys 0 k = Some ([], k)"
| "get_keys (Suc n) k =
     (case get_one_char k of None \<Rightarrow> None
      | Some (c, k1) \<Rightarrow> (case get_keys n k1 of None \<Rightarrow> None | Some (cs, k2) \<Rightarrow> Some (c # cs, k2)))"

lemma keys_recorded:
  "get_keys n k = Some (cs, k') \<Longrightarrow> adding2q k \<Longrightarrow> length (last_modifying_cmd k) + n \<le> MAX_INPUT_LEN - 2 \<Longrightarrow>
   adding2q k' \<and> last_modifying_cmd k' = last_modifying_cmd k @ map to_char cs \<and> length cs = n"
proof (induction n arbitrary: k cs)
  case (Suc n)
  obtain c k1 cs1 where g: "get_one_char k = Some (c, k1)" "get_keys n k1 = Some (cs1, k')" "cs = c # cs1"
    using Suc.prems(1) by (auto split: option.splits)
  obtain k0 where k0: "readit k = Some (c, k0)"
    and k1: "k1 = (if length (last_modifying_cmd k0) \<ge> MAX_INPUT_LEN - 2
        then k0\<lparr>adding2q := False, last_modifying_cmd := []\<rparr>
        else k0\<lparr>last_modifying_cmd := last_modifying_cmd k0 @ [to_char c]\<rparr>)"
    using g(1) Suc.prems(2) by (auto simp: get_one_char_def split: option.splits)
  have "input_only k k0" using input_only_read_key [of "- 1" k "(c, k0)"] k0 by (simp add: readit_def)
  then have "last_modifying_cmd k1 = last_modifying_cmd k @ [to_char c]" "adding2q k1"
    using k1 Suc.prems by (auto simp: input_only_def)
  then show ?case using Suc.IH [OF g(2)] Suc.prems g(3) by simp
qed simp

lemma keys_replayed:
  "ioq k = Some q \<Longrightarrow> \<not> adding2q k \<Longrightarrow> NUL \<notin> set q \<Longrightarrow>
   get_keys (length q) k = Some (map cval q, k\<lparr>ioq := Some []\<rparr>)"
proof (induction q arbitrary: k)
  case (Cons c q)
  have "get_one_char k = Some (cval c, k\<lparr>ioq := Some q\<rparr>)"
    using Cons.prems by (auto simp: get_one_char_def)
  moreover have "get_keys (length q) (k\<lparr>ioq := Some q\<rparr>) = Some (map cval q, k\<lparr>ioq := Some []\<rparr>)"
    using Cons.IH [of "k\<lparr>ioq := Some q\<rparr>"] Cons.prems by simp
  ultimately show ?case by simp
qed (simp add: keyboard.surjective)

text \<open>
  C11. Reading one character stays within the buffers: only the first five bytes of the read-ahead
  buffer are ever written, at most one byte is left pending, and the recorded command never
  grows past the 126 bytes that fit before its terminator.
\<close>

theorem key_within_buffers:
  assumes "get_one_char k = Some (c, k')" and "kbd_ok k"
  shows "kbd_ok k' \<and> (\<forall>i. i < 0 \<or> 5 \<le> i \<longrightarrow> rb k' i = rb k i)"
proof
  show "kbd_ok k'" using assms by (rule get_one_char_ok)
  have rd: "rb_ok k1 k2" if "readit k1 = Some (c, k2)" "kbd_ok k1" for c k1 k2
    using that read_key_rb [of "- 1" k1 "(c, k2)"] by (auto simp: readit_def kbd_ok_def)
  show "\<forall>i. i < 0 \<or> 5 \<le> i \<longrightarrow> rb k' i = rb k i"
    using assms rd [of k] rd [of "k\<lparr>ioq := None\<rparr>"]
    by (auto simp: get_one_char_def rb_ok_def kbd_ok_def split: if_splits option.splits)
qed

theorem key_within_buffers_witness:
  "\<exists>c k'. get_one_char (kbd (editor_of [] [Byte CHR ''y''])) = Some (c, k') \<and> kbd_ok k'"
proof -
  define k where "k = kbd (editor_of [] [Byte CHR ''y''])"
  have g: "get_one_char k = Some (cval CHR ''y'', k\<lparr>stdin := [], rb := (rb k)(0 := CHR ''y'')\<rparr>)"
    by (simp add: k_def get_one_char_def readit_def read_key_plain [of _ "CHR ''y''" "[]"] editor_of_def)
  have "kbd_ok k" by (simp add: k_def editor_of_def kbd_ok_def)
  from key_within_buffers [OF g this] g show ?thesis unfolding k_def by blast
qed

end
