(* ===== verification/Terminal.thy ===== *)
theory Terminal
  imports Keyboard
begin

text \<open>
  The screen (\<open>vim_term.c\<close>): cursor placement, the virtual screen and its minimal repaint, the
  selection mask, the status line, the error signal and the negotiation of the screen size.
  \<open>stdout\<close> collects what is written to the terminal; \<open>screen\<close> is the virtual screen that
  \<open>refresh\<close> compares with, by offset from its start.

  \<open>show_status_line\<close> may stop for a key, after which \<open>Hit_Return\<close> redraws and shows the status
  line again. The message flag is cleared before the wait, so the inner call cannot wait again:
  each of the three functions takes what it calls as its first argument, and the knot is tied
  once (lemma \<open>show_status_line_unfold\<close> gives back the recursive equation of the code).
\<close>

subsection \<open>Escape sequences to the terminal\<close>

definition ESC_BELL :: string where
  "ESC_BELL = [CHR 0x07]"

definition ESC_CLEAR2EOL :: string where
  "ESC_CLEAR2EOL = ESC # ''[K''"

definition ESC_CLEAR2EOS :: string where
  "ESC_CLEAR2EOS = ESC # ''[J''"

definition ESC_SET_CURSOR_TOPLEFT :: string where
  "ESC_SET_CURSOR_TOPLEFT = ESC # ''[H''"

definition ESC_CURSOR_HIDE :: string where
  "ESC_CURSOR_HIDE = ESC # ''[?25l''"

definition ESC_CURSOR_SHOW :: string where
  "ESC_CURSOR_SHOW = ESC # ''[?25h''"

definition place_cursor :: "int \<Rightarrow> int \<Rightarrow> display \<Rightarrow> display" where
  "place_cursor row col d =
     (let r0 = (if row < 0 then 0 else row); r = (if r0 \<ge> rows d then rows d - 1 else r0);
          c0 = (if col < 0 then 0 else col); c = (if c0 \<ge> columns d then columns d - 1 else c0)
      in puts_no_eol (ESC # ''['' @ dec (r + 1) @ '';'' @ dec (c + 1) @ ''H'') d)"

definition hide_cursor :: "display \<Rightarrow> display" where
  "hide_cursor d = (if cursor_hidden d then d else puts_no_eol ESC_CURSOR_HIDE (d\<lparr>cursor_hidden := True\<rparr>))"

definition show_cursor :: "display \<Rightarrow> display" where
  "show_cursor d = (if \<not> cursor_hidden d then d else puts_no_eol ESC_CURSOR_SHOW (d\<lparr>cursor_hidden := False\<rparr>))"

definition clear_to_eol :: "display \<Rightarrow> display" where
  "clear_to_eol = puts_no_eol ESC_CLEAR2EOL"

definition go_bottom_and_clear_to_eol :: "display \<Rightarrow> display" where
  "go_bottom_and_clear_to_eol d = clear_to_eol (place_cursor (rows d - 1) 0 d)"

definition standout_start :: "display \<Rightarrow> display" where
  "standout_start = puts_no_eol ESC_BOLD_TEXT"

definition standout_end :: "display \<Rightarrow> display" where
  "standout_end = puts_no_eol ESC_NORM_TEXT"

definition screen_erase :: "display \<Rightarrow> display" where
  "screen_erase d = d\<lparr>screen := memset (screen d) 0 (CHR '' '') (screensize d)\<rparr>"

text \<open>The tildes of \<open>new_screen\<close>: \<open>ro - 2\<close> rows from the second on.\<close>

fun tilde_rows :: "nat \<Rightarrow> int \<Rightarrow> int \<Rightarrow> (int \<Rightarrow> char) \<Rightarrow> (int \<Rightarrow> char)" where
  "tilde_rows 0 co p m = m"
| "tilde_rows (Suc n) co p m = tilde_rows n co (p + co) (m(p + co := CHR ''~''))"

definition new_screen :: "int \<Rightarrow> int \<Rightarrow> display \<Rightarrow> display" where
  "new_screen ro co d =
     (let d1 = screen_erase (d\<lparr>screensize := ro * co + 8\<rparr>)
      in d1\<lparr>screen := tilde_rows (nat (ro - 2)) co 0 (screen d1)\<rparr>)"

subsection \<open>Following the cursor\<close>

text \<open>The top line after \<open>sync_cursor\<close>: label \<open>sc1\<close>, then the three cases of its first half.\<close>

definition recenter :: "tbuf \<Rightarrow> int \<Rightarrow> ptr \<Rightarrow> int \<Rightarrow> ptr" where
  "recenter t ro beg cnt =
     (if cnt > (ro - 1) div 2 then (prev_line t ^^ nat ((ro - 1) div 2)) beg else beg)"

definition sync_top :: "tbuf \<Rightarrow> int \<Rightarrow> ptr \<Rightarrow> ptr \<Rightarrow> ptr" where
  "sync_top t ro tp0 d =
     (let beg = begin_line t d
      in if beg < tp0 then recenter t ro beg (count_lines t beg tp0)
         else
           (let bot = end_screen t tp0 ro
            in if beg > bot then
                 (let cnt = count_lines t bot beg
                  in if cnt > (ro - 1) div 2 then recenter t ro beg cnt
                     else (next_line t ^^ nat (cnt - 1)) tp0)
               else tp0))"

text \<open>The row where the line \<open>beg\<close> is found, and the line reached; \<open>n\<close> is \<open>rows - 1 - ro\<close>.\<close>

fun find_row :: "tbuf \<Rightarrow> ptr \<Rightarrow> nat \<Rightarrow> ptr \<Rightarrow> int \<Rightarrow> int \<times> ptr" where
  "find_row t beg 0 tp ro = (ro, tp)"
| "find_row t beg (Suc n) tp ro =
     (if tp = beg then (ro, tp) else find_row t beg n (next_line t tp) (ro + 1))"

function find_col :: "int \<Rightarrow> bool \<Rightarrow> tbuf \<Rightarrow> ptr \<Rightarrow> ptr \<Rightarrow> int \<Rightarrow> int" where
  "find_col ts inserting t d tp co =
     (if mem t tp = NL then co
      else
        (let co1 = next_column ts (mem t tp) co - 1
         in if inserting \<and> tp = d - 1 \<and> mem t d = TAB then co1 + 1
            else if tp < d then
              (if co1 + 1 \<noteq> 0 then find_col ts inserting t d (tp + 1) (co1 + 1) else co1 + 1)
            else co1))"
  by pat_completeness auto
termination by (relation "measure (\<lambda>(ts, i, t, d, tp, co). nat (d - tp))") auto

declare find_col.simps [simp del]

definition sync_cursor :: "ptr \<Rightarrow> vi \<Rightarrow> (int \<times> int) \<times> vi" where
  "sync_cursor d s =
     (let t = tx s; dp = dsp s;
          beg = begin_line t d;
          tp0 = sync_top t (rows dp) (screenbegin dp) d;
          (ro, tp) = find_row t beg (nat (rows dp - 1)) tp0 0;
          co = find_col (tabstop s) (cmd_mode s \<noteq> 0) t d tp 0;
          ofs1 = (if co < offset dp then co else offset dp);
          ofs2 = (if co \<ge> columns dp + ofs1 then co - columns dp + 1 else ofs1);
          ofs3 = (if d = beg \<and> mem t d = TAB then 0 else ofs2)
      in ((ro, co - ofs3), s\<lparr>dsp := dp\<lparr>screenbegin := tp0, offset := ofs3\<rparr>\<rparr>))"

subsection \<open>Formatting a line\<close>

text \<open>
  The loop of \<open>format_line\<close>: \<open>dest\<close> is \<open>scr_out_buf[0..co)\<close>, \<open>c\<close> the character in hand. Its
  result is the filled part and what is left of the offset.
\<close>

definition printable :: "char \<Rightarrow> string" where
  "printable c =
     (if cval c < 32 then [CHR ''^'', to_char (cval c + 64)]
      else if cval c = 127 then ''^?'' else [c])"

function format_loop :: "int \<Rightarrow> int \<Rightarrow> tbuf \<Rightarrow> ptr \<Rightarrow> string \<Rightarrow> int \<Rightarrow> char \<Rightarrow> string \<times> int" where
  "format_loop cols ts t src dest ofs c =
     (if int (length dest) < cols + ts then
        if src < tend t \<and> mem t src = NL then (dest, ofs)
        else if src < tend t \<and> mem t src = TAB then
          format_loop cols ts t (src + 1)
            (dest @ replicate (nat (ts - 1 - int (length dest) mod ts)) (CHR '' '')) ofs (CHR '' '')
        else
          (let c1 = (if src < tend t then (if cval (mem t src) \<ge> 128 then CHR ''.'' else mem t src) else c);
               src1 = (if src < tend t then src + 1 else src);
               d1 = (if src < tend t then dest @ printable c1 else dest @ [c1]);
               cut = (ofs \<ge> ts \<and> int (length d1) \<ge> ts);
               d2 = (if cut then drop (nat ts) d1 else d1);
               ofs2 = (if cut then ofs - ts else ofs)
           in if src1 \<ge> tend t then (d2, ofs2) else format_loop cols ts t src1 d2 ofs2 c1)
      else (dest, ofs))"
  by pat_completeness auto
termination by (relation "measure (\<lambda>(cols, ts, t, src, dest, ofs, c). nat (tend t - src))") (auto split: if_splits)

declare format_loop.simps [simp del]

definition format_line :: "vi \<Rightarrow> ptr \<Rightarrow> string" where
  "format_line s src =
     (case format_loop (columns (dsp s)) (tabstop s) (tx s) src [] (offset (dsp s)) (CHR ''~'') of
        (dest, ofs0) \<Rightarrow>
          (let ofs = (if int (length dest) < ofs0 then int (length dest) else ofs0);
               line = drop (nat ofs) dest;
               n = nat (columns (dsp s))
           in take n (line @ replicate (n - length line) (CHR '' ''))))"

subsection \<open>The visual selection\<close>

definition vis_advance :: "int \<Rightarrow> char \<Rightarrow> int \<Rightarrow> int" where
  "vis_advance ts c co =
     (if c = TAB then next_tabstop ts co
      else if cval c \<ge> 128 then co + 1
      else if cval c < 32 \<or> cval c = 127 then co + 2
      else co + 1)"

definition mark_cells :: "int \<Rightarrow> int \<Rightarrow> int \<Rightarrow> (int \<Rightarrow> bool) \<Rightarrow> (int \<Rightarrow> bool)" where
  "mark_cells cols a b sel = (\<lambda>i. sel i \<or> (a \<le> i \<and> i < b \<and> 0 \<le> i \<and> i < cols))"

function span_mask :: "display \<Rightarrow> int \<Rightarrow> tbuf \<Rightarrow> ptr \<Rightarrow> ptr \<Rightarrow> ptr \<Rightarrow> int \<Rightarrow> (int \<Rightarrow> bool) \<Rightarrow> (int \<Rightarrow> bool)" where
  "span_mask dp ts t lo hi p co sel =
     (if p < tend t then
        if mem t p = NL then
          (if lo \<le> p \<and> p \<le> hi then mark_cells (columns dp) (co - offset dp) (co - offset dp + 1) sel else sel)
        else
          (let co' = vis_advance ts (mem t p) co
           in span_mask dp ts t lo hi (p + 1) co'
                (if lo \<le> p \<and> p \<le> hi then mark_cells (columns dp) (co - offset dp) (co' - offset dp) sel
                 else sel))
      else sel)"
  by pat_completeness auto
termination by (relation "measure (\<lambda>(dp, ts, t, lo, hi, p, co, sel). nat (tend t - p))") auto

declare span_mask.simps [simp del]

definition visual_span_mask :: "vi \<Rightarrow> ptr \<Rightarrow> ptr \<Rightarrow> ptr \<Rightarrow> (int \<Rightarrow> bool)" where
  "visual_span_mask s line_start lo hi =
     span_mask (dsp s) (tabstop s) (tx s) lo hi line_start 0 (\<lambda>_. False)"

definition anchor_of :: "vi \<Rightarrow> ptr" where
  "anchor_of s = (case vi_visual_anchor s of Some a \<Rightarrow> a | None \<Rightarrow> 0)"

definition visual_line_mask :: "vi \<Rightarrow> ptr \<Rightarrow> (int \<Rightarrow> bool)" where
  "visual_line_mask s line_start =
     visual_span_mask s line_start (min (dot s) (anchor_of s)) (max (dot s) (anchor_of s))"

text \<open>One row of \<open>visual_invalidate_span\<close>: poison the columns between the first and last marked.\<close>

definition poison_row :: "(int \<Rightarrow> bool) \<Rightarrow> int \<Rightarrow> display \<Rightarrow> display" where
  "poison_row sel li d =
     (case filter sel (map int [0..<nat (columns d)]) of
        [] \<Rightarrow> d
      | c0 # cs \<Rightarrow>
          (let c1 = last (c0 # cs)
           in d\<lparr>screen := memset (screen d) (li * columns d + c0) (CHR 0xFF) (c1 - c0 + 1)\<rparr>))"

fun invalidate_rows :: "nat \<Rightarrow> ptr \<Rightarrow> ptr \<Rightarrow> ptr \<Rightarrow> int \<Rightarrow> vi \<Rightarrow> vi" where
  "invalidate_rows 0 a b t li s = s"
| "invalidate_rows (Suc n) a b t li s =
     (if t < vend s then
        invalidate_rows n a b (next_line (tx s) t) (li + 1)
          (if b \<ge> t \<and> a \<le> end_line (tx s) t
           then on_dsp (poison_row (visual_span_mask s t a b) li) s else s)
      else s)"

definition visual_invalidate_span :: "ptr option \<Rightarrow> ptr option \<Rightarrow> vi \<Rightarrow> vi" where
  "visual_invalidate_span a b s =
     (case (a, b) of
        (Some a, Some b) \<Rightarrow>
          invalidate_rows (nat (rows (dsp s) - 1)) (min a b) (max a b) (screenbegin (dsp s)) 0 s
      | _ \<Rightarrow> s)"

subsection \<open>Refresh\<close>

text \<open>The start of the text line after \<open>tp\<close>, as \<open>refresh\<close> computes it.\<close>

definition refresh_next :: "tbuf \<Rightarrow> ptr \<Rightarrow> ptr" where
  "refresh_next t tp =
     (if tp < tend t then
        (case memchr (mem t) tp NL (nat (tend t - tp)) of None \<Rightarrow> tend t | Some q \<Rightarrow> q + 1)
      else tp)"

text \<open>The columns to repaint: from the first to the last difference, if there is one.\<close>

definition row_diff :: "string \<Rightarrow> (int \<Rightarrow> char) \<Rightarrow> int \<Rightarrow> int \<Rightarrow> nat list" where
  "row_diff out sc sp cols = filter (\<lambda>j. out ! j \<noteq> sc (sp + int j)) [0..<nat cols]"

definition repaint_span :: "string \<Rightarrow> (int \<Rightarrow> char) \<Rightarrow> int \<Rightarrow> int \<Rightarrow> bool \<Rightarrow> bool \<Rightarrow> (nat \<times> nat) option" where
  "repaint_span out sc sp cols full shifted =
     (case row_diff out sc sp cols of
        [] \<Rightarrow> if full \<or> shifted then Some (0, nat (cols - 1)) else None
      | j # js \<Rightarrow> if full then Some (0, nat (cols - 1)) else Some (j, last (j # js)))"

definition refresh_row :: "bool \<Rightarrow> ptr \<Rightarrow> int \<Rightarrow> vi \<Rightarrow> vi" where
  "refresh_row full tp li s =
     (let d = dsp s;
          out = format_line s tp;
          sel = (if vi_visual s then visual_line_mask s tp else (\<lambda>_. False));
          sp = li * columns d
      in case repaint_span out (screen d) sp (columns d) full (offset d \<noteq> refresh_old_offset d) of
           None \<Rightarrow> s
         | Some (cs, ce) \<Rightarrow>
             (let d1 = hide_cursor d;
                  d2 = d1\<lparr>screen := memcpy_str (screen d1) (sp + int cs) (take (ce - cs + 1) (drop cs out))\<rparr>;
                  d3 = place_cursor li (int cs) d2
              in s\<lparr>dsp := d3\<lparr>stdout := stdout d3 @
                    syntax_write_slice (cur_syntax d3) (nat (columns d3)) out cs (int ce) (\<lambda>i. sel (int i))\<rparr>\<rparr>))"

fun refresh_rows :: "nat \<Rightarrow> bool \<Rightarrow> ptr \<Rightarrow> int \<Rightarrow> vi \<Rightarrow> vi" where
  "refresh_rows 0 full tp li s = s"
| "refresh_rows (Suc n) full tp li s =
     refresh_rows n full (refresh_next (tx s) tp) (li + 1) (refresh_row full tp li s)"

definition refresh :: "bool \<Rightarrow> vi \<Rightarrow> vi" where
  "refresh full0 s0 =
     (case sync_cursor (dot s0) s0 of
        ((ro, co), s1) \<Rightarrow>
          (let d1 = (dsp s1)\<lparr>crow := ro, ccol := co\<rparr>;
               tp0 = screenbegin d1;
               full = (full0 \<or> (vi_visual s1 \<and> Some tp0 \<noteq> vis_last_screenbegin d1));
               s2 = s1\<lparr>dsp := d1\<lparr>vis_last_screenbegin := (if vi_visual s1 then Some tp0 else None)\<rparr>\<rparr>;
               s3 = refresh_rows (nat (rows d1 - 1)) full tp0 0 s2;
               d4 = show_cursor (place_cursor (crow (dsp s3)) (ccol (dsp s3)) (dsp s3));
               d5 = (if keep_index d4 then d4 else d4\<lparr>cindex := ccol d4 + offset d4\<rparr>)
           in s3\<lparr>dsp := d5\<lparr>refresh_old_offset := offset d5\<rparr>\<rparr>))"

subsection \<open>The status line\<close>

text \<open>\<open>snprintf(status_buffer, trunc_at + 1, ...)\<close> and the length of what was kept.\<close>

definition cmd_mode_indicator :: "int \<Rightarrow> char" where
  "cmd_mode_indicator m = ''-IR-'' ! nat (m mod 4)"

definition format_edit_status :: "vi \<Rightarrow> int \<times> vi" where
  "format_edit_status s =
     (let t = tx s; d = dsp s;
          cur0 = count_lines t 0 (dot s);
          fresh = (modified_count (ed s) \<noteq> last_modified_count d);
          tot0 = (if fresh then cur0 + count_lines t (dot s) (tend t - 1) - 1 else format_edit_status_tot d);
          lmc = (if fresh then modified_count (ed s) else last_modified_count d);
          cur = (if tot0 > 0 then cur0 else 0);
          tot = (if tot0 > 0 then tot0 else 0);
          percent = (if tot0 > 0 then 100 * cur0 div tot0 else 100);
          trunc_at = (if columns d < int STATUS_BUFFER_LEN - 1 then columns d else int STATUS_BUFFER_LEN - 1);
          w = [if vi_visual s then CHR ''V'' else cmd_mode_indicator (cmd_mode s)] @ '' '' @
              (case current_filename s of Some f \<Rightarrow> cstr f | None \<Rightarrow> ''No file'') @
              (if modified_count (ed s) \<noteq> 0 then '' [Modified]'' else []) @ '' '' @
              dec cur @ ''/'' @ dec tot @ '' '' @ dec percent @ ''%'';
          ret = int (length w)
      in (if ret < trunc_at then ret else trunc_at,
          s\<lparr>dsp := d\<lparr>status_buffer := take (nat trunc_at) w, last_modified_count := lmc,
                      format_edit_status_tot := tot\<rparr>\<rparr>))"

definition bufsum :: "string \<Rightarrow> int \<Rightarrow> int" where
  "bufsum w n = sum_list (map cval (take (nat n) w))"

definition show_status_line_with :: "(vi \<Rightarrow> vi option) \<Rightarrow> vi \<Rightarrow> vi option" where
  "show_status_line_with hit_return s =
     (let msg = have_status_msg (dsp s);
          (cnt, s1) = (if msg = 0 then format_edit_status s else (0, s));
          cksum = (if msg = 0 then bufsum (status_buffer (dsp s1)) cnt else 0)
      in if msg \<noteq> 0 \<or> (cnt > 0 \<and> last_status_cksum (dsp s1) \<noteq> cksum) then
           (let s2 = on_dsp (\<lambda>d. puts_no_eol (status_buffer d)
                       (go_bottom_and_clear_to_eol (hide_cursor (d\<lparr>last_status_cksum := cksum\<rparr>)))) s1;
                fin = on_dsp (\<lambda>d. show_cursor (place_cursor (crow d) (ccol d) d))
            in if msg = 0 then Some (fin s2)
               else if int (length (cstr (status_buffer (dsp s2)))) - (msg - 1) > columns (dsp s2) - 1 then
                 (case hit_return (on_dsp (\<lambda>d. d\<lparr>have_status_msg := 0\<rparr>) s2) of
                    None \<Rightarrow> None
                  | Some s3 \<Rightarrow> Some (fin (on_dsp (\<lambda>d. d\<lparr>have_status_msg := 0\<rparr>) s3)))
               else Some (fin (on_dsp (\<lambda>d. d\<lparr>have_status_msg := 0\<rparr>) s2)))
         else Some s1)"

definition redraw_with :: "(vi \<Rightarrow> vi option) \<Rightarrow> bool \<Rightarrow> vi \<Rightarrow> vi option" where
  "redraw_with status full s =
     status (refresh full (on_dsp (\<lambda>d. (screen_erase
       (puts_no_eol (ESC_SET_CURSOR_TOPLEFT @ ESC_CLEAR2EOS) d))\<lparr>last_status_cksum := 0\<rparr>) s))"

partial_function (option) wait_return :: "vi \<Rightarrow> vi option" where
  "wait_return s =
     Option.bind (getc s) (\<lambda>(c, s'). if c = 10 \<or> c = 13 then Some s' else wait_return s')"

declare wait_return.simps [code]

definition Hit_Return_with :: "(vi \<Rightarrow> vi option) \<Rightarrow> vi \<Rightarrow> vi option" where
  "Hit_Return_with status s =
     do {
       s1 \<leftarrow> wait_return (on_dsp (\<lambda>d. standout_end (puts_no_eol ''[Hit return to continue]''
               (standout_start (show_cursor d)))) s);
       redraw_with status True s1
     }"

definition show_status_line :: "vi \<Rightarrow> vi option" where
  "show_status_line = show_status_line_with (Hit_Return_with (show_status_line_with Some))"

definition Hit_Return :: "vi \<Rightarrow> vi option" where
  "Hit_Return = Hit_Return_with show_status_line"

definition redraw :: "bool \<Rightarrow> vi \<Rightarrow> vi option" where
  "redraw = redraw_with show_status_line"

definition flash :: "vi \<Rightarrow> vi option" where
  "flash s =
     do {
       s1 \<leftarrow> redraw True (on_dsp standout_start s);
       redraw True (on_dsp standout_end s1)
     }"

definition indicate_error :: "vi \<Rightarrow> vi option" where
  "indicate_error s =
     (let s1 = s\<lparr>cmd_error := True\<rparr>
      in if \<not> err_method s1 then Some (on_dsp (puts_no_eol ESC_BELL) s1) else flash s1)"

definition bound_dot :: "ptr \<Rightarrow> vi \<Rightarrow> (ptr \<times> vi) option" where
  "bound_dot p s =
     do {
       (p1, s1) \<leftarrow> (if p \<ge> vend s \<and> vend s > 0
                    then do { s' \<leftarrow> indicate_error s; Some (vend s - 1, s') } else Some (p, s));
       (if p1 < 0 then do { s' \<leftarrow> indicate_error s1; Some (0, s') } else Some (p1, s1))
     }"

subsection \<open>The input line\<close>

text \<open>The loop of \<open>get_input_line\<close>; the buffer is the prompt and what has been typed.\<close>

partial_function (option) input_chars :: "string \<Rightarrow> vi \<Rightarrow> (string \<times> vi) option" where
  "input_chars w s =
     (if length w < MAX_INPUT_LEN - 1 then
        Option.bind (getc s) (\<lambda>(c, s1).
          if c = 10 \<or> c = 13 \<or> c = 27 then Some (w, s1)
          else if c = 8 \<or> c = 127 then
            (let s2 = on_dsp (puts_no_eol [CHR 0x08, CHR '' '', CHR 0x08]) s1; w' = butlast w
             in if w' = [] then Some (w', s2) else input_chars w' s2)
          else if 0 < c \<and> c < 256 then
            input_chars (w @ [to_char c]) (on_dsp (\<lambda>d. d\<lparr>stdout := stdout d @ [to_char c]\<rparr>) s1)
          else input_chars w s1)
      else Some (w, s))"

declare input_chars.simps [code]

definition get_input_line :: "string \<Rightarrow> vi \<Rightarrow> (string \<times> vi) option" where
  "get_input_line prompt s =
     do {
       (w, s1) \<leftarrow> input_chars prompt
          (on_dsp (\<lambda>d. puts_no_eol prompt (go_bottom_and_clear_to_eol (d\<lparr>last_status_cksum := 0\<rparr>))) s);
       Some (w, refresh False s1)
     }"

subsection \<open>The size of the screen\<close>

datatype reply_state = WANT_ESC | WANT_BRACKET | WANT_PARAMS

text \<open>
  The cursor report is parsed byte by byte; rows and columns are 32-bit. The result is the
  verdict and the events left.
\<close>

fun read_cursor_pos_reply :: "reply_state \<Rightarrow> 32 word \<Rightarrow> 32 word \<Rightarrow> bool \<Rightarrow> event list \<Rightarrow>
    (32 word \<times> 32 word) option \<times> event list" where
  "read_cursor_pos_reply st row col pc [] = (None, [])"
| "read_cursor_pos_reply st row col pc (Pause # es) = (None, es)"
| "read_cursor_pos_reply st row col pc (ReadError # es) = (None, es)"
| "read_cursor_pos_reply st row col pc (Byte c # es) =
     (case st of
        WANT_ESC \<Rightarrow> read_cursor_pos_reply (if c = ESC then WANT_BRACKET else WANT_ESC) row col pc es
      | WANT_BRACKET \<Rightarrow>
          read_cursor_pos_reply (if c = CHR ''['' then WANT_PARAMS else WANT_ESC) row col pc es
      | WANT_PARAMS \<Rightarrow>
          if isdigit c then
            (if pc then read_cursor_pos_reply WANT_PARAMS row (col * 10 + of_int (cval c - 48)) pc es
             else read_cursor_pos_reply WANT_PARAMS (row * 10 + of_int (cval c - 48)) col pc es)
          else if c = CHR '';'' then read_cursor_pos_reply WANT_PARAMS row col True es
          else if c = CHR ''R'' then (if row > 0 \<and> col > 0 then Some (row, col) else None, es)
          else read_cursor_pos_reply WANT_ESC 0 0 False es)"

text \<open>
  \<open>get_screen_xy\<close>. What the driver answers is a parameter: whether the two descriptors are
  terminals, and the window size if \<open>TIOCGWINSZ\<close> succeeds.
\<close>

record tty_driver =
  isatty_in :: bool
  isatty_out :: bool
  winsize :: "(16 word \<times> 16 word) option"

definition get_screen_xy :: "tty_driver \<Rightarrow> vi \<Rightarrow> vi" where
  "get_screen_xy drv s =
     (let size1 = (if isatty_in drv then
                     (case winsize drv of
                        Some (r, c) \<Rightarrow> if r > 0 \<and> c > 0 then Some (uint c, uint r) else None
                      | None \<Rightarrow> None)
                   else None);
          ((cols, ro), s1) =
            (case size1 of Some xy \<Rightarrow> (xy, s)
             | None \<Rightarrow>
                 if isatty_in drv \<and> isatty_out drv then
                   (case read_cursor_pos_reply WANT_ESC 0 0 False (stdin (kbd s)) of
                      (res, es) \<Rightarrow>
                        (case res of Some (r, c) \<Rightarrow> (uint c, uint r) | None \<Rightarrow> (80, 24),
                         on_dsp (puts_no_eol (ESC # ''[999;999H'' @ ESC # ''[6n'' @ ESC_SET_CURSOR_TOPLEFT))
                           (on_kbd (\<lambda>k. k\<lparr>stdin := es\<rparr>) s)))
                 else ((80, 24), s));
          c1 = (if cols < 2 then 2 else cols); r1 = (if ro < 2 then 2 else ro);
          c2 = (if c1 > 4096 then 4096 else c1); r2 = (if r1 > 4096 then 4096 else r1)
      in on_dsp (\<lambda>d. d\<lparr>columns := c2, rows := r2\<rparr>) s1)"


subsection \<open>What the screen code leaves alone\<close>

text \<open>
  Everything above changes the display, the keyboard and the error flag at most. \<open>screen_only\<close> is
  that relation; it is what the editing commands rely on when they show something.
\<close>

definition screen_only :: "vi \<Rightarrow> vi \<Rightarrow> bool" where
  "screen_only s s' \<longleftrightarrow>
     (\<forall>d k e. s'\<lparr>dsp := d, kbd := k, cmd_error := e\<rparr> = s\<lparr>dsp := d, kbd := k, cmd_error := e\<rparr>)"

lemma screen_only_refl [simp]: "screen_only s s"
  by (simp add: screen_only_def)

lemma screen_only_sym: "screen_only a b \<Longrightarrow> screen_only b a"
  by (simp add: screen_only_def)

lemma screen_only_trans [trans]: "screen_only a b \<Longrightarrow> screen_only b c \<Longrightarrow> screen_only a c"
  by (simp add: screen_only_def)

lemma screen_only_update [simp]:
  "screen_only a (b\<lparr>dsp := d\<rparr>) = screen_only a b" "screen_only (a\<lparr>dsp := d\<rparr>) b = screen_only a b"
  "screen_only a (b\<lparr>kbd := k\<rparr>) = screen_only a b" "screen_only (a\<lparr>kbd := k\<rparr>) b = screen_only a b"
  "screen_only a (b\<lparr>cmd_error := e\<rparr>) = screen_only a b"
  "screen_only (a\<lparr>cmd_error := e\<rparr>) b = screen_only a b"
  "screen_only a (on_dsp f b) = screen_only a b" "screen_only (on_dsp f a) b = screen_only a b"
  by (simp_all add: screen_only_def on_dsp_def)

lemma screen_onlyD:
  assumes "screen_only s s'"
  shows "ed s' = ed s" "dot s' = dot s" "cmd_mode s' = cmd_mode s" "tabstop s' = tabstop s"
    "vi_visual s' = vi_visual s" "cmdcnt s' = cmdcnt s" "vi_setops s' = vi_setops s"
    "regs s' = regs s" "regtype s' = regtype s" "YDreg s' = YDreg s" "marks s' = marks s"
    "vi_visual_anchor s' = vi_visual_anchor s" "indentcol s' = indentcol s"
    "current_filename s' = current_filename s" "fsys s' = fsys s"
    "last_search_pattern s' = last_search_pattern s" "editing s' = editing s" "argc s' = argc s"
proof -
  have e: "s'\<lparr>dsp := dsp s, kbd := kbd s, cmd_error := cmd_error s\<rparr> = s"
    using assms by (simp add: screen_only_def)
  have "f (s'\<lparr>dsp := dsp s, kbd := kbd s, cmd_error := cmd_error s\<rparr>) = f s" for f :: "vi \<Rightarrow> 'b"
    by (simp only: e)
  note * = this
  show "ed s' = ed s" using * [of ed] by simp
  show "dot s' = dot s" using * [of dot] by simp
  show "cmd_mode s' = cmd_mode s" using * [of cmd_mode] by simp
  show "tabstop s' = tabstop s" using * [of tabstop] by simp
  show "vi_visual s' = vi_visual s" using * [of vi_visual] by simp
  show "cmdcnt s' = cmdcnt s" using * [of cmdcnt] by simp
  show "vi_setops s' = vi_setops s" using * [of vi_setops] by simp
  show "regs s' = regs s" using * [of regs] by simp
  show "regtype s' = regtype s" using * [of regtype] by simp
  show "YDreg s' = YDreg s" using * [of YDreg] by simp
  show "marks s' = marks s" using * [of marks] by simp
  show "vi_visual_anchor s' = vi_visual_anchor s" using * [of vi_visual_anchor] by simp
  show "indentcol s' = indentcol s" using * [of indentcol] by simp
  show "current_filename s' = current_filename s" using * [of current_filename] by simp
  show "fsys s' = fsys s" using * [of fsys] by simp
  show "last_search_pattern s' = last_search_pattern s" using * [of last_search_pattern] by simp
  show "editing s' = editing s" using * [of editing] by simp
  show "argc s' = argc s" using * [of argc] by simp
qed

lemma screen_only_getc: "getc s = Some (c, s') \<Longrightarrow> screen_only a s' = screen_only a s"
  using getc_frame [of s c s'] by auto

lemma screen_only_sync_cursor: "screen_only a (snd (sync_cursor d s)) = screen_only a s"
  by (simp add: sync_cursor_def Let_def split: prod.split)

lemma screen_only_refresh_row: "screen_only a (refresh_row full tp li s) = screen_only a s"
  by (simp add: refresh_row_def Let_def split: option.split prod.split)

lemma screen_only_refresh_rows: "screen_only a (refresh_rows n full tp li s) = screen_only a s"
  by (induction n arbitrary: tp li s) (simp_all add: screen_only_refresh_row)

lemma screen_only_refresh [simp]: "screen_only a (refresh full s) = screen_only a s"
  using screen_only_sync_cursor [of a "dot s" s]
  by (auto simp: refresh_def Let_def screen_only_refresh_rows split: prod.split)

lemma screen_only_format_edit_status: "screen_only a (snd (format_edit_status s)) = screen_only a s"
  by (simp add: format_edit_status_def Let_def)

text \<open>The relation between a state and the result of something that may not return.\<close>

definition shows_only :: "(vi \<Rightarrow> vi option) \<Rightarrow> bool" where
  "shows_only f \<longleftrightarrow> (\<forall>s s'. f s = Some s' \<longrightarrow> screen_only s s')"

lemma shows_onlyD: "shows_only f \<Longrightarrow> f s = Some s' \<Longrightarrow> screen_only a s \<Longrightarrow> screen_only a s'"
  unfolding shows_only_def using screen_only_trans by blast

lemma shows_only_status_with:
  assumes "shows_only f"
  shows "shows_only (show_status_line_with f)"
  unfolding shows_only_def
proof (intro allI impI)
  fix s s' assume r: "show_status_line_with f s = Some s'"
  obtain cnt s1 where s1: "(if have_status_msg (dsp s) = 0 then format_edit_status s else (0, s)) = (cnt, s1)"
    by (cases "if have_status_msg (dsp s) = 0 then format_edit_status s else (0, s)") auto
  have "screen_only s s1"
    using s1 screen_only_format_edit_status [of s s] by (auto split: if_splits)
  then show "screen_only s s'"
    using r unfolding show_status_line_with_def s1 Let_def prod.case
    by (auto split: if_splits option.splits dest!: shows_onlyD [OF assms, where a = s])
qed

lemma shows_only_redraw_with: "shows_only f \<Longrightarrow> shows_only (redraw_with f full)"
  unfolding shows_only_def [of "redraw_with f full"] redraw_with_def
  by (auto dest!: shows_onlyD)

lemma wait_return_screen:
  assumes "wait_return s = Some s'"
  shows "screen_only s s'"
proof (rule wait_return.raw_induct [where P = screen_only, OF _ assms])
  fix w :: "vi \<Rightarrow> vi option" and s s'
  assume w: "\<And>s s'. w s = Some s' \<Longrightarrow> screen_only s s'"
    and "Option.bind (getc s) (\<lambda>(c, s'). if c = 10 \<or> c = 13 then Some s' else w s') = Some s'"
  then obtain c s1 where c: "getc s = Some (c, s1)" "(if c = 10 \<or> c = 13 then Some s1 else w s1) = Some s'"
    by (auto simp: bind_eq_Some_conv)
  have "screen_only s s1" using screen_only_getc [OF c(1), of s] by simp
  then show "screen_only s s'"
    using c(2) w [of s1 s'] screen_only_trans by (auto split: if_splits)
qed

lemma shows_only_hit_return_with:
  assumes "shows_only f"
  shows "shows_only (Hit_Return_with f)"
  unfolding shows_only_def
proof (intro allI impI)
  fix s s' assume "Hit_Return_with f s = Some s'"
  then obtain s1 where "wait_return (on_dsp (\<lambda>d. standout_end (puts_no_eol ''[Hit return to continue]''
               (standout_start (show_cursor d)))) s) = Some s1" "redraw_with f True s1 = Some s'"
    by (auto simp: Hit_Return_with_def bind_eq_Some_conv)
  then show "screen_only s s'"
    using wait_return_screen shows_onlyD [OF shows_only_redraw_with [OF assms]] by fastforce
qed

lemma shows_only_all [simp]:
  "shows_only show_status_line" "shows_only (redraw full)" "shows_only Hit_Return" "shows_only flash"
  "shows_only indicate_error"
proof -
  have "shows_only Some" by (simp add: shows_only_def)
  then show st: "shows_only show_status_line"
    unfolding show_status_line_def by (intro shows_only_status_with shows_only_hit_return_with)
  show rd: "shows_only (redraw full)" for full
    unfolding redraw_def using st by (rule shows_only_redraw_with)
  show "shows_only Hit_Return"
    unfolding Hit_Return_def using st by (rule shows_only_hit_return_with)
  show fl: "shows_only flash"
    unfolding shows_only_def
    by (auto simp: flash_def bind_eq_Some_conv dest: shows_onlyD [OF rd, where a = s for s])
      (metis rd screen_only_refl screen_only_update(7) shows_onlyD)
  show "shows_only indicate_error"
    unfolding shows_only_def
    by (auto simp: indicate_error_def Let_def split: if_splits)
      (metis fl screen_only_refl screen_only_update(5) shows_onlyD)
qed

lemmas shown = shows_onlyD [OF shows_only_all(1)] shows_onlyD [OF shows_only_all(2)]
  shows_onlyD [OF shows_only_all(3)] shows_onlyD [OF shows_only_all(4)] shows_onlyD [OF shows_only_all(5)]

lemma bound_dot_screen: "bound_dot p s = Some (q, s') \<Longrightarrow> screen_only a s \<Longrightarrow> screen_only a s'"
  by (auto simp: bound_dot_def bind_eq_Some_conv split: if_splits dest!: shown(5) [where a = a])

lemma bound_dot_range:
  assumes "bound_dot p s = Some (q, s')" and "0 \<le> vend s"
  shows "0 \<le> q \<and> (0 < vend s \<longrightarrow> q < vend s) \<and> (0 \<le> p \<and> p < vend s \<longrightarrow> q = p)"
  using assms by (auto simp: bound_dot_def bind_eq_Some_conv split: if_splits)

lemma input_chars_screen:
  assumes "input_chars w s = Some r"
  shows "screen_only s (snd r)"
proof (rule input_chars.raw_induct [where P = "\<lambda>w s r. screen_only s (snd r)", OF _ assms])
  fix ic :: "string \<Rightarrow> vi \<Rightarrow> (string \<times> vi) option" and w s r
  assume IH: "\<And>w s r. ic w s = Some r \<Longrightarrow> screen_only s (snd r)"
    and r: "(if length w < MAX_INPUT_LEN - 1 then
        Option.bind (getc s) (\<lambda>(c, s1).
          if c = 10 \<or> c = 13 \<or> c = 27 then Some (w, s1)
          else if c = 8 \<or> c = 127 then
            (let s2 = on_dsp (puts_no_eol [CHR 0x08, CHR '' '', CHR 0x08]) s1; w' = butlast w
             in if w' = [] then Some (w', s2) else ic w' s2)
          else if 0 < c \<and> c < 256 then
            ic (w @ [to_char c]) (on_dsp (\<lambda>d. d\<lparr>stdout := stdout d @ [to_char c]\<rparr>) s1)
          else ic w s1)
      else Some (w, s)) = Some r"
  show "screen_only s (snd r)"
  proof (cases "length w < MAX_INPUT_LEN - 1")
    case True
    then obtain c s1 where c: "getc s = Some (c, s1)"
      using r by (auto simp: bind_eq_Some_conv)
    have s1: "screen_only s s1" using screen_only_getc [OF c, of s] by simp
    have step: "ic v s2 = Some r \<Longrightarrow> screen_only s s2 \<Longrightarrow> screen_only s (snd r)" for v s2
      using IH screen_only_trans by blast
    show ?thesis
      using r True c s1 by (auto simp: Let_def split: if_splits dest!: step)
  qed (use r in auto)
qed

lemma input_line_screen: "get_input_line prompt s = Some (w, s') \<Longrightarrow> screen_only s s'"
  by (auto simp: get_input_line_def bind_eq_Some_conv dest!: input_chars_screen)


subsection \<open>What \<open>refresh\<close> draws\<close>

text \<open>
  The geometry \<open>refresh\<close> works with is fixed while it paints the rows, so every row is compared
  with the same formatted line that is finally shown.
\<close>

lemma length_format_line [simp]: "length (format_line s p) = nat (columns (dsp s))"
  by (auto simp: format_line_def Let_def min_def split: prod.split)

lemma format_line_cong:
  "columns (dsp s') = columns (dsp s) \<Longrightarrow> offset (dsp s') = offset (dsp s) \<Longrightarrow> tabstop s' = tabstop s \<Longrightarrow>
   tb (ed s') = tb (ed s) \<Longrightarrow> format_line s' p = format_line s p"
  by (simp add: format_line_def)

definition same_geometry :: "vi \<Rightarrow> vi \<Rightarrow> bool" where
  "same_geometry s s' \<longleftrightarrow> columns (dsp s') = columns (dsp s) \<and> rows (dsp s') = rows (dsp s) \<and>
     offset (dsp s') = offset (dsp s) \<and> screenbegin (dsp s') = screenbegin (dsp s) \<and>
     refresh_old_offset (dsp s') = refresh_old_offset (dsp s) \<and> tabstop s' = tabstop s \<and> tb (ed s') = tb (ed s)"

lemma same_geometry_refl [simp]: "same_geometry s s"
  by (simp add: same_geometry_def)

lemma same_geometry_trans: "same_geometry a b \<Longrightarrow> same_geometry b c \<Longrightarrow> same_geometry a c"
  by (simp add: same_geometry_def)

lemma geometry_refresh_row: "same_geometry s (refresh_row full tp li s)"
  by (auto simp: same_geometry_def refresh_row_def Let_def hide_cursor_def place_cursor_def puts_no_eol_def
      split: option.split)

lemma geometry_refresh_rows: "same_geometry s (refresh_rows n full tp li s)"
proof (induction n arbitrary: tp li s)
  case (Suc n)
  show ?case using same_geometry_trans [OF geometry_refresh_row Suc.IH] by simp
qed simp

lemma geometry_format: "same_geometry s s' \<Longrightarrow> format_line s' p = format_line s p"
  by (rule format_line_cong) (simp_all add: same_geometry_def)

text \<open>A repainted span covers every difference.\<close>

lemma repaint_span_bounds:
  assumes "repaint_span out sc sp cols full shifted = Some (cs, ce)" and "0 < cols"
  shows "cs \<le> ce" and "ce < nat cols"
    and "j < nat cols \<Longrightarrow> out ! j \<noteq> sc (sp + int j) \<Longrightarrow> cs \<le> j \<and> j \<le> ce"
proof -
  let ?r = "row_diff out sc sp cols"
  have r: "sorted ?r" "\<forall>x \<in> set ?r. x < nat cols"
    by (auto simp: row_diff_def sorted_wrt_filter)
  have d: "k \<le> x \<and> x \<le> last (k # ks) \<and> k \<le> last (k # ks) \<and> last (k # ks) < nat cols"
    if ks: "?r = k # ks" and x: "x \<in> set ?r" for x k ks
  proof -
    have "last (k # ks) \<in> set ?r" unfolding ks by (rule last_in_set) simp
    moreover have "x \<le> last (k # ks)"
      using x r(1) unfolding ks by (cases ks rule: rev_cases) (auto simp: sorted_append)
    moreover have "k \<le> y" if "y \<in> set ?r" for y using that r(1) unfolding ks by auto
    ultimately show ?thesis using r(2) x by blast
  qed
  show "cs \<le> ce" "ce < nat cols"
    using assms d by (auto simp: repaint_span_def split: list.splits if_splits)
  assume j: "j < nat cols" "out ! j \<noteq> sc (sp + int j)"
  then have "j \<in> set ?r" by (simp add: row_diff_def)
  then show "cs \<le> j \<and> j \<le> ce"
    using assms d j by (auto simp: repaint_span_def split: list.splits if_splits)
qed

lemma repaint_span_none:
  "repaint_span out sc sp cols full shifted = None \<Longrightarrow> j < nat cols \<Longrightarrow> out ! j = sc (sp + int j)"
  by (auto simp: repaint_span_def row_diff_def filter_empty_conv split: list.splits if_splits)

lemma screen_place [simp]: "screen (place_cursor r c d) = screen d"
  and screen_hide [simp]: "screen (hide_cursor d) = screen d"
  and screen_show [simp]: "screen (show_cursor d) = screen d"
  by (simp_all add: place_cursor_def hide_cursor_def show_cursor_def puts_no_eol_def Let_def)

lemma refresh_row_screen:
  assumes "0 < columns (dsp s)"
  shows "screen (dsp (refresh_row full tp li s)) i =
    (if li * columns (dsp s) \<le> i \<and> i < li * columns (dsp s) + columns (dsp s)
     then format_line s tp ! nat (i - li * columns (dsp s)) else screen (dsp s) i)"
proof -
  let ?out = "format_line s tp" and ?sp = "li * columns (dsp s)"
  let ?sc = "screen (dsp s)"
  show ?thesis
  proof (cases "repaint_span ?out ?sc ?sp (columns (dsp s)) full (offset (dsp s) \<noteq> refresh_old_offset (dsp s))")
    case None
    have "?out ! nat (i - ?sp) = ?sc i" if "?sp \<le> i" "i < ?sp + columns (dsp s)"
      using repaint_span_none [OF None, of "nat (i - ?sp)"] that by simp
    then show ?thesis using None by (simp add: refresh_row_def Let_def)
  next
    case (Some ab)
    obtain cs ce where ab: "ab = (cs, ce)" by (cases ab)
    note sp = Some [unfolded ab]
    note bounds = repaint_span_bounds [OF sp assms]
    have ce: "cs \<le> ce" "ce < nat (columns (dsp s))" using bounds by auto
    have scr: "screen (dsp (refresh_row full tp li s)) =
        memcpy_str ?sc (?sp + int cs) (take (ce - cs + 1) (drop cs ?out))"
      using sp by (simp add: refresh_row_def Let_def)
    show ?thesis
    proof (cases "?sp \<le> i \<and> i < ?sp + columns (dsp s)")
      case out: False
      then show ?thesis using ce by (auto simp: scr memcpy_str_def min_def)
    next
      case True
      define j where "j = nat (i - ?sp)"
      have j: "i = ?sp + int j" "j < nat (columns (dsp s))" using True by (auto simp: j_def)
      show ?thesis
      proof (cases "cs \<le> j \<and> j \<le> ce")
        case in_span: True
        then have "nat (i - (?sp + int cs)) = j - cs" using j by simp
        then show ?thesis using in_span j ce by (auto simp: scr memcpy_str_def min_def nth_append)
      next
        case False
        then have "?out ! j = ?sc (?sp + int j)" using bounds(3) j(2) by blast
        then show ?thesis using False j ce by (auto simp: scr memcpy_str_def min_def)
      qed
    qed
  qed
qed

lemma refresh_rows_above:
  assumes "0 < columns (dsp s)" and "i < li * columns (dsp s)"
  shows "screen (dsp (refresh_rows n full tp li s)) i = screen (dsp s) i"
  using assms
proof (induction n arbitrary: tp li s)
  case (Suc n)
  define s1 where "s1 = refresh_row full tp li s"
  have "columns (dsp s1) = columns (dsp s)"
    using geometry_refresh_row [of s full tp li] by (simp add: s1_def same_geometry_def)
  moreover have "i < (li + 1) * columns (dsp s)" using Suc.prems by (simp add: distrib_right)
  ultimately have "screen (dsp (refresh_rows n full (refresh_next (tx s) tp) (li + 1) s1)) i = screen (dsp s1) i"
    using Suc.IH [of s1 "li + 1"] Suc.prems by simp
  then show ?case using Suc.prems by (simp add: s1_def refresh_row_screen)
qed simp

lemma refresh_rows_screen:
  assumes "0 < columns (dsp s)" and "k < n" and "j < nat (columns (dsp s))"
  shows "screen (dsp (refresh_rows n full tp li s)) ((li + int k) * columns (dsp s) + int j) =
    format_line s ((refresh_next (tx s) ^^ k) tp) ! j"
  using assms
proof (induction n arbitrary: k tp li s)
  case (Suc n)
  define s1 where "s1 = refresh_row full tp li s"
  have g: "same_geometry s s1" by (simp add: s1_def geometry_refresh_row)
  then have c1: "columns (dsp s1) = columns (dsp s)" "tb (ed s1) = tb (ed s)"
    by (simp_all add: same_geometry_def)
  show ?case
  proof (cases k)
    case 0
    have "li * columns (dsp s) + int j < (li + 1) * columns (dsp s1)"
      using Suc.prems c1 by (simp add: distrib_right)
    then show ?thesis
      using refresh_rows_above [of s1 "li * columns (dsp s) + int j" "li + 1" n full "refresh_next (tx s) tp"]
        Suc.prems c1 0 by (simp add: s1_def refresh_row_screen zless_nat_eq_int_zless)
  next
    case (Suc k')
    have "screen (dsp (refresh_rows n full (refresh_next (tx s) tp) (li + 1) s1))
        ((li + 1 + int k') * columns (dsp s1) + int j) =
      format_line s1 ((refresh_next (tx s1) ^^ k') (refresh_next (tx s) tp)) ! j"
      by (rule Suc.IH) (use Suc.prems c1 Suc in auto)
    then show ?thesis
      using c1 Suc geometry_format [OF g] by (simp add: s1_def funpow_swap1 algebra_simps)
  qed
qed simp

lemma refresh_screen:
  fixes full :: bool and s :: vi
  assumes "0 < columns (dsp s)" and "int li < rows (dsp s) - 1" and "j < nat (columns (dsp s))"
  defines "s' \<equiv> refresh full s"
  shows "screen (dsp s') (int li * columns (dsp s') + int j) =
     format_line s' ((refresh_next (tx s') ^^ li) (screenbegin (dsp s'))) ! j"
proof -
  obtain ro co s1 where s1: "sync_cursor (dot s) s = ((ro, co), s1)" by (metis surj_pair)
  have k1: "columns (dsp s1) = columns (dsp s)" "rows (dsp s1) = rows (dsp s)" "tb (ed s1) = tb (ed s)" "tabstop s1 = tabstop s"
    using s1 by (auto simp: sync_cursor_def Let_def split: prod.splits)
  define s2 where "s2 = s1\<lparr>dsp := (dsp s1)\<lparr>crow := ro, ccol := co,
      vis_last_screenbegin := (if vi_visual s1 then Some (screenbegin (dsp s1)) else None)\<rparr>\<rparr>"
  define fl where "fl = (full \<or> (vi_visual s1 \<and> Some (screenbegin (dsp s1)) \<noteq> vis_last_screenbegin (dsp s1)))"
  define s3 where "s3 = refresh_rows (nat (rows (dsp s1) - 1)) fl (screenbegin (dsp s1)) 0 s2"
  have k2: "columns (dsp s2) = columns (dsp s)" "tb (ed s2) = tb (ed s)" "screenbegin (dsp s2) = screenbegin (dsp s1)"
    by (simp_all add: s2_def k1)
  have g: "same_geometry s2 s3" unfolding s3_def by (rule geometry_refresh_rows)
  have "s' = s3\<lparr>dsp := dsp s'\<rparr>" and sc: "screen (dsp s') = screen (dsp s3)"
    and d': "columns (dsp s') = columns (dsp s3)" "offset (dsp s') = offset (dsp s3)"
      "screenbegin (dsp s') = screenbegin (dsp s3)"
    by (simp_all add: s'_def refresh_def s1 Let_def s3_def s2_def fl_def place_cursor_def show_cursor_def puts_no_eol_def)
  then have e: "tb (ed s') = tb (ed s3)" "tabstop s' = tabstop s3" by (metis vi.select_convs vi.surjective vi.update_convs)+
  have "format_line s' p = format_line s3 p" for p
    by (rule format_line_cong) (use e d' in auto)
  then have fm: "format_line s' p = format_line s2 p" for p
    using geometry_format [OF g] by simp
  have "screen (dsp s3) ((0 + int li) * columns (dsp s2) + int j) =
      format_line s2 ((refresh_next (tx s2) ^^ li) (screenbegin (dsp s1))) ! j"
    unfolding s3_def by (rule refresh_rows_screen) (use assms(1-3) k1 k2 in auto)
  then show ?thesis
    using g e d' k2 by (simp add: sc fm same_geometry_def)
qed

text \<open>
  C14. After \<open>refresh\<close> the virtual screen shows the text: on every row above the status line and in
  every column stands the character that \<open>format_line\<close> gives for the text line of that row,
  counted from \<open>screenbegin\<close>, although only the changed span of a row is repainted.
\<close>

theorem refresh_shows_text:
  fixes full :: bool and s :: vi
  assumes "0 < columns (dsp s)" and "int li < rows (dsp s) - 1" and "j < nat (columns (dsp s))"
  defines "s' \<equiv> refresh full s"
  shows "screen (dsp s') (int li * columns (dsp s') + int j) =
     format_line s' ((refresh_next (tx s') ^^ li) (screenbegin (dsp s'))) ! j"
  unfolding s'_def by (rule refresh_screen) (use assms in auto)

theorem refresh_shows_text_witness:
  "screen (dsp (refresh False demo)) (int 1 * columns (dsp (refresh False demo)) + int 0) =
     format_line (refresh False demo)
       ((refresh_next (tx (refresh False demo)) ^^ 1) (screenbegin (dsp (refresh False demo)))) ! 0"
  by (rule refresh_shows_text) (simp_all add: demo_def editor_of_def)

subsection \<open>The nesting of the status line\<close>

text \<open>Repainting leaves the pending message alone, and so does waiting for a key.\<close>

lemma msg_refresh_rows:
  "have_status_msg (dsp (refresh_rows n full tp li s)) = have_status_msg (dsp s)"
proof (induction n arbitrary: tp li s)
  case (Suc n)
  have "have_status_msg (dsp (refresh_row full tp li s)) = have_status_msg (dsp s)"
    by (auto simp: refresh_row_def Let_def hide_cursor_def place_cursor_def puts_no_eol_def split: option.split)
  then show ?case using Suc.IH by simp
qed simp

lemma msg_refresh: "have_status_msg (dsp (refresh full s)) = have_status_msg (dsp s)"
  by (auto simp: refresh_def Let_def msg_refresh_rows show_cursor_def place_cursor_def puts_no_eol_def sync_cursor_def
      split: prod.split)

lemma msg_getc: "getc s = Some (c, s') \<Longrightarrow> dsp s' = dsp s"
  by (auto simp: getc_def)

lemma msg_wait_return: "wait_return s = Some s' \<Longrightarrow> dsp s' = dsp s"
proof -
  assume w: "wait_return s = Some s'"
  show ?thesis
  proof (rule wait_return.raw_induct [where P = "\<lambda>s s'. dsp s' = dsp s", OF _ w])
    fix f s s'
    assume IH: "\<And>s s'. f s = Some s' \<Longrightarrow> dsp s' = dsp s"
      and eq: "Option.bind (getc s) (\<lambda>(c, s'). if c = 10 \<or> c = 13 then Some s' else f s') = Some s'"
    obtain c s1 where g: "getc s = Some (c, s1)" "(if c = 10 \<or> c = 13 then Some s1 else f s1) = Some s'"
      using eq by (auto simp: bind_eq_Some_conv)
    show "dsp s' = dsp s" using msg_getc [OF g(1)] g(2) IH by (auto split: if_splits)
  qed
qed

lemma redraw_msg:
  assumes "have_status_msg (dsp s) = 0"
  shows "redraw_with (show_status_line_with f) full s = redraw_with (show_status_line_with g) full s"
    and "\<exists>s'. redraw_with (show_status_line_with f) full s = Some s'"
  using assms
  by (auto simp: redraw_with_def show_status_line_with_def Let_def on_dsp_def msg_refresh puts_no_eol_def screen_erase_def
      split: prod.split)

lemma Hit_Return_msg:
  assumes "have_status_msg (dsp s) = 0"
  shows "Hit_Return_with (show_status_line_with f) s = Hit_Return_with (show_status_line_with g) s"
proof -
  have "redraw_with (show_status_line_with f) True s1 = redraw_with (show_status_line_with g) True s1"
    if "wait_return (on_dsp (\<lambda>d. standout_end (puts_no_eol ''[Hit return to continue]''
               (standout_start (show_cursor d)))) s) = Some s1" for s1
    using redraw_msg(1) [of s1] msg_wait_return [OF that] assms
    by (simp add: on_dsp_def standout_end_def standout_start_def puts_no_eol_def show_cursor_def)
  then show ?thesis
    unfolding Hit_Return_with_def by (intro Option.bind_cong refl)
qed

lemma show_status_line_unfold: "show_status_line s = show_status_line_with Hit_Return s"
proof -
  have "show_status_line_with f s = show_status_line_with g s"
    if "\<And>s. have_status_msg (dsp s) = 0 \<Longrightarrow> f s = g s" for f g
    unfolding show_status_line_with_def Let_def
    by (intro prod.case_cong refl if_cong option.case_cong that) (simp add: on_dsp_def)
  then show ?thesis
    using Hit_Return_msg unfolding show_status_line_def Hit_Return_def by blast
qed

lemma redraw_returns: "have_status_msg (dsp s) = 0 \<Longrightarrow> \<exists>s'. redraw full s = Some s'"
  unfolding redraw_def show_status_line_def by (rule redraw_msg(2))

end
