(* ===== verification/EditOps.thy ===== *)
theory EditOps
  imports Terminal
begin

text \<open>
  The editing operations of \<open>vim_text.c\<close> above the buffer and the undo stack: bracket matching,
  searching, inserting a typed character in insert mode, undo, and the files. Also the counted
  loop \<open>do ... while (--cmdcnt > 0)\<close> that most commands are built on.
\<close>

subsection \<open>Counted loops\<close>

text \<open>
  The body's flag tells whether the loop goes on (\<open>False\<close> for a \<open>break\<close> or a jump out of it). The
  count drops by one a round, so \<open>cmdcnt\<close> rounds and one are enough.
\<close>

fun count_rounds :: "nat \<Rightarrow> (vi \<Rightarrow> (bool \<times> vi) option) \<Rightarrow> vi \<Rightarrow> (bool \<times> vi) option" where
  "count_rounds 0 f s = Some (True, s)"
| "count_rounds (Suc n) f s =
     (case f s of None \<Rightarrow> None
      | Some (go, s1) \<Rightarrow>
          if \<not> go then Some (False, s1)
          else
            (let s2 = s1\<lparr>cmdcnt := cmdcnt s1 - 1\<rparr>
             in if cmdcnt s2 > 0 then count_rounds n f s2 else Some (True, s2)))"

definition count_loop :: "(vi \<Rightarrow> (bool \<times> vi) option) \<Rightarrow> vi \<Rightarrow> (bool \<times> vi) option" where
  "count_loop f s = count_rounds (Suc (nat (cmdcnt s))) f s"

definition count_pure :: "(vi \<Rightarrow> vi) \<Rightarrow> vi \<Rightarrow> vi option" where
  "count_pure f s = map_option snd (count_loop (\<lambda>s. Some (True, f s)) s)"

subsection \<open>Brackets\<close>

text \<open>
  The partner of a bracket and the direction to look in. For any other character the code reads
  past the string of brackets; the model then has no partner to offer and looks for a NUL.
\<close>

definition brace_match :: "char \<Rightarrow> char \<times> int" where
  "brace_match c =
     (if c = CHR ''('' then (CHR '')'', 1) else if c = CHR '')'' then (CHR ''('', - 1)
      else if c = CHR ''['' then (CHR '']'', 1) else if c = CHR '']'' then (CHR ''['', - 1)
      else if c = CHR ''{'' then (CHR ''}'', 1) else if c = CHR ''}'' then (CHR ''{'', - 1)
      else (NUL, 1))"

function find_pair_from :: "tbuf \<Rightarrow> char \<Rightarrow> char \<Rightarrow> bool \<Rightarrow> ptr \<Rightarrow> int \<Rightarrow> ptr option" where
  "find_pair_from t c m fwd p level =
     (let p' = (if fwd then p + 1 else p - 1)
      in if p' < 0 \<or> p' \<ge> tend t then None
         else
           (let l1 = (if mem t p' = c then level + 1 else level);
                l2 = (if mem t p' = m then l1 - 1 else l1)
            in if mem t p' = m \<and> l2 = 0 then Some p' else find_pair_from t c m fwd p' l2))"
  by pat_completeness auto
termination
  by (relation "measure (\<lambda>(t, c, m, fwd, p, l). nat (if fwd then tend t - p else p + 1))")
    (auto split: if_splits)

declare find_pair_from.simps [simp del]

definition find_pair :: "tbuf \<Rightarrow> ptr \<Rightarrow> char \<Rightarrow> ptr option" where
  "find_pair t p c = (case brace_match c of (m, dir) \<Rightarrow> find_pair_from t c m (dir > 0) p 1)"

definition showmatching :: "ptr \<Rightarrow> vi \<Rightarrow> vi option" where
  "showmatching p s =
     (case find_pair (tx s) p (ch s p) of
        None \<Rightarrow> indicate_error s
      | Some q \<Rightarrow>
          (let save_dot = dot s; s1 = refresh False (s\<lparr>dot := q\<rparr>)
           in Some (refresh False (s1\<lparr>dot := save_dot\<rparr>))))"

subsection \<open>Searching\<close>

fun mycmp :: "bool \<Rightarrow> (int \<Rightarrow> char) \<Rightarrow> ptr \<Rightarrow> string \<Rightarrow> bool" where
  "mycmp ic m p [] = True"
| "mycmp ic m p (c # cs) =
     ((if ic then tolower (m p) = tolower c else m p = c) \<and> mycmp ic m (p + 1) cs)"

fun search_up :: "bool \<Rightarrow> (int \<Rightarrow> char) \<Rightarrow> string \<Rightarrow> ptr \<Rightarrow> nat \<Rightarrow> ptr option" where
  "search_up ic m pat p 0 = None"
| "search_up ic m pat p (Suc n) = (if mycmp ic m p pat then Some p else search_up ic m pat (p + 1) n)"

fun search_down :: "bool \<Rightarrow> (int \<Rightarrow> char) \<Rightarrow> string \<Rightarrow> ptr \<Rightarrow> nat \<Rightarrow> ptr option" where
  "search_down ic m pat p 0 = None"
| "search_down ic m pat p (Suc n) = (if mycmp ic m p pat then Some p else search_down ic m pat (p - 1) n)"

definition char_search :: "bool \<Rightarrow> tbuf \<Rightarrow> ptr \<Rightarrow> string \<Rightarrow> bool \<Rightarrow> bool \<Rightarrow> ptr option" where
  "char_search ic t p pat fwd full =
     (if fwd then
        (let stop = (if full then tend t - 1 else next_line t p)
         in search_up ic (mem t) pat p (nat (stop - p)))
      else
        (let stop = (if full then 0 else prev_line t p); start = p - int (length pat)
         in search_down ic (mem t) pat start (nat (start - stop + 1))))"

text \<open>The inner loop of \<open>dot_to_char\<close>: the next occurrence of the character on this line.\<close>

function char_on_line :: "tbuf \<Rightarrow> int \<Rightarrow> bool \<Rightarrow> ptr \<Rightarrow> ptr option" where
  "char_on_line t k fwd q =
     (let q' = (if fwd then q + 1 else q - 1)
      in if (if fwd then q' > tend t - 1 else q' < 0) \<or> mem t q' = NL then None
         else if cval (mem t q') = k then Some q'
         else char_on_line t k fwd q')"
  by pat_completeness auto
termination
  by (relation "measure (\<lambda>(t, k, fwd, q). nat (if fwd then tend t - q else q + 1))")
    (auto split: if_splits)

declare char_on_line.simps [simp del]

fun chars_on_line :: "nat \<Rightarrow> bool \<Rightarrow> ptr \<Rightarrow> vi \<Rightarrow> (ptr option \<times> vi)" where
  "chars_on_line 0 fwd q s = (Some q, s)"
| "chars_on_line (Suc n) fwd q s =
     (case char_on_line (tx s) (last_search_char s) fwd q of
        None \<Rightarrow> (None, s)
      | Some q' \<Rightarrow>
          (let s1 = s\<lparr>cmdcnt := cmdcnt s - 1\<rparr>
           in if cmdcnt s1 > 0 then chars_on_line n fwd q' s1 else (Some q', s1)))"

definition dot_to_char :: "int \<Rightarrow> vi \<Rightarrow> vi option" where
  "dot_to_char cmd s =
     (if last_search_char s = 0 then Some s
      else
        (case chars_on_line (Suc (nat (cmdcnt s))) (97 \<le> cmd \<and> cmd \<le> 122) (dot s) s of
           (None, s1) \<Rightarrow> indicate_error s1
         | (Some q, s1) \<Rightarrow>
             (let s2 = s1\<lparr>dot := q\<rparr>
              in Some (if cmd = 116 then dot_left s2 else if cmd = 84 then dot_right s2 else s2))))"

subsection \<open>Inserting a character\<close>

definition insert_byte :: "ptr \<Rightarrow> char \<Rightarrow> vi \<Rightarrow> vi" where
  "insert_byte p c = on_tb (\<lambda>t. stupid_insert t p c)"

definition push_insert :: "ptr \<Rightarrow> int \<Rightarrow> undo_mode \<Rightarrow> vi \<Rightarrow> vi" where
  "push_insert p n undo = on_ed (\<lambda>u. undo_push_insert u p n undo)"

definition hole_delete :: "ptr \<Rightarrow> ptr \<Rightarrow> undo_mode \<Rightarrow> vi \<Rightarrow> ptr \<times> vi" where
  "hole_delete p q undo s = (case text_hole_delete (ed s) p q undo of (d, u) \<Rightarrow> (d, s\<lparr>ed := u\<rparr>))"

text \<open>ctrl-V: the next key is taken literally; a caret stands in its place until it arrives.\<close>

definition insert_literal :: "ptr \<Rightarrow> undo_mode \<Rightarrow> vi \<Rightarrow> (ptr \<times> vi) option" where
  "insert_literal p undo s =
     do {
       (c, s1) \<leftarrow> getc (refresh False (insert_byte p (CHR ''^'') s));
       Some (p + 1, push_insert p 1 undo (on_tb (\<lambda>t. set_byte t p (to_char c)) s1)\<lparr>indentcol := 0\<rparr>)
     }"

definition insert_escape :: "ptr \<Rightarrow> undo_mode \<Rightarrow> vi \<Rightarrow> ptr \<times> vi" where
  "insert_escape p undo s =
     (let bol = begin_line (tx s) p;
          s1 = force_status (end_cmd_q ((commit (s\<lparr>cmd_mode := 0\<rparr>))\<lparr>cmdcnt := 0\<rparr>));
          p1 = (if dot s1 > 0 \<and> ch s1 (p - 1) \<noteq> NL then p - 1 else p);
          len = indent_len (tx s1) bol
      in if autoindent s1 \<and> len \<noteq> 0 \<and> get_column (tabstop s1) (tx s1) (bol + len) = indentcol s1 \<and>
            ch s1 (bol + len) = NL
         then (bol, (snd (hole_delete bol (bol + len - 1) undo s1))\<lparr>indentcol := 0\<rparr>)
         else (p1, s1\<lparr>indentcol := 0\<rparr>))"

text \<open>ctrl-D: erase back to the previous tab stop. The pointer \<open>r\<close> moves left every round.\<close>

fun unindent :: "nat \<Rightarrow> ptr \<Rightarrow> int \<Rightarrow> ptr \<Rightarrow> ptr \<Rightarrow> vi \<Rightarrow> ptr \<times> ptr \<times> vi" where
  "unindent 0 bol prev p r s = (p, r, s)"
| "unindent (Suc n) bol prev p r s =
     (if r > bol \<and> get_column (tabstop s) (tx s) r > prev then
        (case hole_delete (r - 1) (r - 1) ALLOW_UNDO_QUEUED s of
           (r', s') \<Rightarrow> unindent n bol prev (if p > bol then p - 1 else p) r' s')
      else (p, r, s))"

definition insert_unindent :: "ptr \<Rightarrow> vi \<Rightarrow> ptr \<times> vi" where
  "insert_unindent p s =
     (let bol = begin_line (tx s) p;
          r0 = bol + indent_len (tx s) bol;
          prev = prev_tabstop (tabstop s) (get_column (tabstop s) (tx s) r0)
      in case unindent (nat (r0 - bol)) bol prev p r0 s of
           (p1, r, s1) \<Rightarrow>
             if autoindent s1 \<and> indentcol s1 \<noteq> 0 \<and> r = end_line (tx s1) p1
             then (p1, s1\<lparr>indentcol := get_column (tabstop s1) (tx s1) p1\<rparr>)
             else (p1, s1\<lparr>indentcol := 0\<rparr>))"

fun insert_spaces :: "nat \<Rightarrow> ptr \<Rightarrow> undo_mode \<Rightarrow> vi \<Rightarrow> ptr \<times> vi" where
  "insert_spaces 0 p undo s = (p, s)"
| "insert_spaces (Suc n) p undo s =
     insert_spaces n (p + 1) undo (insert_byte p (CHR '' '') (push_insert p 1 undo s))"

definition insert_tab_expanded :: "ptr \<Rightarrow> undo_mode \<Rightarrow> vi \<Rightarrow> ptr \<times> vi" where
  "insert_tab_expanded p undo s =
     (let col = get_column (tabstop s) (tx s) p
      in case insert_spaces (nat (next_tabstop (tabstop s) col - col + 1)) p undo s of
           (p1, s1) \<Rightarrow> (p1, s1\<lparr>indentcol := 0\<rparr>))"

definition insert_backspace :: "ptr \<Rightarrow> vi \<Rightarrow> ptr \<times> vi" where
  "insert_backspace p s =
     (case (if p > 0 then hole_delete (p - 1) (p - 1) ALLOW_UNDO_QUEUED s else (p, s)) of
        (p1, s1) \<Rightarrow> (p1, s1\<lparr>indentcol := 0\<rparr>))"

text \<open>The automatic indentation after a newline; \<open>p\<close> is the byte after it.\<close>

definition indent_after_newline :: "ptr \<Rightarrow> undo_mode \<Rightarrow> vi \<Rightarrow> ptr \<times> vi" where
  "indent_after_newline p undo s =
     (let t = tx s; ts = tabstop s;
          bol = (if indentcol s < 0 then p else prev_line t p);
          len = indent_len t bol;
          col = get_column ts t (bol + len)
      in if len \<noteq> 0 \<and> col = indentcol s then
           (p, on_tb (\<lambda>t. set_byte (t\<lparr>mem := memmove (mem t) (bol + 1) bol len\<rparr>) bol NL) s)
         else
           (let p1 = (if indentcol s < 0 then p - 1 else p)
            in if len \<noteq> 0 then
                 (let (ntab, nspc) = (if expandtab s then (0, col) else (col div ts, col mod ts));
                      s1 = push_insert p1 (ntab + nspc) undo
                             (on_tb (\<lambda>t. text_hole_make t p1 (ntab + nspc)) (s\<lparr>indentcol := col\<rparr>));
                      s2 = on_tb (\<lambda>t. t\<lparr>mem := memset (memset (mem t) p1 TAB ntab) (p1 + ntab) (CHR '' '') nspc\<rparr>) s1
                  in (p1 + ntab + nspc, s2))
               else (p1, s\<lparr>indentcol := 0\<rparr>)))"

definition insert_plain :: "ptr \<Rightarrow> char \<Rightarrow> undo_mode \<Rightarrow> vi \<Rightarrow> (ptr \<times> vi) option" where
  "insert_plain p c0 undo s =
     (let c = (if c0 = CHR 0x0D then NL else c0);
          s1 = insert_byte p c (if c = NL then commit s else s)
      in do {
           s2 \<leftarrow> (if showmatch s1 \<and> in_strchr '')]}'' (cval c) then showmatching p s1 else Some s1);
           Some (if autoindent s2 \<and> c = NL then indent_after_newline (p + 1) undo s2
                 else (p + 1, s2\<lparr>indentcol := 0\<rparr>))
         })"

definition char_insert :: "ptr \<Rightarrow> char \<Rightarrow> undo_mode \<Rightarrow> vi \<Rightarrow> (ptr \<times> vi) option" where
  "char_insert p c undo s =
     (if c = CHR 0x16 then insert_literal p undo s
      else if c = ESC then Some (insert_escape p undo s)
      else if c = CHR 0x04 then Some (insert_unindent p s)
      else if c = TAB \<and> expandtab s then Some (insert_tab_expanded p undo s)
      else if c = CHR 0x08 \<or> c = CHR 0x7F then Some (insert_backspace p s)
      else insert_plain p c undo s)"

subsection \<open>Undo\<close>

text \<open>
  A chain is popped object by object; each call takes one off the stack, so the stack's length
  (and two, for the queue that may be committed first) bounds the calls.
\<close>

definition undo_message :: "ustate \<Rightarrow> undo_object \<Rightarrow> string \<Rightarrow> string" where
  "undo_message u ob what =
     ''Undo ['' @ dec (modified_count u) @ ''] '' @ what @ '' '' @ dec (u_length ob) @
     '' chars at position '' @ dec (u_start ob)"

definition undo_one :: "undo_object \<Rightarrow> vi \<Rightarrow> vi" where
  "undo_one ob s =
     (let s1 = on_ed (undo_apply ob) s
      in if u_type ob = UNDO_DEL \<or> u_type ob = UNDO_DEL_CHAIN then
           status_line (undo_message (ed s1) ob ''restored'') s1
         else if u_type ob = UNDO_INS \<or> u_type ob = UNDO_INS_CHAIN then
           status_line (undo_message (ed s1) ob ''deleted'') s1
         else s1)"

fun undo_pops :: "nat \<Rightarrow> vi \<Rightarrow> vi" where
  "undo_pops 0 s = s"
| "undo_pops (Suc n) s0 =
     (let s = commit s0
      in case undo_stack (ed s) of
           [] \<Rightarrow> status_line ''Already at oldest change'' s
         | ob # obs \<Rightarrow>
             (let s1 = undo_one ob s;
                  s2 = (if u_type ob = UNDO_DEL \<or> u_type ob = UNDO_INS
                        then refresh False (s1\<lparr>dot := u_start ob\<rparr>) else s1);
                  s3 = on_ed (\<lambda>u. u\<lparr>undo_stack := obs, modified_count := modified_count u - 1\<rparr>) s2
              in if u_type ob = UNDO_DEL_CHAIN \<or> u_type ob = UNDO_INS_CHAIN then undo_pops n s3 else s3))"

definition undo_pop :: "vi \<Rightarrow> vi" where
  "undo_pop s = undo_pops (length (undo_stack (ed s)) + 2) s"

subsection \<open>Files\<close>

definition file_insert :: "string option \<Rightarrow> ptr \<Rightarrow> bool \<Rightarrow> vi \<Rightarrow> int \<times> vi" where
  "file_insert fn0 p0 initial s =
     (case fn0 of None \<Rightarrow> (- 1, s)
      | Some fn \<Rightarrow>
          (let p1 = (if p0 < 0 then 0 else p0);
               p = (if p1 > vend s then vend s else p1);
               complain = (if initial then s else status_line_bold_errno fn s)
           in case st_size (fsys s) fn of
                None \<Rightarrow> (- 1, complain)
              | Some sz \<Rightarrow>
                  (let size = (if sz < 0x7fffffff then sz else 0x7fffffff);
                       s1 = on_tb (\<lambda>t. text_hole_make t p size) s
                   in if \<not> can_read (fsys s) fn then
                        (- 1, if initial then s1 else status_line_bold_errno fn s1)
                      else
                        (case read_bytes (fsys s) fn of
                           None \<Rightarrow> (- 1, snd (hole_delete p (p + size - 1) NO_UNDO (status_line_bold_errno fn s1)))
                         | Some bs0 \<Rightarrow>
                             (let bs = take (nat size) bs0; cnt = int (length bs);
                                  s2 = on_tb (\<lambda>t. t\<lparr>mem := memcpy_str (mem t) p bs\<rparr>) s1
                              in if cnt < size then
                                   (cnt, status_line_bold (''can't read '' @ CHR 0x27 # cstr fn @ [CHR 0x27])
                                           (snd (hole_delete (p + cnt) (p + size - 1) NO_UNDO s2)))
                                 else (cnt, push_insert p size ALLOW_UNDO s2))))))"

definition init_filename :: "string \<Rightarrow> vi \<Rightarrow> vi" where
  "init_filename fn s = (if current_filename s = None then s\<lparr>current_filename := Some fn\<rparr> else s)"

definition update_filename :: "string option \<Rightarrow> vi \<Rightarrow> vi" where
  "update_filename fn s =
     (case fn of None \<Rightarrow> s
      | Some f \<Rightarrow> (on_dsp (\<lambda>d. d\<lparr>cur_syntax := syntax_set_file (Some f)\<rparr>) s)\<lparr>current_filename := Some f\<rparr>)"

definition init_text_buffer :: "string option \<Rightarrow> vi \<Rightarrow> (int \<times> vi) option" where
  "init_text_buffer fn s =
     (let s1 = on_dsp (\<lambda>d. d\<lparr>screenbegin := 0\<rparr>)
                 ((on_tb (\<lambda>_. \<lparr>mem = \<lambda>_. NUL, tend = 0, tsize = 10240\<rparr>) s)\<lparr>dot := 0\<rparr>);
          (rc, s2) = file_insert fn 0 True (update_filename fn s1)
      in do {
           s3 \<leftarrow> (if rc < 0 then map_option snd (char_insert 0 NL NO_UNDO s2) else Some s2);
           Some (rc, on_dsp (\<lambda>d. d\<lparr>last_modified_count := - 1\<rparr>)
                  ((on_ed (\<lambda>u. (flush_undo_data u)\<lparr>modified_count := 0\<rparr>) s3)\<lparr>marks := (\<lambda>_. None)\<rparr>))
         })"

definition file_write :: "string option \<Rightarrow> ptr \<Rightarrow> ptr \<Rightarrow> vi \<Rightarrow> int \<times> vi" where
  "file_write fn0 a z s =
     (case fn0 of None \<Rightarrow> (- 2, status_line_bold ''No current filename'' s)
      | Some fn \<Rightarrow>
          if \<not> can_write (fsys s) fn then (- 1, s)
          else
            (let cnt = z - a + 1; n = write_count (fsys s) fn cnt
             in (if n = cnt then n else 0,
                 s\<lparr>fsys := (fsys s)\<lparr>written := written (fsys s) @ [(fn, span (mem (tx s)) a (nat n))]\<rparr>\<rparr>)))"


subsection \<open>The end of the text stays at or after its start\<close>

text \<open>
  \<open>text <= end\<close> holds after every editing operation. The pure ones are rewrite rules of
  \<open>end_nonneg\<close>; for those that may not return, \<open>keeps_end\<close> is the statement.
\<close>

definition keeps_end :: "(vi \<Rightarrow> vi option) \<Rightarrow> bool" where
  "keeps_end f \<longleftrightarrow> (\<forall>s s'. 0 \<le> vend s \<longrightarrow> f s = Some s' \<longrightarrow> 0 \<le> vend s')"

lemma keeps_endI: "(\<And>s s'. 0 \<le> vend s \<Longrightarrow> f s = Some s' \<Longrightarrow> 0 \<le> vend s') \<Longrightarrow> keeps_end f"
  by (simp add: keeps_end_def)

lemma keeps_endD: "keeps_end f \<Longrightarrow> f s = Some s' \<Longrightarrow> 0 \<le> vend s \<Longrightarrow> 0 \<le> vend s'"
  by (simp add: keeps_end_def)

lemma screen_only_end: "screen_only s s' \<Longrightarrow> vend s' = vend s"
  using screen_onlyD(1) by simp

lemma vend_refresh [frame_simps]: "vend (refresh full s) = vend s"
  using screen_only_end [of s "refresh full s"] by simp

lemma ed_refresh [frame_simps]: "ed (refresh full s) = ed s"
  and dot_refresh [frame_simps]: "dot (refresh full s) = dot s"
  using screen_onlyD(1,2) [of s "refresh full s"] by simp_all

lemma keeps_end_shown:
  "indicate_error s = Some s' \<Longrightarrow> vend s' = vend s"
  "show_status_line s = Some s' \<Longrightarrow> vend s' = vend s"
  "redraw full s = Some s' \<Longrightarrow> vend s' = vend s"
  "Hit_Return s = Some s' \<Longrightarrow> vend s' = vend s"
  "getc s = Some (c, s') \<Longrightarrow> vend s' = vend s"
  "get_motion_char s = Some (c, s') \<Longrightarrow> vend s' = vend s"
  "bound_dot p s = Some (q, s') \<Longrightarrow> vend s' = vend s"
  "get_input_line w s = Some (v, s') \<Longrightarrow> vend s' = vend s"
  by (auto dest: shown [where a = s] screen_only_end getc_frame get_motion_char_frame
      bound_dot_screen [where a = s] input_line_screen)

lemma vend_hole_delete [end_nonneg]: "0 \<le> vend s \<Longrightarrow> 0 \<le> vend (snd (hole_delete p q m s))"
  using tend_text_hole_delete [of "ed s" p q m] by (simp add: hole_delete_def case_prod_beta)

lemma vend_insert_byte [simp]: "vend (insert_byte p c s) = vend s + 1"
  by (simp add: insert_byte_def on_tb_def)

lemma vend_push_insert [simp]: "vend (push_insert p n m s) = vend s"
  by (simp add: push_insert_def on_ed_def frame_simps)

lemma vend_on_tb_set [simp]: "vend (on_tb (\<lambda>t. set_byte t p c) s) = vend s"
  by (simp add: on_tb_def set_byte_def)

lemma vend_on_tb_mem [simp]: "vend (on_tb (\<lambda>t. t\<lparr>mem := f t\<rparr>) s) = vend s"
  by (simp add: on_tb_def)

lemma vend_on_tb_hole [simp]: "vend (on_tb (\<lambda>t. text_hole_make t p n) s) = vend s + max 0 n"
  by (simp add: on_tb_def)

lemma vend_string_insert [simp]: "vend (on_ed (\<lambda>u. string_insert u p w m) s) = vend s + int (length w)"
  by (simp add: on_ed_def tend_string_insert)

lemma vend_insert_literal: "insert_literal p m s = Some (q, s') \<Longrightarrow> 0 \<le> vend s \<Longrightarrow> 0 \<le> vend s'"
  by (auto simp: insert_literal_def bind_eq_Some_conv keeps_end_shown frame_simps)

lemma vend_insert_escape [end_nonneg]: "0 \<le> vend s \<Longrightarrow> 0 \<le> vend (snd (insert_escape p m s))"
  by (auto simp: insert_escape_def Let_def frame_simps vend_hole_delete)

lemma vend_unindent: "0 \<le> vend s \<Longrightarrow> 0 \<le> vend (snd (snd (unindent n bol prev p r s)))"
proof (induction n arbitrary: p r s)
  case (Suc n)
  obtain d s1 where d: "hole_delete (r - 1) (r - 1) ALLOW_UNDO_QUEUED s = (d, s1)"
    by (cases "hole_delete (r - 1) (r - 1) ALLOW_UNDO_QUEUED s") auto
  have "0 \<le> vend s1" using vend_hole_delete [OF Suc.prems, of "r - 1" "r - 1" ALLOW_UNDO_QUEUED] d by simp
  then show ?case using Suc.IH [of s1] Suc.prems d by simp
qed simp

lemma vend_insert_unindent [end_nonneg]: "0 \<le> vend s \<Longrightarrow> 0 \<le> vend (snd (insert_unindent p s))"
proof -
  assume a: "0 \<le> vend s"
  have "0 \<le> vend (snd (snd (unindent n b pr p r s)))" for n b pr r
    by (rule vend_unindent [OF a])
  then show ?thesis
    by (auto simp: insert_unindent_def Let_def split: prod.split) (metis snd_conv)+
qed

lemma vend_insert_spaces: "vend (snd (insert_spaces n p m s)) = vend s + int n"
  by (induction n arbitrary: p s) simp_all

lemma vend_insert_tab [end_nonneg]: "0 \<le> vend s \<Longrightarrow> 0 \<le> vend (snd (insert_tab_expanded p m s))"
  by (auto simp: insert_tab_expanded_def Let_def split: prod.split)
    (metis add_nonneg_nonneg of_nat_0_le_iff snd_conv vend_insert_spaces)

lemma vend_insert_backspace [end_nonneg]: "0 \<le> vend s \<Longrightarrow> 0 \<le> vend (snd (insert_backspace p s))"
  using vend_hole_delete [of s "p - 1" "p - 1" ALLOW_UNDO_QUEUED]
  by (auto simp: insert_backspace_def split: prod.split)

lemma vend_indent_after [end_nonneg]: "vend s \<le> vend (snd (indent_after_newline p m s))"
  by (auto simp: indent_after_newline_def Let_def on_tb_def set_byte_def push_insert_def on_ed_def frame_simps
      split: prod.split)

lemma vend_insert_plain: "insert_plain p c m s = Some (q, s') \<Longrightarrow> vend s < vend s'"
proof -
  assume a: "insert_plain p c m s = Some (q, s')"
  define c1 where "c1 = (if c = CHR 0x0D then NL else c)"
  define s1 where "s1 = insert_byte p c1 (if c1 = NL then commit s else s)"
  have v1: "vend s1 = vend s + 1" by (simp add: s1_def frame_simps)
  from a have "Option.bind (if showmatch s1 \<and> in_strchr '')]}'' (cval c1) then showmatching p s1 else Some s1)
      (\<lambda>s2. Some (if autoindent s2 \<and> c1 = NL then indent_after_newline (p + 1) m s2
                   else (p + 1, s2\<lparr>indentcol := 0\<rparr>))) = Some (q, s')"
    by (simp only: insert_plain_def Let_def c1_def s1_def)
  then obtain s2 where s2: "(if showmatch s1 \<and> in_strchr '')]}'' (cval c1) then showmatching p s1 else Some s1) = Some s2"
    "(q, s') = (if autoindent s2 \<and> c1 = NL then indent_after_newline (p + 1) m s2 else (p + 1, s2\<lparr>indentcol := 0\<rparr>))"
    by (auto simp: bind_eq_Some_conv)
  have "vend s2 = vend s1"
    using s2(1) by (auto simp: showmatching_def Let_def keeps_end_shown frame_simps split: if_splits option.splits)
  moreover have "vend s2 \<le> vend s'"
    using s2(2) vend_indent_after [of s2 "p + 1" m] by (cases "indent_after_newline (p + 1) m s2") (auto split: if_splits)
  ultimately show ?thesis using v1 by simp
qed

lemma vend_char_insert: "char_insert p c m s = Some (q, s') \<Longrightarrow> 0 \<le> vend s \<Longrightarrow> 0 \<le> vend s'"
  using vend_insert_escape [of s p m] vend_insert_unindent [of s p] vend_insert_tab [of s p m]
    vend_insert_backspace [of s p] vend_insert_plain [of p c m s q s'] vend_insert_literal [of p m s q s']
  by (auto simp: char_insert_def split: if_splits)

lemma vend_char_insert_plain:
  "char_insert p NL m s = Some (q, s') \<Longrightarrow> vend s < vend s'"
  using vend_insert_plain [of p NL m s q s'] by (simp add: char_insert_def)

lemma vend_undo_pops [end_nonneg]: "0 \<le> vend s \<Longrightarrow> 0 \<le> vend (undo_pops n s)"
proof (induction n arbitrary: s)
  case (Suc n)
  show ?case
  proof (cases "undo_stack (ed (commit s))")
    case Nil
    then show ?thesis using Suc.prems by (simp add: frame_simps)
  next
    case (Cons ob obs)
    define s3 where "s3 = on_ed (\<lambda>u. u\<lparr>undo_stack := obs, modified_count := modified_count u - 1\<rparr>)
        (if u_type ob = UNDO_DEL \<or> u_type ob = UNDO_INS
         then refresh False ((undo_one ob (commit s))\<lparr>dot := u_start ob\<rparr>) else undo_one ob (commit s))"
    have "0 \<le> vend (undo_one ob (commit s))"
      using Suc.prems tend_undo_apply [of "ed (commit s)" ob]
      by (simp add: undo_one_def Let_def frame_simps on_ed_def)
    then have "0 \<le> vend s3"
      by (simp add: s3_def on_ed_def frame_simps)
    then have "0 \<le> vend (undo_pops n s3)" by (rule Suc.IH)
    then show ?thesis
      using \<open>0 \<le> vend s3\<close> Cons by (simp add: Let_def s3_def)
  qed
qed simp

lemma vend_undo_pop [end_nonneg]: "0 \<le> vend s \<Longrightarrow> 0 \<le> vend (undo_pop s)"
  unfolding undo_pop_def by (rule vend_undo_pops)

lemma vend_file_insert [end_nonneg]: "0 \<le> vend s \<Longrightarrow> 0 \<le> vend (snd (file_insert fn p i s))"
  by (auto simp: file_insert_def Let_def frame_simps intro!: vend_hole_delete split: option.split)

lemma vend_init_text_buffer: "init_text_buffer fn s = Some (rc, s') \<Longrightarrow> 0 \<le> vend s'"
proof -
  define s0 where "s0 = update_filename fn (on_dsp (\<lambda>d. d\<lparr>screenbegin := 0\<rparr>)
                 ((on_tb (\<lambda>_. \<lparr>mem = \<lambda>_. NUL, tend = 0, tsize = 10240\<rparr>) s)\<lparr>dot := 0\<rparr>))"
  have "0 \<le> vend s0"
    by (simp add: s0_def update_filename_def on_dsp_def on_tb_def split: option.split)
  then have "0 \<le> vend (snd (file_insert fn 0 True s0))" by (rule vend_file_insert)
  then show "init_text_buffer fn s = Some (rc, s') \<Longrightarrow> 0 \<le> vend s'"
    by (auto simp: init_text_buffer_def Let_def s0_def [symmetric] bind_eq_Some_conv on_ed_def
        flush_undo_data_def frame_simps split: prod.splits if_splits dest: vend_char_insert)
qed

lemma vend_file_write [simp]: "ed (snd (file_write fn a z s)) = ed s"
  by (simp add: file_write_def Let_def frame_simps split: option.split)

lemma count_rounds_keeps:
  assumes "\<And>s b s'. f s = Some (b, s') \<Longrightarrow> 0 \<le> vend s \<Longrightarrow> 0 \<le> vend s'"
  shows "count_rounds n f s = Some (b, s') \<Longrightarrow> 0 \<le> vend s \<Longrightarrow> 0 \<le> vend s'"
proof (induction n arbitrary: s)
  case (Suc n)
  obtain go s1 where g: "f s = Some (go, s1)" using Suc.prems(1) by (auto split: option.splits)
  then have "0 \<le> vend s1" using assms Suc.prems(2) by blast
  then show ?case
    using Suc.IH [of "s1\<lparr>cmdcnt := cmdcnt s1 - 1\<rparr>"] Suc.prems(1) g by (auto simp: Let_def split: if_splits)
qed simp

lemma count_loop_keeps:
  assumes "\<And>s b s'. f s = Some (b, s') \<Longrightarrow> 0 \<le> vend s \<Longrightarrow> 0 \<le> vend s'"
  shows "count_loop f s = Some (b, s') \<Longrightarrow> 0 \<le> vend s \<Longrightarrow> 0 \<le> vend s'"
  unfolding count_loop_def by (rule count_rounds_keeps [where f = f]) (use assms in blast)

lemma count_pure_keeps:
  assumes "\<And>s. 0 \<le> vend s \<Longrightarrow> 0 \<le> vend (f s)"
  shows "count_pure f s = Some s' \<Longrightarrow> 0 \<le> vend s \<Longrightarrow> 0 \<le> vend s'"
  using count_loop_keeps [of "\<lambda>s. Some (True, f s)" s _ s'] assms
  by (auto simp: count_pure_def)

lemma vend_dot_to_char: "dot_to_char k s = Some s' \<Longrightarrow> 0 \<le> vend s \<Longrightarrow> 0 \<le> vend s'"
proof -
  have c: "ed (snd (chars_on_line n fwd q s)) = ed s" for n fwd q s
    by (induction n arbitrary: q s) (auto simp: Let_def split: option.split)
  have c': "chars_on_line n fwd q s = (r, s1) \<Longrightarrow> ed s1 = ed s" for n fwd q s r s1
    using c [of n fwd q s] by simp
  show "dot_to_char k s = Some s' \<Longrightarrow> 0 \<le> vend s \<Longrightarrow> 0 \<le> vend s'"
    by (auto simp: dot_to_char_def Let_def frame_simps keeps_end_shown split: if_splits prod.splits option.splits
        dest!: c')
qed

end
