(* ===== verification/Searching.thy ===== *)
theory Searching
  imports EditOps
begin

text \<open>
  What the searches of \<open>vim_text.c\<close> find. \<open>find_pair\<close> walks away from a bracket counting levels;
  on the list of the characters it meets, that is a scan for the first prefix that is balanced, and
  walking back from the partner leads to the bracket again. \<open>char_search\<close> returns the nearest
  match of its pattern in its direction and range.
\<close>

subsection \<open>The walk as a scan of a list\<close>

fun pair_scan :: "char \<Rightarrow> char \<Rightarrow> string \<Rightarrow> int \<Rightarrow> nat option" where
  "pair_scan c m [] l = None"
| "pair_scan c m (x # xs) l =
     (let l' = (if x = c then l + 1 else if x = m then l - 1 else l)
      in if l' = 0 then Some 0 else map_option Suc (pair_scan c m xs l'))"

definition balance :: "char \<Rightarrow> char \<Rightarrow> string \<Rightarrow> int" where
  "balance c m w = int (count_list w c) - int (count_list w m)"

text \<open>The characters met on the walk from \<open>p\<close> in direction \<open>d\<close>, up to the end of the text.\<close>

definition ahead :: "tbuf \<Rightarrow> int \<Rightarrow> ptr \<Rightarrow> string" where
  "ahead t d p =
     map (\<lambda>k. mem t (p + d * (1 + int k))) [0..<nat (if d > 0 then tend t - p - 1 else p)]"

lemma balance_simps [simp]:
  "balance c m [] = 0"
  "c \<noteq> m \<Longrightarrow> balance c m (x # w) = (if x = c then 1 else if x = m then - 1 else 0) + balance c m w"
  "balance c m (v @ w) = balance c m v + balance c m w"
  "balance c m (rev w) = balance c m w"
  by (simp_all add: balance_def)

lemma balance_swap: "balance m c w = - balance c m w"
  by (simp add: balance_def)

lemma pair_scan_Some:
  assumes "c \<noteq> m"
  shows "0 < l \<Longrightarrow> pair_scan c m xs l = Some i \<longleftrightarrow>
    i < length xs \<and> (\<forall>j \<le> i. 0 < l + balance c m (take j xs)) \<and> l + balance c m (take (Suc i) xs) = 0"
proof (induction xs arbitrary: l i)
  case (Cons x xs)
  define l' where "l' = l + balance c m [x]"
  have l': "l' = (if x = c then l + 1 else if x = m then l - 1 else l)" using assms by (simp add: l'_def)
  have bal: "l + balance c m (x # w) = l' + balance c m w" for w
    using assms by (simp add: l'_def)
  show ?case
  proof (cases "l' = 0")
    case True
    have "i = 0" if "\<forall>j \<le> i. 0 < l + balance c m (take j (x # xs))"
    proof (rule ccontr)
      assume "i \<noteq> 0"
      then have "0 < l + balance c m (take (Suc 0) (x # xs))" using that by (metis Suc_leI neq0_conv)
      then show False using True bal [of "[]"] by simp
    qed
    moreover have "l + balance c m (take (Suc 0) (x # xs)) = 0" using True bal [of "[]"] by simp
    ultimately show ?thesis using True l' Cons.prems by (auto simp: Let_def)
  next
    case False
    then have pos: "0 < l'" using Cons.prems by (simp add: l' split: if_splits)
    show ?thesis
    proof (cases i)
      case 0
      then show ?thesis using False l' bal [of "[]"] by (auto simp: Let_def)
    next
      case (Suc k)
      have "(\<forall>j \<le> i. 0 < l + balance c m (take j (x # xs))) \<longleftrightarrow> (\<forall>j \<le> k. 0 < l' + balance c m (take j xs))"
        (is "?L \<longleftrightarrow> ?R")
      proof
        assume ?L
        show ?R
        proof (intro allI impI)
          fix j assume "j \<le> k"
          then have "0 < l + balance c m (take (Suc j) (x # xs))" using \<open>?L\<close> Suc by blast
          then show "0 < l' + balance c m (take j xs)" using bal by simp
        qed
      next
        assume ?R
        show ?L
        proof (intro allI impI)
          fix j assume "j \<le> i"
          then show "0 < l + balance c m (take j (x # xs))"
            using \<open>?R\<close> Suc bal Cons.prems by (cases j) auto
        qed
      qed
      then show ?thesis
        using False l' Suc Cons.IH [OF pos, of k] bal by (auto simp: Let_def)
    qed
  qed
qed simp

lemma pair_scan_back:
  assumes "c \<noteq> m" and "pair_scan c m (B @ m # D) 1 = Some (length B)"
  shows "pair_scan m c (rev B @ c # A) 1 = Some (length B)"
proof -
  have s: "\<forall>j \<le> length B. 0 < 1 + balance c m (take j B)" "balance c m B = 0"
    using assms pair_scan_Some [OF assms(1), of 1 "B @ m # D" "length B"] by auto
  have "0 < 1 + balance m c (take j (rev B))" if "j \<le> length B" for j
  proof -
    have "balance c m B = balance c m (take (length B - j) B) + balance c m (drop (length B - j) B)"
      by (metis append_take_drop_id balance_simps(3))
    moreover have "take j (rev B) = rev (drop (length B - j) B)" using that by (simp add: rev_drop)
    moreover have "0 \<le> balance c m (take (length B - j) B)" using s(1) by (smt (verit) diff_le_self)
    ultimately show ?thesis using s(2) by (simp add: balance_swap [of m c])
  qed
  then show ?thesis
    using assms(1) s(2) pair_scan_Some [of m c 1 "rev B @ c # A" "length B"] by (auto simp: balance_swap [of m c])
qed

lemma ahead_step:
  assumes "0 \<le> p" and "p < tend t" and "d = 1 \<or> d = - 1"
  shows "ahead t d p = (if p + d < 0 \<or> tend t \<le> p + d then [] else mem t (p + d) # ahead t d (p + d))"
proof -
  define n where "n = nat (if d > 0 then tend t - p - 1 else p)"
  have n: "n = (if p + d < 0 \<or> tend t \<le> p + d then 0 else Suc (nat (if d > 0 then tend t - (p + d) - 1 else p + d)))"
    using assms by (auto simp: n_def)
  show ?thesis
    unfolding ahead_def n_def [symmetric] n
    by (auto simp: upt_conv_Cons map_Suc_upt [symmetric] algebra_simps simp del: upt_Suc)
qed

lemma find_pair_from_scan:
  assumes "c \<noteq> m" and "d = 1 \<or> d = - 1"
  shows "0 \<le> p \<Longrightarrow> p < tend t \<Longrightarrow> 0 < l \<Longrightarrow> find_pair_from t c m (d > 0) p l =
    map_option (\<lambda>i. p + d * (1 + int i)) (pair_scan c m (ahead t d p) l)"
proof (induction "ahead t d p" arbitrary: p l)
  case Nil
  have "p + d < 0 \<or> tend t \<le> p + d"
    using Nil(1) ahead_step [OF Nil(2,3) assms(2)] by (auto split: if_splits)
  then show ?case
    using assms(2) unfolding Nil(1) [symmetric] by (subst find_pair_from.simps) (auto simp: Let_def)
next
  case (Cons x xs)
  have r: "\<not> (p + d < 0 \<or> tend t \<le> p + d)" and x: "x = mem t (p + d)" "xs = ahead t d (p + d)"
    using Cons(2) ahead_step [OF Cons(3,4) assms(2)] by (auto split: if_splits)
  define l' where "l' = (if x = c then l + 1 else if x = m then l - 1 else l)"
  have step: "find_pair_from t c m (d > 0) p l =
      (if l' = 0 then Some (p + d) else find_pair_from t c m (d > 0) (p + d) l')"
  proof -
    have "(if d > 0 then p + 1 else p - 1) = p + d" using assms(2) by auto
    then show ?thesis
      unfolding find_pair_from.simps [of t c m "d > 0" p l] using r assms(1) Cons(5)
      by (simp add: x(1) l'_def Let_def)
  qed
  have scan: "pair_scan c m (ahead t d p) l = (if l' = 0 then Some 0 else map_option Suc (pair_scan c m xs l'))"
    unfolding Cons(2) [symmetric] by (simp add: l'_def)
  show ?case
  proof (cases "l' = 0")
    case False
    then have "0 < l'" using Cons(5) by (auto simp: l'_def)
    then have "find_pair_from t c m (d > 0) (p + d) l' =
        map_option (\<lambda>i. p + d + d * (1 + int i)) (pair_scan c m xs l')"
      using Cons(1) [of "p + d" l'] r x by simp
    then show ?thesis
      using False by (simp add: step scan option.map_comp o_def algebra_simps)
  qed (simp add: step scan)
qed

subsection \<open>Partners\<close>

lemma brace_cases:
  assumes "c \<in> set ''()[]{}''"
  obtains m d where "brace_match c = (m, d)" "brace_match m = (c, - d)" "c \<noteq> m" "d = 1 \<or> d = - 1"
  using assms by (auto simp: brace_match_def)

lemma find_pair_scan:
  assumes "brace_match c = (m, d)" and "c \<noteq> m" and "d = 1 \<or> d = - 1" and "0 \<le> p" and "p < tend t"
  shows "find_pair t p c = map_option (\<lambda>i. p + d * (1 + int i)) (pair_scan c m (ahead t d p) 1)"
  using assms find_pair_from_scan [of c m d p t 1] by (simp add: find_pair_def)

text \<open>From a place the walk reaches one sees, looking back, what was passed and the start.\<close>

lemma ahead_back:
  assumes "0 \<le> p" and "p < tend t" and "d = 1 \<or> d = - 1" and "i < length (ahead t d p)"
  shows "0 \<le> p + d * (1 + int i) \<and> p + d * (1 + int i) < tend t \<and>
    ahead t d p ! i = mem t (p + d * (1 + int i)) \<and>
    (\<exists>A. ahead t (- d) (p + d * (1 + int i)) = rev (take i (ahead t d p)) @ mem t p # A)"
proof -
  let ?q = "p + d * (1 + int i)"
  have q: "0 \<le> ?q" "?q < tend t" "ahead t d p ! i = mem t ?q" "i < length (ahead t (- d) ?q)"
    using assms by (auto simp: ahead_def)
  have "ahead t (- d) ?q ! k = (rev (take i (ahead t d p)) @ [mem t p]) ! k" if "k \<le> i" for k
    using that assms q(4) by (auto simp: ahead_def nth_append rev_nth algebra_simps)
  then have "take (Suc i) (ahead t (- d) ?q) = rev (take i (ahead t d p)) @ [mem t p]"
    using q(4) assms(4) by (intro nth_equalityI) auto
  then have "ahead t (- d) ?q = rev (take i (ahead t d p)) @ mem t p # drop (Suc i) (ahead t (- d) ?q)"
    by (metis append_Cons append_Nil append_assoc append_take_drop_id)
  then show ?thesis using q by blast
qed

text \<open>
  C35. Brackets are matched in pairs: when the editor finds the partner of the bracket at \<open>p\<close>, the
  partner is inside the text, is the opposite bracket, encloses a balanced text with it, and its own
  partner is the bracket at \<open>p\<close>.
\<close>

theorem find_pair_partner:
  assumes "0 \<le> p" and "p < tend t" and "mem t p \<in> set ''()[]{}''" and "find_pair t p (mem t p) = Some q"
  shows "0 \<le> q \<and> q < tend t \<and> mem t q = fst (brace_match (mem t p)) \<and>
    balance (mem t p) (mem t q) (span (mem t) (min p q + 1) (nat (\<bar>q - p\<bar> - 1))) = 0 \<and>
    find_pair t q (mem t q) = Some p"
proof -
  obtain m d where b: "brace_match (mem t p) = (m, d)" "brace_match m = (mem t p, - d)" "mem t p \<noteq> m"
    "d = 1 \<or> d = - 1" using brace_cases [OF assms(3)] by blast
  obtain i where i: "pair_scan (mem t p) m (ahead t d p) 1 = Some i" and q: "q = p + d * (1 + int i)"
    using assms(4) find_pair_scan [OF b(1,3,4) assms(1,2)] by auto
  define B where "B = take i (ahead t d p)"
  define D where "D = drop (Suc i) (ahead t d p)"
  have si: "i < length (ahead t d p)" "\<forall>j \<le> i. 0 < 1 + balance (mem t p) m (take j (ahead t d p))"
    "1 + balance (mem t p) m (take (Suc i) (ahead t d p)) = 0"
    using i pair_scan_Some [OF b(3), of 1] by auto
  have bk: "0 \<le> q \<and> q < tend t \<and> ahead t d p ! i = mem t q \<and> (\<exists>A. ahead t (- d) q = rev B @ mem t p # A)"
    using ahead_back [OF assms(1,2) b(4) si(1)] by (simp only: q B_def)
  have "0 < 1 + balance (mem t p) m B" using si(2) by (simp add: B_def)
  moreover have "1 + (balance (mem t p) m B + balance (mem t p) m [mem t q]) = 0"
    using si(3) bk by (simp add: take_Suc_conv_app_nth [OF si(1)] B_def)
  ultimately have mq: "mem t q = m" "balance (mem t p) m B = 0" using b(3) by (auto split: if_splits)
  have "ahead t d p ! i = m" using bk mq(1) by simp
  then have B: "length B = i" "ahead t d p = B @ m # D"
    using si(1) id_take_nth_drop [OF si(1)] unfolding B_def D_def by simp_all
  obtain A where A: "ahead t (- d) q = rev B @ mem t p # A" using bk by blast
  have "pair_scan m (mem t p) (ahead t (- d) q) 1 = Some i"
    using pair_scan_back [OF b(3), of B D A] i by (simp add: A B)
  then have fq: "find_pair t q m = Some p"
    using find_pair_scan [OF b(2)] b(3,4) bk by (auto simp: q algebra_simps)
  have "span (mem t) (min p q + 1) (nat (\<bar>q - p\<bar> - 1)) = (if d > 0 then B else rev B)"
    using b(4) si(1) by (intro nth_equalityI) (auto simp: q B_def ahead_def rev_nth algebra_simps)
  then show ?thesis using bk mq fq b(1) by simp
qed

theorem find_pair_partner_witness:
  "\<exists>q. find_pair (text_of ''f(a[b])'') 1 CHR ''('' = Some q \<and> mem (text_of ''f(a[b])'') q = CHR '')'' \<and>
     find_pair (text_of ''f(a[b])'') q CHR '')'' = Some 1"
proof -
  have "find_pair (text_of ''f(a[b])'') 1 CHR ''('' = Some 6" by code_simp
  moreover have "1 < tend (text_of ''f(a[b])'')" "mem (text_of ''f(a[b])'') 1 = CHR ''(''"
    by (simp_all add: text_of_def)
  ultimately show ?thesis
    using find_pair_partner [of 1 "text_of ''f(a[b])''" 6] by (auto simp: brace_match_def)
qed

subsection \<open>Patterns\<close>

definition pat_match :: "bool \<Rightarrow> tbuf \<Rightarrow> string \<Rightarrow> ptr \<Rightarrow> bool" where
  "pat_match ic t pat q \<longleftrightarrow>
     (let f = (if ic then tolower else (\<lambda>c. c)) in map f (span (mem t) q (length pat)) = map f pat)"

lemma span_Cons: "span m p (Suc n) = m p # span m (p + 1) n"
  using span_append [of m p 1 n] by (simp add: span_def)

lemma mycmp_match: "mycmp ic (mem t) q pat = pat_match ic t pat q"
  by (induction pat arbitrary: q) (simp_all add: pat_match_def span_Cons Let_def, simp add: span_def)

lemma search_up_find: "search_up ic m pat p n = List.find (\<lambda>q. mycmp ic m q pat) [p..p + int n - 1]"
  by (induction n arbitrary: p) (simp_all add: upto_rec1 algebra_simps)

lemma search_down_find: "search_down ic m pat p n = List.find (\<lambda>q. mycmp ic m q pat) (rev [p - int n + 1..p])"
  by (induction n arbitrary: p) (simp_all add: upto_rec2 algebra_simps)

text \<open>The places a search looks at, nearest first: forwards it never looks at the last character.\<close>

definition search_places :: "tbuf \<Rightarrow> ptr \<Rightarrow> int \<Rightarrow> bool \<Rightarrow> bool \<Rightarrow> ptr list" where
  "search_places t p len fwd full =
     (if fwd then [p..(if full then tend t - 1 else next_line t p) - 1]
      else rev [(if full then 0 else prev_line t p)..p - len])"

text \<open>
  C36. A search finds the nearest match: \<open>char_search\<close> returns the first place, in the order of its
  direction and within its range, where the text agrees with the pattern (up to case if asked).
\<close>

theorem char_search_nearest:
  "char_search ic t p pat fwd full =
     List.find (pat_match ic t pat) (search_places t p (int (length pat)) fwd full)"
  by (auto simp: char_search_def search_places_def search_up_find search_down_find mycmp_match Let_def)

end
