(* ===== verification/UndoCommand.thy ===== *)
theory UndoCommand
  imports EditOps
begin

text \<open>
  The undo command (\<open>undo_pop\<close> of \<open>vim_text.c\<close>): one call takes a whole chain off the stack, however
  many recursive calls that needs, and the text afterwards is what applying its objects gives.
\<close>

definition chained :: "undo_object \<Rightarrow> bool" where
  "chained ob \<longleftrightarrow> u_type ob = UNDO_DEL_CHAIN \<or> u_type ob = UNDO_INS_CHAIN"

text \<open>The objects one undo takes: the chained ones on top and the object that ends the chain.\<close>

definition undo_group :: "undo_object list \<Rightarrow> nat" where
  "undo_group obs = min (length obs) (Suc (length (takeWhile chained obs)))"

definition quiet :: "ustate \<Rightarrow> ustate \<Rightarrow> bool" where
  "quiet u v \<longleftrightarrow> undo_stack v = undo_stack u \<and> undo_q v = undo_q u"

lemma quiet_hole_delete: "quiet u (snd (text_hole_delete u p q NO_UNDO))"
  by (auto simp: quiet_def text_hole_delete_def undo_push_delete_def Let_def split: prod.splits)

lemma quiet_undo_apply: "quiet u (undo_apply ob u)"
  using quiet_hole_delete by (auto simp: undo_apply_def quiet_def Let_def)

lemma tb_hole_delete: "tb u = tb v \<Longrightarrow> tb (snd (text_hole_delete u p q NO_UNDO)) = tb (snd (text_hole_delete v p q NO_UNDO))"
  by (auto simp: text_hole_delete_def undo_push_delete_def Let_def split: prod.splits)

lemma tb_undo_apply: "tb u = tb v \<Longrightarrow> tb (undo_apply ob u) = tb (undo_apply ob v)"
proof -
  assume t: "tb u = tb v"
  show ?thesis
    unfolding undo_apply_def Let_def t by (auto intro: tb_hole_delete [OF t] simp: t)
qed

lemma tb_fold_undo_apply: "tb u = tb v \<Longrightarrow> tb (fold undo_apply obs u) = tb (fold undo_apply obs v)"
proof (induction obs arbitrary: u v)
  case (Cons ob obs)
  show ?case using Cons.IH [OF tb_undo_apply [OF Cons.prems]] by simp
qed simp

lemma commit_idle: "undo_q u \<le> 0 \<Longrightarrow> undo_queue_commit u = u"
  by (simp add: undo_queue_commit_def)

lemma commit_queue: "undo_q (undo_queue_commit u) \<le> 0"
  by (simp add: undo_queue_commit_def)

lemma ed_undo_one: "ed (undo_one ob s) = undo_apply ob (ed s)"
  by (simp add: undo_one_def frame_simps Let_def on_ed_def)

lemma undo_pops_group:
  "undo_q (ed s) \<le> 0 \<Longrightarrow> length (undo_stack (ed s)) < n \<Longrightarrow>
   undo_stack (ed (undo_pops n s)) = drop (undo_group (undo_stack (ed s))) (undo_stack (ed s)) \<and>
   tx (undo_pops n s) = tb (fold undo_apply (take (undo_group (undo_stack (ed s))) (undo_stack (ed s))) (ed s))"
proof (induction n arbitrary: s)
  case (Suc n)
  have c: "commit s = s" using Suc.prems by (simp add: commit_def on_ed_def commit_idle)
  show ?case
  proof (cases "undo_stack (ed s)")
    case Nil
    then show ?thesis by (simp add: c undo_group_def frame_simps)
  next
    case (Cons ob obs)
    define s2 where "s2 = (if u_type ob = UNDO_DEL \<or> u_type ob = UNDO_INS
        then refresh False ((undo_one ob s)\<lparr>dot := u_start ob\<rparr>) else undo_one ob s)"
    define s3 where "s3 = on_ed (\<lambda>u. u\<lparr>undo_stack := obs, modified_count := modified_count u - 1\<rparr>) s2"
    have e2: "ed s2 = undo_apply ob (ed s)" by (simp add: s2_def ed_undo_one frame_simps)
    have e3: "undo_stack (ed s3) = obs" "undo_q (ed s3) = undo_q (ed s)" "tb (ed s3) = tb (undo_apply ob (ed s))"
      using quiet_undo_apply [of "ed s" ob] by (simp_all add: s3_def on_ed_def e2 quiet_def)
    have step: "undo_pops (Suc n) s = (if chained ob then undo_pops n s3 else s3)"
      by (simp add: c Cons s3_def s2_def chained_def Let_def)
    have g: "undo_group (ob # obs) = Suc (if chained ob then undo_group obs else 0)"
      by (simp add: undo_group_def)
    show ?thesis
    proof (cases "chained ob")
      case True
      then have "undo_stack (ed (undo_pops n s3)) = drop (undo_group obs) obs \<and>
          tx (undo_pops n s3) = tb (fold undo_apply (take (undo_group obs) obs) (ed s3))"
        using Suc.IH [of s3] Suc.prems e3 Cons by simp
      then show ?thesis
        using True by (simp add: step g Cons tb_fold_undo_apply [OF e3(3)] del: undo_pops.simps)
    next
      case False
      then show ?thesis using e3 by (simp add: step g Cons del: undo_pops.simps)
    qed
  qed
qed simp

text \<open>
  C33. \<open>u\<close> undoes one change as a whole: after the queue is committed, it takes the chained objects on
  top and the one that ends the chain off the stack, and the text is what applying exactly these,
  newest first, makes of it.
\<close>

theorem undo_pop_group:
  "let u = undo_queue_commit (ed s); n = undo_group (undo_stack u) in
     undo_stack (ed (undo_pop s)) = drop n (undo_stack u) \<and>
     content (tx (undo_pop s)) = content (tb (fold undo_apply (take n (undo_stack u)) u))"
proof -
  define s1 where "s1 = commit s"
  have e: "ed s1 = undo_queue_commit (ed s)" by (simp add: s1_def commit_def on_ed_def)
  have "commit s1 = s1" by (simp add: commit_def on_ed_def s1_def commit_idle commit_queue)
  then have "undo_pops (Suc n) s = undo_pops (Suc n) s1" for n by (simp add: s1_def)
  moreover have "length (undo_stack (ed s1)) < length (undo_stack (ed s)) + 2"
    by (simp add: e undo_queue_commit_def undo_alloc_def Let_def)
  ultimately show ?thesis
    using undo_pops_group [of s1 "length (undo_stack (ed s)) + 2"] commit_queue [of "ed s"]
    by (simp add: undo_pop_def e Let_def del: undo_pops.simps)
qed

end
