(* ===== verification/CutPaste.thy ===== *)
theory CutPaste
  imports UndoCommand
begin

text \<open>
  Deleting, undoing and putting back: how \<open>yank_delete\<close>, the registers, the journal and \<open>undo_pop\<close>
  fit together.
\<close>

text \<open>
  C7. Nothing deleted is lost. A logged deletion takes characters \<open>p\<close> to \<open>q\<close> of the text with no undo
  queued; it leaves at least one character (\<open>undo_push\<close> drops the last one of a
  deletion that empties the text), what it takes holds no NUL (at which the register would end), and it is not one within a
  line that starts on a newline (which \<open>yank_delete\<close> does not make). Then \<open>u\<close> gives the whole text
  back, and so does putting the register the deletion filled at the place it was taken from.
\<close>

theorem deleted_comes_back:
  assumes "0 \<le> p" and "p \<le> q" and "q < vend s" and "q - p + 1 < vend s" and "undo_q (ed s) = 0"
    and "NUL \<notin> set (span (mem (tx s)) p (nat (q - p + 1)))" and "\<not> (ty = PARTIAL \<and> ch s p = NL)"
    and "yank_delete p q ty True ALLOW_UNDO s = (r, s')"
  shows "content (tx (undo_pop s')) = content (tx s) \<and>
    (\<exists>a w. regs s' (YDreg s) = Some (a, w) \<and> content (tb (string_insert (ed s') p w m)) = content (tx s))"
proof -
  define w where "w = span (mem (tx s)) p (nat (q - p + 1))"
  let ?u = "snd (text_hole_delete (ed s) p q ALLOW_UNDO)"
  have s': "s' = (text_yank p q (YDreg s) ty s)\<lparr>ed := ?u\<rparr>"
    using assms(2,7,8) by (auto simp: yank_delete_def Let_def min_def max_def text_yank_def split: prod.splits)
  have c: "content (tb ?u) = take (nat p) (content (tx s)) @ drop (Suc (nat q)) (content (tx s))"
    by (rule text_hole_delete_content) (use assms in auto)
  let ?ob = "deleted_object (tx s) p (q - p + 1) UNDO_DEL"
  have stack: "undo_stack ?u = ?ob # undo_stack (ed s)"
    using text_hole_delete_log(1) [of p q "ed s" ALLOW_UNDO] assms by simp
  have rev: "revert ?ob (content (tb ?u)) = Some (content (tx s))"
    unfolding c by (rule revert_deleted) (use assms in auto)
  have "undo_q ?u = 0"
    using assms(5) by (simp add: text_hole_delete_def Let_def undo_push_delete_plain undo_alloc_def)
  then have "undo_queue_commit (ed s') = ?u" by (simp add: s' commit_idle)
  moreover have "undo_group (undo_stack ?u) = 1" by (simp add: stack undo_group_def chained_def deleted_object_def)
  ultimately have "content (tx (undo_pop s')) = content (tb (undo_apply ?ob ?u))"
    using undo_pop_group [of s'] by (simp add: Let_def stack)
  also have "\<dots> = content (tx s)"
    using undo_apply_revert [OF _ rev] tend_text_hole_delete [of "ed s" p q ALLOW_UNDO] assms(1,2,3) by simp
  finally have undo: "content (tx (undo_pop s')) = content (tx s)" .
  have "cstr w = w" using assms(6) unfolding w_def [symmetric] cstr_def by (auto simp: takeWhile_eq_all_conv)
  then have reg: "regs s' (YDreg s) = Some (allocs s, w)"
    using assms(2) by (simp add: s' text_yank_def Let_def w_def)
  have "content (tb (string_insert ?u p w m)) =
      take (nat p) (content (tb ?u)) @ w @ drop (nat p) (content (tb ?u))"
    by (rule string_insert_content) (use assms text_hole_delete_tend [of p q "ed s" ALLOW_UNDO] in auto)
  also have "\<dots> = content (tx s)"
    using rev assms(1,2,3) by (simp add: revert_def deleted_object_def w_def [symmetric] Let_def split: if_splits)
  finally show ?thesis using undo reg by (simp add: s')
qed

theorem deleted_comes_back_witness:
  "\<exists>r s'. yank_delete 1 2 MULTI True ALLOW_UNDO demo = (r, s') \<and> content (tx (undo_pop s')) = content (tx demo) \<and>
     (\<exists>a w. regs s' (YDreg demo) = Some (a, w) \<and>
        content (tb (string_insert (ed s') 1 w ALLOW_UNDO)) = content (tx demo))"
proof -
  obtain r s' where y: "yank_delete 1 2 MULTI True ALLOW_UNDO demo = (r, s')" by fastforce
  have "NUL \<notin> set (span (mem (tx demo)) 1 (nat (2 - 1 + 1)))"
    by (simp add: demo_def editor_of_def buffer_of_def text_of_def span_def upt_rec numeral_eq_Suc)
  then show ?thesis
    using deleted_comes_back [OF _ _ _ _ _ _ _ y, of ALLOW_UNDO] y
    by (auto simp: demo_def editor_of_def buffer_of_def text_of_def)
qed

end
