(* ===== verification/LoadSave.thy ===== *)
theory LoadSave
  imports EditOps
begin

text \<open>
  Loading and saving (\<open>file_insert\<close>, \<open>init_text_buffer\<close>, \<open>file_write\<close>): a file that can be read
  whole becomes the text, byte for byte, and writing the whole text back writes the same bytes.
\<close>

lemma content_file_insert:
  assumes "st_size (fsys s) fn = Some (int (length bs))" and "can_read (fsys s) fn"
    and "read_bytes (fsys s) fn = Some bs" and "int (length bs) < 0x7fffffff" and "0 \<le> vend s"
    and "file_insert (Some fn) 0 initial s = (n, s')"
  shows "n = int (length bs) \<and> content (tx s') = bs @ content (tx s) \<and> fsys s' = fsys s \<and>
    vend s' = vend s + int (length bs)"
proof -
  have "(n, s') = (int (length bs), push_insert 0 (int (length bs)) ALLOW_UNDO
      (on_tb (\<lambda>t. t\<lparr>mem := memcpy_str (mem t) 0 bs\<rparr>) (on_tb (\<lambda>t. text_hole_make t 0 (int (length bs))) s)))"
    using assms by (auto simp: file_insert_def Let_def)
  moreover have "content ((text_hole_make (tx s) 0 (int (length bs)))
      \<lparr>mem := memcpy_str (mem (text_hole_make (tx s) 0 (int (length bs)))) 0 bs\<rparr>) = bs @ content (tx s)"
    using content_insert [of 0 "tx s" bs] assms(5) by simp
  ultimately show ?thesis
    by (simp add: push_insert_def on_tb_def on_ed_def frame_simps)
qed

text \<open>
  C34. Loading a file and saving it writes the bytes it had: after \<open>init_text_buffer\<close> on a readable
  file the text is the file's content, and if the file system takes all of it, \<open>file_write\<close> of the
  whole text appends exactly these bytes to what was written, under that name.
\<close>

theorem load_save:
  assumes "st_size (fsys s) fn = Some (int (length bs))" and "can_read (fsys s) fn"
    and "read_bytes (fsys s) fn = Some bs" and "int (length bs) < 0x7fffffff"
    and "can_write (fsys s) fn" and "write_count (fsys s) fn (int (length bs)) = int (length bs)"
  shows "\<exists>s' s''. init_text_buffer (Some fn) s = Some (int (length bs), s') \<and> content (tx s') = bs \<and>
    file_write (Some fn) 0 (vend s' - 1) s' = (int (length bs), s'') \<and>
    written (fsys s'') = written (fsys s) @ [(fn, bs)] \<and> tx s'' = tx s'"
proof -
  define s1 where "s1 = update_filename (Some fn) (on_dsp (\<lambda>d. d\<lparr>screenbegin := 0\<rparr>)
                 ((on_tb (\<lambda>_. \<lparr>mem = \<lambda>_. NUL, tend = 0, tsize = 10240\<rparr>) s)\<lparr>dot := 0\<rparr>))"
  obtain n s2 where fi: "file_insert (Some fn) 0 True s1 = (n, s2)" by fastforce
  have f1: "fsys s1 = fsys s" "vend s1 = 0" "content (tx s1) = []"
    by (simp_all add: s1_def update_filename_def on_dsp_def on_tb_def content_def span_def)
  have r: "n = int (length bs)" "content (tx s2) = bs" "fsys s2 = fsys s" "vend s2 = int (length bs)"
    using content_file_insert [of s1 fn bs True n s2] assms fi f1 by auto
  define s' where "s' = on_dsp (\<lambda>d. d\<lparr>last_modified_count := - 1\<rparr>)
                  ((on_ed (\<lambda>u. (flush_undo_data u)\<lparr>modified_count := 0\<rparr>) s2)\<lparr>marks := (\<lambda>_. None)\<rparr>)"
  have i: "init_text_buffer (Some fn) s = Some (int (length bs), s')"
    using fi r(1) by (simp add: init_text_buffer_def Let_def s1_def [symmetric] s'_def)
  have s': "content (tx s') = bs" "fsys s' = fsys s"
    using r by (simp_all add: s'_def on_dsp_def on_ed_def flush_undo_data_def)
  have v: "vend s' = int (length bs)"
    using r(4) by (simp add: s'_def on_dsp_def on_ed_def flush_undo_data_def)
  have w: "span (mem (tx s')) 0 (length bs) = bs" using s'(1) v by (simp add: content_def)
  show ?thesis
    using i s' v w assms(5,6) by (simp add: file_write_def Let_def)
qed

theorem load_save_witness:
  "\<exists>s' s''. init_text_buffer (Some ''f'')
       (demo\<lparr>fsys := (fsys demo)\<lparr>st_size := \<lambda>_. Some 2, can_read := \<lambda>_. True, read_bytes := \<lambda>_. Some ''ab''\<rparr>\<rparr>) =
       Some (int (length ''ab''), s') \<and>
     content (tx s') = ''ab'' \<and>
     file_write (Some ''f'') 0 (vend s' - 1) s' = (int (length ''ab''), s'') \<and>
     written (fsys s'') = [(''f'', ''ab'')]"
  using load_save [of "demo\<lparr>fsys := (fsys demo)\<lparr>st_size := \<lambda>_. Some 2, can_read := \<lambda>_. True,
      read_bytes := \<lambda>_. Some ''ab''\<rparr>\<rparr>" "''f''" "''ab''"]
  by (auto simp: demo_def editor_of_def)

end
