(* ===== verification/Motions.thy ===== *)
theory Motions
  imports EditOps
begin

text \<open>
  Word motions and operator ranges (the second half of \<open>vim_cmd.c\<close>): \<open>st_test\<close> and
  \<open>skip_thing\<close>, and \<open>find_range\<close>, which runs a motion command and turns the two positions into
  a range and its kind. \<open>find_range\<close> and \<open>do_cmd\<close> call each other; here the command is an
  argument, and theory \<open>Commands\<close> ties the knot.
\<close>

datatype skip_type = S_BEFORE_WS | S_TO_WS | S_OVER_WS | S_END_PUNCT | S_END_ALNUM

definition st_test :: "tbuf \<Rightarrow> ptr \<Rightarrow> skip_type \<Rightarrow> int \<Rightarrow> bool \<times> char" where
  "st_test t p ty dir =
     (let c0 = mem t p; ci = mem t (p + dir)
      in case ty of
           S_BEFORE_WS \<Rightarrow> (\<not> isspace ci \<or> ci = NL, ci)
         | S_TO_WS \<Rightarrow> (\<not> isspace c0 \<or> c0 = NL, c0)
         | S_OVER_WS \<Rightarrow> (isspace c0, c0)
         | S_END_PUNCT \<Rightarrow> (ispunct ci, ci)
         | S_END_ALNUM \<Rightarrow> (isalnum ci \<or> ci = CHR ''_'', ci))"

function skip_thing :: "tbuf \<Rightarrow> ptr \<Rightarrow> int \<Rightarrow> bool \<Rightarrow> skip_type \<Rightarrow> ptr" where
  "skip_thing t p linecnt fwd ty =
     (case st_test t p ty (if fwd then 1 else - 1) of
        (test, c) \<Rightarrow>
          if \<not> test then p
          else
            (let n = (if c = NL then linecnt - 1 else linecnt)
             in if c = NL \<and> n < 1 then p
                else if fwd \<and> p \<ge> tend t - 1 then p
                else if \<not> fwd \<and> p \<le> 0 then p
                else skip_thing t (if fwd then p + 1 else p - 1) n fwd ty))"
  by pat_completeness auto
termination
  by (relation "measure (\<lambda>(t, p, n, fwd, ty). nat (if fwd then tend t - p else p + 1))") auto

declare skip_thing.simps [simp del]

definition at_eof :: "tbuf \<Rightarrow> ptr \<Rightarrow> bool" where
  "at_eof t p \<longleftrightarrow> (p = tend t - 2 \<and> mem t (p + 1) = NL) \<or> p = tend t - 1"

text \<open>The whitespace before the end of a \<open>w\<close> motion: the pointer, and the last newline crossed.\<close>

function back_over_ws :: "tbuf \<Rightarrow> ptr \<Rightarrow> ptr \<Rightarrow> ptr \<Rightarrow> ptr \<times> ptr" where
  "back_over_ws t p d mark_t =
     (if d > p \<and> isspace (mem t d) then
        back_over_ws t p (d - 1) (if mem t d = NL then d - 1 else mark_t)
      else (d, mark_t))"
  by pat_completeness auto
termination by (relation "measure (\<lambda>(t, p, d, m). nat (d - p))") auto

declare back_over_ws.simps [simp del]

definition trim_word :: "int \<Rightarrow> int \<Rightarrow> ptr \<Rightarrow> vi \<Rightarrow> vi" where
  "trim_word cmd c p s =
     (let t = tx s;
          d = (if dot s > p \<and> (\<not> at_eof t (dot s) \<or> (c = 119 \<and> ispunct (mem t (dot s)))) then dot s - 1
               else dot s);
          (d1, m) = back_over_ws t p d d
      in s\<lparr>dot := (if cmd \<noteq> 99 \<and> d1 \<noteq> m \<and> mem t d1 \<noteq> NL then m else d1)\<rparr>)"

text \<open>The motion of an operator: its kind (\<open>None\<close> for -1) and the state after it.\<close>

definition run_motion :: "(int \<Rightarrow> vi \<Rightarrow> vi option) \<Rightarrow> int \<Rightarrow> int \<Rightarrow> ptr \<Rightarrow> vi \<Rightarrow>
    (buftype option \<times> vi) option" where
  "run_motion do_cmd cmd c p s =
     (if (cmd = 89 \<or> cmd = c) \<and> in_strchr ''cdy><'' c then
        (let s1 = s\<lparr>cmdcnt := cmdcnt s - 1\<rparr>
         in if cmdcnt s1 > 0 then
              map_option (\<lambda>s2. (if cmd_error s2 then None else Some WHOLE, s2)) (do_cmd 106 s1)
            else Some (Some WHOLE, s1))
      else if in_strchr (''^%$0bBeEfFtThnN/?|{}'' @ [CHR 0x08, CHR 0x7F]) c then
        map_option (\<lambda>s1. (if p = dot s1 then None
                          else Some (if in_strchr ''nN/?'' c then MULTI else PARTIAL), s1)) (do_cmd c s)
      else if in_strchr ''wW'' c then
        map_option (\<lambda>s1. (Some MULTI, trim_word cmd c p s1)) (do_cmd c s)
      else if in_strchr (''GHL+-gjk'' @ [CHR 0x27, CHR 0x0D, CHR 0x0A]) c then
        map_option (\<lambda>s1. (if cmd_error s1 then None else Some WHOLE, s1)) (do_cmd c s)
      else if c = 32 \<or> c = 108 then
        (let tmpcnt = (if cmdcnt s \<noteq> 0 then cmdcnt s else 1)
         in map_option (\<lambda>s1. (Some PARTIAL, if tmpcnt = dot s1 - p then s1\<lparr>dot := dot s1 - 1\<rparr> else s1))
              (do_cmd c s))
      else Some (None, s))"

text \<open>The movements that do not include the end of the range.\<close>

definition adjust_range :: "tbuf \<Rightarrow> int \<Rightarrow> buftype \<Rightarrow> ptr \<Rightarrow> ptr \<Rightarrow> buftype \<times> ptr \<times> ptr" where
  "adjust_range t c ty p q =
     (if q > p then
        if in_strchr (''^0bBFThnN/?|'' @ [CHR 0x08, CHR 0x7F]) c then (ty, p, q - 1)
        else if in_strchr ''{}'' c then
          (let ty' = (if p = begin_line t p \<and> (mem t q = NL \<or> at_eof t q) then WHOLE else MULTI);
               q1 = (if at_eof t q then q
                     else if q - 1 > p \<and> p \<noteq> begin_line t p then q - 2 else q - 1)
           in (ty', p, q1))
        else (ty, p, q)
      else (ty, p, q))"

definition find_range :: "(int \<Rightarrow> vi \<Rightarrow> vi option) \<Rightarrow> int \<Rightarrow> vi \<Rightarrow>
    ((buftype \<times> ptr \<times> ptr) option \<times> vi) option" where
  "find_range do_cmd cmd s =
     do {
       (c, s1) \<leftarrow> (if cmd = 89 then Some (121, s) else get_motion_char s);
       (ty, s2) \<leftarrow> run_motion do_cmd cmd c (dot s) s1;
       (case ty of
          None \<Rightarrow> map_option (\<lambda>s3. (None, s3)) (if c \<noteq> 27 then indicate_error s2 else Some s2)
        | Some ty \<Rightarrow>
            Some (Some (adjust_range (tx s2) c ty (min (dot s) (dot s2)) (max (dot s) (dot s2))), s2))
     }"


subsection \<open>Bounds\<close>

text \<open>A word motion that starts in the text stays in it.\<close>

lemma skip_thing_bounds [motion_bounds]:
  "0 \<le> p \<Longrightarrow> p < tend t \<Longrightarrow> 0 \<le> skip_thing t p n fwd ty \<and> skip_thing t p n fwd ty < tend t"
proof (induction "nat (if fwd then tend t - p else p + 1)" arbitrary: p n rule: less_induct)
  case less
  obtain test c where st: "st_test t p ty (if fwd then 1 else - 1) = (test, c)"
    by (cases "st_test t p ty (if fwd then 1 else - 1)") auto
  define n' where "n' = (if c = NL then n - 1 else n)"
  define p' where "p' = (if fwd then p + 1 else p - 1)"
  have eq: "skip_thing t p n fwd ty =
      (if \<not> test \<or> (c = NL \<and> n' < 1) \<or> (fwd \<and> p \<ge> tend t - 1) \<or> (\<not> fwd \<and> p \<le> 0) then p
       else skip_thing t p' n' fwd ty)"
    by (subst skip_thing.simps) (auto simp: st n'_def p'_def Let_def)
  show ?case
  proof (cases "\<not> test \<or> (c = NL \<and> n' < 1) \<or> (fwd \<and> p \<ge> tend t - 1) \<or> (\<not> fwd \<and> p \<le> 0)")
    case False
    then have "0 \<le> p'" "p' < tend t" using less(2,3) by (auto simp: p'_def)
    moreover have "nat (if fwd then tend t - p' else p' + 1) < nat (if fwd then tend t - p else p + 1)"
      using False less(2,3) by (auto simp: p'_def)
    ultimately show ?thesis
      using less(1) [of p' n'] unfolding trans [OF eq if_not_P [OF False]] by blast
  qed (use eq less(2,3) in auto)
qed

lemma back_over_ws_bounds: "p \<le> d \<Longrightarrow> p \<le> fst (back_over_ws t p d m) \<and> fst (back_over_ws t p d m) \<le> d"
proof (induction t p d m rule: back_over_ws.induct)
  case (1 t p d m)
  have eq: "back_over_ws t p d m = (if d > p \<and> isspace (mem t d)
      then back_over_ws t p (d - 1) (if mem t d = NL then d - 1 else m) else (d, m))"
    by (subst back_over_ws.simps) simp
  show ?case
    using 1 by (auto simp: eq)
qed

subsection \<open>The motions keep the end of the text in place\<close>

lemma run_motion_end:
  assumes "\<And>c. keeps_end (inner c)" and "run_motion inner cmd c p s = Some (ty, s')" and "0 \<le> vend s"
  shows "0 \<le> vend s'"
  using assms(2,3)
  by (auto simp: run_motion_def trim_word_def Let_def split: if_splits prod.splits
      dest!: keeps_endD [OF assms(1)])

lemma find_range_end:
  assumes "\<And>c. keeps_end (inner c)" and "find_range inner cmd s = Some (r, s')" and "0 \<le> vend s"
  shows "0 \<le> vend s'"
proof -
  obtain c s1 where c: "(if cmd = 89 then Some (121, s) else get_motion_char s) = Some (c, s1)"
    using assms(2) by (auto simp: find_range_def bind_eq_Some_conv)
  then have "0 \<le> vend s1" using assms(3) by (auto simp: keeps_end_shown split: if_splits)
  moreover obtain ty s2 where m: "run_motion inner cmd c (dot s) s1 = Some (ty, s2)"
    using assms(2) c by (auto simp: find_range_def bind_eq_Some_conv)
  ultimately have "0 \<le> vend s2" using run_motion_end [of inner, OF assms(1)] by blast
  then show ?thesis
    using assms(2) c m by (auto simp: find_range_def keeps_end_shown split: option.splits if_splits)
qed

text \<open>
  Only motion keys reach the inner command: two inner commands that agree on the keys that are
  not operators give the same range.
\<close>

definition operator_keys :: "int set" where
  "operator_keys = {99, 100, 121, 89, 60, 62}"

lemma run_motion_inner:
  assumes "\<And>c s. c \<notin> operator_keys \<Longrightarrow> f c s = g c s"
  shows "run_motion f cmd c p s = run_motion g cmd c p s"
proof -
  have byte: "to_char 99 = CHR ''c''" "to_char 100 = CHR ''d''" "to_char 121 = CHR ''y''"
    "to_char 89 = CHR ''Y''" "to_char 60 = CHR ''<''" "to_char 62 = CHR ''>''"
    by (simp_all add: to_char_def char_of_def bit_Suc_0_iff)
  have eq: "f c = g c" if "c \<notin> operator_keys" for c
    using assms that by blast
  have "f 106 = g 106"
    by (rule eq) (simp add: operator_keys_def)
  moreover have "f c = g c" if "in_strchr (''^%$0bBeEfFtThnN/?|{}'' @ [CHR 0x08, CHR 0x7F]) c"
    by (rule eq) (use that in \<open>auto simp: operator_keys_def in_strchr_def byte\<close>)
  moreover have "f c = g c" if "in_strchr ''wW'' c"
    by (rule eq) (use that in \<open>auto simp: operator_keys_def in_strchr_def byte\<close>)
  moreover have "f c = g c" if "in_strchr (''GHL+-gjk'' @ [CHR 0x27, CHR 0x0D, CHR 0x0A]) c"
    by (rule eq) (use that in \<open>auto simp: operator_keys_def in_strchr_def byte\<close>)
  moreover have "f c = g c" if "c = 32 \<or> c = 108"
    by (rule eq) (use that in \<open>auto simp: operator_keys_def\<close>)
  ultimately show ?thesis
    by (simp add: run_motion_def Let_def cong: if_cong)
qed

lemma find_range_inner:
  assumes "\<And>c s. c \<notin> operator_keys \<Longrightarrow> f c s = g c s"
  shows "find_range f cmd s = find_range g cmd s"
proof -
  have "run_motion f = run_motion g"
    by (intro ext run_motion_inner assms)
  then show ?thesis by (simp only: find_range_def)
qed

end
