(* ===== verification/Colon.thy ===== *)
theory Colon
  imports EditOps
begin

text \<open>
  The colon commands (\<open>vim_cmd.c\<close>): line addresses, options, and \<open>colon\<close>, whose branches are
  one definition each. The command line is a list of characters and a pointer into it the rest of
  the list from there; \<open>hd0\<close> reads the terminating NUL at its end.
\<close>

definition hd0 :: "string \<Rightarrow> char" where
  "hd0 w = (case w of [] \<Rightarrow> NUL | c # _ \<Rightarrow> c)"

subsection \<open>Addresses\<close>

fun take_number :: "int \<Rightarrow> string \<Rightarrow> int \<times> string" where
  "take_number n [] = (n, [])"
| "take_number n (c # cs) = (if isdigit c then take_number (n * 10 + (cval c - 48)) cs else (n, c # cs))"

text \<open>A pattern address: the rest of the line, the state with the pattern saved, and the line found.\<close>

definition pattern_address :: "char \<Rightarrow> string \<Rightarrow> vi \<Rightarrow> string \<times> vi \<times> ptr option" where
  "pattern_address c w s =
     (let pat = takeWhile (\<lambda>d. d \<noteq> c) w;
          rest = drop (length pat) w;
          s1 = (if pat \<noteq> [] then s\<lparr>last_search_pattern := c # pat\<rparr> else s);
          t = tx s1;
          fwd = (c = CHR ''/'');
          find = (\<lambda>q. char_search (ignorecase s1) t q (drop 1 (last_search_pattern s1)) fwd True);
          q = (case find (if fwd then next_line t (dot s1) else begin_line t (dot s1)) of
                 Some q \<Rightarrow> Some q
               | None \<Rightarrow> find (if fwd then 0 else tend t - 1))
      in (if hd0 rest = c then drop 1 rest else rest, s1, q))"

lemma take_number_length: "(num, rest) = take_number n w \<Longrightarrow> length rest \<le> length w"
  by (induction n w rule: take_number.induct) (auto split: if_splits)

lemma pattern_address_length: "(rest, r) = pattern_address c w s \<Longrightarrow> length rest \<le> length w"
  by (auto simp: pattern_address_def Let_def)

function address_loop :: "string \<Rightarrow> int \<Rightarrow> int \<Rightarrow> bool \<Rightarrow> vi \<Rightarrow> (string \<times> int \<times> bool) option \<times> vi" where
  "address_loop w addr sign got s =
     (case w of
        [] \<Rightarrow> (Some (w, addr + sign, got), s)
      | c # cs \<Rightarrow>
          if isblank c then
            (if got then address_loop cs (addr + sign) 0 got s else address_loop cs addr sign got s)
          else if \<not> got \<and> c = CHR ''.'' then address_loop cs addr sign True s
          else if \<not> got \<and> c = CHR ''$'' then address_loop cs (count_lines (tx s) 0 (vend s - 1)) sign True s
          else if \<not> got \<and> c = CHR 0x27 then
            (let m = tolower (hd0 cs)
             in case (if 97 \<le> cval m \<and> cval m \<le> 122 then marks s (nat (cval m - 97)) else None) of
                  None \<Rightarrow> (None, status_line_bold ''Mark not set'' s)
                | Some q \<Rightarrow> address_loop (drop 1 cs) (count_lines (tx s) 0 q) sign True s)
          else if \<not> got \<and> (c = CHR ''/'' \<or> c = CHR ''?'') then
            (case pattern_address c cs s of
               (rest, s1, None) \<Rightarrow> (None, status_line_bold ''Pattern not found'' s1)
             | (rest, s1, Some q) \<Rightarrow> address_loop rest (count_lines (tx s1) 0 q) sign True s1)
          else if isdigit c then
            (case take_number (cval c - 48) cs of
               (num, rest) \<Rightarrow>
                 address_loop rest (if got then addr + (if sign \<ge> 0 then num else - num) else num) 0 True s)
          else if c = CHR ''-'' \<or> c = CHR ''+'' then
            address_loop cs (if got then addr + sign else addr) (if c = CHR ''-'' then - 1 else 1) True s
          else (Some (w, addr + sign, got), s))"
  by pat_completeness auto
termination
  by (relation "measure (\<lambda>(w, addr, sign, got, s). length w)")
    (auto simp: less_Suc_eq_le dest: take_number_length pattern_address_length)

declare address_loop.simps [simp del]

definition get_one_address :: "string \<Rightarrow> vi \<Rightarrow> (string \<times> int \<times> bool) option \<times> vi" where
  "get_one_address w s = address_loop w (count_lines (tx s) 0 (dot s)) 0 False s"


lemma address_loop_length:
  "address_loop w addr sign got s = (Some (rest, a, v), s') \<Longrightarrow> length rest \<le> length w"
proof (induction w arbitrary: addr sign got s rule: length_induct)
  case (1 w)
  have IH: "length rest \<le> length w'" if "length w' < length w"
    "address_loop w' addr' sign' got' s1 = (Some (rest, a, v), s')" for w' addr' sign' got' s1
    using 1(1) that by blast
  show ?case
  proof (cases w)
    case Nil
    then show ?thesis using 1(2) by (simp add: address_loop.simps)
  next
    case (Cons c cs)
    note eq = 1(2) [unfolded Cons, unfolded address_loop.simps [of "c # cs"], simplified]
    have sub: "length rest \<le> length w" if "length w' \<le> length cs"
      "address_loop w' addr' sign' got' s1 = (Some (rest, a, v), s')" for w' addr' sign' got' s1
      using IH [OF _ that(2)] that(1) by (simp add: Cons)
    consider "isblank c" | "\<not> isblank c" "\<not> got" "c = CHR ''/'' \<or> c = CHR ''?''"
      | "\<not> isblank c" "\<not> got" "c = CHR 0x27"
      | "\<not> isblank c" "isdigit c" "got \<or> (c \<noteq> CHR ''/'' \<and> c \<noteq> CHR ''?'' \<and> c \<noteq> CHR 0x27 \<and> c \<noteq> CHR ''.'' \<and> c \<noteq> CHR ''$'')"
      | "\<not> isblank c" "\<not> isdigit c" "got \<or> (c \<noteq> CHR ''/'' \<and> c \<noteq> CHR ''?'' \<and> c \<noteq> CHR 0x27)"
      | "\<not> isblank c" "\<not> got" "c = CHR ''.'' \<or> c = CHR ''$''"
      by blast
    then show ?thesis
    proof cases
      case 1
      then show ?thesis using eq sub [of cs] by (auto split: if_splits)
    next
      case 2
      obtain rest' s1 q where pa: "pattern_address c cs s = (rest', s1, q)"
        by (cases "pattern_address c cs s") auto
      from 2 have "c \<noteq> CHR ''.''" "c \<noteq> CHR ''$''" "c \<noteq> CHR 0x27" by auto
      then show ?thesis
        using 2 eq sub [of rest'] pattern_address_length [OF pa [symmetric]] pa
        by (auto split: option.splits)
    next
      case 3
      then show ?thesis
        using eq sub [of "drop 1 cs"] by (auto simp: Let_def split: if_splits option.splits)
    next
      case 4
      obtain num rest' where tn: "take_number (cval c - 48) cs = (num, rest')"
        by (cases "take_number (cval c - 48) cs") auto
      show ?thesis
        using 4 eq sub [of rest'] take_number_length [OF tn [symmetric]] tn by (auto split: if_splits)
    next
      case 5
      then show ?thesis using eq sub [of cs] by (auto simp: Cons split: if_splits)
    next
      case 6
      then show ?thesis using eq sub [of cs] by (auto split: if_splits)
    qed
  qed
qed

text \<open>
  \<open>get_address\<close>: \<open>sep\<close> is the state \<open>GET_SEPARATOR\<close>, and the result the rest of the line
  (\<open>None\<close> for an error), the two addresses and how many were given, one bit each.
\<close>

function addresses_loop :: "string \<Rightarrow> bool \<Rightarrow> int \<Rightarrow> int \<Rightarrow> nat \<Rightarrow> vi \<Rightarrow>
    string option \<times> int \<times> int \<times> nat \<times> vi" where
  "addresses_loop w sep b e got s =
     (if isblank (hd0 w) then addresses_loop (drop 1 w) sep b e got s
      else if \<not> sep \<and> hd0 w = CHR ''%'' then
        addresses_loop (drop 1 w) True 1 (count_lines (tx s) 0 (vend s - 1)) 3 s
      else if \<not> sep then
        (case get_one_address w s of
           (None, s1) \<Rightarrow> (None, b, e, got, s1)
         | (Some (rest, addr, valid), s1) \<Rightarrow>
             if valid \<or> hd0 rest = CHR '','' \<or> hd0 rest = CHR '';'' \<or> odd got
             then addresses_loop rest True e addr (got * 2 + 1) s1
             else (Some rest, b, e, got, s1))
      else if hd0 w = CHR '','' \<or> hd0 w = CHR '';'' then
        addresses_loop (drop 1 w) False b e got
          (if hd0 w = CHR '';'' then s\<lparr>dot := find_line (tx s) e\<rparr> else s)
      else (Some w, b, e, got, s))"
  by pat_completeness auto
termination
proof (relation "measure (\<lambda>(w, sep, b, e, got, s). 2 * length w + (if sep then 0 else 1))", goal_cases)
  case 1
  show ?case by simp
next
  case (2 w sep b e got s)
  then show ?case by (cases w) (auto simp: hd0_def isblank_def)
next
  case (3 w sep b e got s)
  then show ?case by (cases w) (auto simp: hd0_def)
next
  case (4 w sep b e got s x s1 y rest z addr valid)
  then show ?case
    by (auto simp: get_one_address_def less_Suc_eq_le dest: address_loop_length [OF sym])
next
  case (5 w sep b e got s)
  then show ?case by (cases w) (auto simp: hd0_def)
qed

declare addresses_loop.simps [simp del]

definition get_address :: "string \<Rightarrow> vi \<Rightarrow> string option \<times> int \<times> int \<times> nat \<times> vi" where
  "get_address w s =
     (case addresses_loop w False (- 1) (- 1) 0 s of
        (r, b, e, got, s1) \<Rightarrow> (r, b, e, got, s1\<lparr>dot := dot s\<rparr>))"


subsection \<open>Options\<close>

definition OPTS :: "string list" where
  "OPTS = [''ai'', ''autoindent'', ''et'', ''expandtab'', ''fl'', ''flash'', ''ic'', ''ignorecase'',
           ''sm'', ''showmatch'', ''ts'', ''tabstop'']"

fun index_in_strings :: "string list \<Rightarrow> string \<Rightarrow> nat option" where
  "index_in_strings [] key = None"
| "index_in_strings (x # xs) key =
     (if x = key then Some 0 else map_option Suc (index_in_strings xs key))"

text \<open>
  \<open>strtoul(s, NULL, 10)\<close> with a 64-bit \<open>long\<close>: blanks, a sign, digits; \<open>None\<close> for \<open>ERANGE\<close>. The
  result is then stored in an \<open>int\<close>.
\<close>

definition strtoul10 :: "string \<Rightarrow> 64 word option" where
  "strtoul10 w =
     (let w1 = dropWhile isspace w;
          neg = (hd0 w1 = CHR ''-'');
          w2 = (if neg \<or> hd0 w1 = CHR ''+'' then drop 1 w1 else w1);
          n = fst (take_number 0 w2)
      in if n > 18446744073709551615 then None
         else Some (if neg then - of_int n else of_int n))"

definition to_int32 :: "64 word \<Rightarrow> int" where
  "to_int32 w = sint (ucast w :: 32 word)"

definition MAX_TABSTOP :: int where
  "MAX_TABSTOP = 32"

definition setops :: "string \<Rightarrow> nat \<Rightarrow> vi \<Rightarrow> vi" where
  "setops args flg_no s =
     (let name = takeWhile (\<lambda>c. c \<noteq> CHR ''='') args;
          eq = (CHR ''='' \<in> set args);
          bad = status_line_bold (''bad option: '' @ args) s
      in case index_in_strings OPTS (drop flg_no name) of
           None \<Rightarrow> bad
         | Some i \<Rightarrow>
             (let k = i div 2
              in if k = 5 then
                   if \<not> eq \<or> flg_no \<noteq> 0 then bad
                   else
                     (let t = (case strtoul10 (drop (length name + 1) args) of None \<Rightarrow> - 1 | Some v \<Rightarrow> to_int32 v)
                      in if t \<le> 0 \<or> t > MAX_TABSTOP then bad else s\<lparr>tabstop := t\<rparr>)
                 else if eq then bad
                 else if flg_no \<noteq> 0 then s\<lparr>vi_setops := unset_bit k (vi_setops s)\<rparr>
                 else s\<lparr>vi_setops := set_bit k (vi_setops s)\<rparr>))"

text \<open>\<open>skip_whitespace\<close> and \<open>skip_non_whitespace\<close>: what is left after them.\<close>

definition skip_whitespace :: "string \<Rightarrow> string" where
  "skip_whitespace w = dropWhile isspace w"

definition skip_non_whitespace :: "string \<Rightarrow> string" where
  "skip_non_whitespace w = dropWhile (\<lambda>c. \<not> isspace c) w"

lemma skip_words_shorter: "w \<noteq> [] \<Longrightarrow> length (skip_whitespace (skip_non_whitespace w)) < length w"
proof (cases w)
  case (Cons c cs)
  have le: "length (skip_whitespace v) \<le> length v" "length (skip_non_whitespace v) \<le> length v" for v
    by (simp_all add: skip_whitespace_def skip_non_whitespace_def length_dropWhile_le)
  show ?thesis
  proof (cases "isspace c")
    case True
    then show ?thesis
      using le(1) [of cs] by (simp add: Cons skip_whitespace_def skip_non_whitespace_def)
  next
    case False
    then have "skip_non_whitespace w = skip_non_whitespace cs"
      by (simp add: Cons skip_non_whitespace_def)
    then show ?thesis
      using le(1) [of "skip_non_whitespace cs"] le(2) [of cs] by (simp add: Cons)
  qed
qed simp

function set_args :: "string \<Rightarrow> vi \<Rightarrow> vi" where
  "set_args w s =
     (if w = [] then s
      else set_args (skip_whitespace (skip_non_whitespace w))
             (setops (takeWhile (\<lambda>c. \<not> isspace c) w) (if take 2 w = ''no'' then 2 else 0) s))"
  by pat_completeness auto
termination by (relation "measure (\<lambda>(w, s). length w)") (auto simp: skip_words_shorter)

declare set_args.simps [simp del]

subsection \<open>The range of a command\<close>

record colon_line =
  c_cmd :: string
  c_args :: string
  c_force :: bool
  c_q :: ptr
  c_r :: ptr
  c_b :: int
  c_e :: int
  c_got :: nat
  c_buf :: string

definition GOT_ADDRESS :: "colon_line \<Rightarrow> bool" where
  "GOT_ADDRESS l = odd (c_got l)"

definition GOT_RANGE :: "colon_line \<Rightarrow> bool" where
  "GOT_RANGE l \<longleftrightarrow> c_got l mod 4 = 3"

text \<open>Cutting the command word, its \<open>!\<close> and the arguments out of the line.\<close>

definition split_command :: "string \<Rightarrow> string \<times> bool \<times> string" where
  "split_command w =
     (let word = takeWhile (\<lambda>c. \<not> isspace c) w;
          rest = drop (length word) w;
          args = (if isblank (hd0 rest) then dropWhile isblank rest else []);
          force = (word \<noteq> [] \<and> last word = CHR ''!'')
      in (if force then butlast word else word, force, args))"

text \<open>The line from its addresses on, or the state when the range is refused.\<close>

definition colon_range :: "string \<Rightarrow> int \<Rightarrow> int \<Rightarrow> nat \<Rightarrow> vi \<Rightarrow> vi + colon_line" where
  "colon_range w b e got s =
     (let t = tx s; li = count_lines t 0 (tend t - 1);
          (cmd, force, args) = split_command w;
          ln = (\<lambda>q r. \<lparr>c_cmd = cmd, c_args = args, c_force = force, c_q = q, c_r = r, c_b = b, c_e = e,
                        c_got = got, c_buf = w\<rparr>);
          bad = status_line_bold ''Invalid range'' s
      in if even got then Inr (ln 0 (tend t - 1))
         else if e < 0 \<or> e > li then Inl bad
         else if got mod 4 \<noteq> 3 then Inr (ln (find_line t e) (end_line t (find_line t e)))
         else if b < 0 \<or> b > li \<or> b > e then Inl bad
         else Inr (ln (find_line t b) (end_line t (find_line t e))))"

text \<open>Commands that work on lines take the current one when no address was given.\<close>

definition line_range :: "colon_line \<Rightarrow> vi \<Rightarrow> ptr \<times> ptr" where
  "line_range l s =
     (if GOT_ADDRESS l then (c_q l, c_r l)
      else (begin_line (tx s) (dot s), end_line (tx s) (dot s)))"

definition is_cmd :: "string \<Rightarrow> string \<Rightarrow> bool" where
  "is_cmd cmd full \<longleftrightarrow> take (length cmd) full = cmd"


subsection \<open>The commands\<close>

text \<open>The common exit \<open>ret:\<close> of \<open>colon\<close>.\<close>

definition bounded :: "vi \<Rightarrow> vi option" where
  "bounded s = do { (p, s1) \<leftarrow> bound_dot (dot s) s; Some (s1\<lparr>dot := p\<rparr>) }"

definition quoted :: "string \<Rightarrow> string" where
  "quoted w = CHR 0x27 # cstr w @ [CHR 0x27]"

definition more_files :: "int \<Rightarrow> string" where
  "more_files n = dec n @ '' more file(s) to edit''"

definition no_write :: "string \<Rightarrow> string" where
  "no_write cmd = ''No write since last change (:'' @ cmd @ ''! overrides)''"

definition colon_goto :: "colon_line \<Rightarrow> vi \<Rightarrow> vi" where
  "colon_goto l s =
     (if c_e l \<ge> 0 then dot_skip_over_ws (s\<lparr>dot := find_line (tx s) (c_e l)\<rparr>) else s)"

definition colon_where :: "colon_line \<Rightarrow> vi \<Rightarrow> vi" where
  "colon_where l s =
     status_line (dec (if GOT_ADDRESS l then c_e l else count_lines (tx s) 0 (dot s))) s"

definition colon_delete :: "colon_line \<Rightarrow> vi \<Rightarrow> vi" where
  "colon_delete l s =
     (case line_range l s of
        (q, r) \<Rightarrow>
          (case yank_delete q r WHOLE True ALLOW_UNDO s of (p, s1) \<Rightarrow> dot_skip_over_ws (s1\<lparr>dot := p\<rparr>)))"

definition colon_edit :: "colon_line \<Rightarrow> vi \<Rightarrow> vi option" where
  "colon_edit l s =
     (if modified_count (ed s) \<noteq> 0 \<and> \<not> c_force l then Some (status_line_bold (no_write (c_cmd l)) s)
      else if c_args l = [] \<and> current_filename s = None then
        Some (status_line_bold ''No current filename'' s)
      else
        (let fn = (if c_args l \<noteq> [] then Some (c_args l) else current_filename s)
         in do {
              (size, s1) \<leftarrow> init_text_buffer fn s;
              (let s2 = s1\<lparr>regs := (regs s1)(27 := None, YDreg s1 := None)\<rparr>;
                   li = count_lines (tx s2) 0 (vend s2 - 1)
               in Some (status_line (quoted (the fn) @ (if size < 0 then '' [New file]'' else []) @ '' '' @
                          dec li @ ''L, '' @ dec (vend s2) @ ''C'') s2))
            }))"

definition colon_file :: "colon_line \<Rightarrow> vi \<Rightarrow> vi" where
  "colon_file l s =
     (if c_e l \<ge> 0 then status_line_bold ''No address allowed on this command'' s
      else if c_args l \<noteq> [] then update_filename (Some (c_args l)) s
      else force_status s)"

text \<open>One character of \<open>:list\<close>.\<close>

definition list_char :: "char \<Rightarrow> string" where
  "list_char c0 =
     (let np = (cval c0 \<ge> 128);
          c = (if np then CHR ''.'' else c0);
          pre = (if np then ESC_BOLD_TEXT else []);
          (mid, c1) = (if c = NL then (''$'' @ [CHR 0x0D], c)
                       else if cval c < 32 then (''^'', to_char (cval c + 64))
                       else if cval c = 127 then (''^'', CHR ''?'')
                       else ([], c))
      in pre @ mid @ [c1] @ (if np then ESC_NORM_TEXT else []))"

definition colon_list :: "colon_line \<Rightarrow> vi \<Rightarrow> vi option" where
  "colon_list l s =
     (case line_range l s of
        (q, r) \<Rightarrow>
          Hit_Return (on_dsp (\<lambda>d. (go_bottom_and_clear_to_eol d)
            \<lparr>stdout := stdout (go_bottom_and_clear_to_eol d) @ [CHR 0x0D] @
               concat (map list_char (span (mem (tx s)) q (nat (r - q + 1))))\<rparr>) s))"

definition colon_quit :: "colon_line \<Rightarrow> vi \<Rightarrow> vi" where
  "colon_quit l s =
     (let n = argc s - vi_optind s - 1; k = hd0 (c_cmd l)
      in if c_force l then s\<lparr>editing := 0\<rparr>
         else if modified_count (ed s) \<noteq> 0 then status_line_bold (no_write (c_cmd l)) s
         else if k = CHR ''q'' \<and> n > 0 then status_line_bold (more_files n) s
         else if k = CHR ''n'' \<and> n \<le> 0 then status_line_bold ''No more files to edit'' s
         else if k = CHR ''p'' \<and> vi_optind s < 2 then status_line_bold ''No previous files to edit'' s
         else (if k = CHR ''p'' then s\<lparr>vi_optind := vi_optind s - 2\<rparr> else s)\<lparr>editing := 0\<rparr>)"

definition colon_read :: "colon_line \<Rightarrow> vi \<Rightarrow> vi" where
  "colon_read l s =
     (if c_args l = [] \<and> current_filename s = None then status_line_bold ''No current filename'' s
      else
        (let fn = (if c_args l \<noteq> [] then c_args l else the (current_filename s));
             s1 = (if c_args l \<noteq> [] then init_filename fn s else s);
             t = tx s1;
             q0 = next_line t (if GOT_ADDRESS l then find_line t (c_e l) else dot s1);
             q = (if c_e l = 0 then 0 else if q0 = tend t - 1 then q0 + 1 else q0);
             num = count_lines t 0 q + (if q = tend t then 1 else 0);
             (size, s2) = file_insert (Some fn) q False s1
         in if size < 0 then s2
            else
              (let s3 = status_line (quoted fn @ '' '' @ dec (count_lines (tx s2) q (q + size - 1)) @
                          ''L, '' @ dec size @ ''C'') s2
               in s3\<lparr>dot := find_line (tx s3) num\<rparr>)))"

definition colon_rewind :: "colon_line \<Rightarrow> vi \<Rightarrow> vi" where
  "colon_rewind l s =
     (if modified_count (ed s) \<noteq> 0 \<and> \<not> c_force l then status_line_bold (no_write (c_cmd l)) s
      else s\<lparr>vi_optind := 0, editing := 0\<rparr>)"

definition colon_set :: "colon_line \<Rightarrow> vi \<Rightarrow> vi" where
  "colon_set l s =
     (if c_args l = [] \<or> c_args l = ''all'' then
        (let no = (\<lambda>b. if b then [] else ''no'')
         in status_line_bold (no (autoindent s) @ ''autoindent '' @ no (expandtab s) @ ''expandtab '' @
              no (err_method s) @ ''flash '' @ no (ignorecase s) @ ''ignorecase '' @
              no (showmatch s) @ ''showmatch '' @ ''tabstop='' @ dec (tabstop s)) s)
      else set_args (c_args l) s)"

definition colon_write :: "colon_line \<Rightarrow> vi \<Rightarrow> vi" where
  "colon_write l s =
     (let cmd = c_cmd l; args = c_args l;
          cmd1 = hd0 (drop 1 cmd)
      in if args \<noteq> [] \<and> \<not> c_force l \<and> current_filename s \<noteq> Some args \<and> st_size (fsys s) args \<noteq> None then
           status_line_bold ''File exists (:w! overrides)'' s
         else
           (let fn = (if args \<noteq> [] then Some args else current_filename s);
                s1 = (if args \<noteq> [] then init_filename args s else s);
                q = c_q l; r = c_r l;
                doit = (modified_count (ed s1) \<noteq> 0 \<or> hd0 cmd \<noteq> CHR ''x'');
                size = (if doit then r - q + 1 else 0);
                (n, s2) = (if doit then file_write fn q r s1 else (0, s1))
            in if n < 0 then
                 (if n = - 1 then status_line_bold_errno (case fn of Some f \<Rightarrow> f | None \<Rightarrow> []) s2 else s2)
               else
                 (let s3 = status_line (quoted (case fn of Some f \<Rightarrow> f | None \<Rightarrow> ''(null)'') @ '' '' @
                             dec (count_lines (tx s2) q (q + n - 1)) @ ''L, '' @ dec n @ ''C'') s2
                  in if n \<noteq> size then s3
                     else
                       (let s4 = (if q = 0 \<and> q + n = vend s3
                                  then on_dsp (\<lambda>d. d\<lparr>last_modified_count := - 1\<rparr>)
                                         (on_ed (\<lambda>u. u\<lparr>modified_count := 0\<rparr>) s3)
                                  else s3);
                            left = argc s4 - vi_optind s4 - 1
                        in if cmd1 = CHR ''n'' then s4\<lparr>editing := 0\<rparr>
                           else if hd0 cmd = CHR ''x'' \<or> cmd1 = CHR ''q'' then
                             (if left > 0 then
                                if c_force l then s4\<lparr>vi_optind := argc s4, editing := 0\<rparr>
                                else status_line_bold (more_files left) s4
                              else s4\<lparr>editing := 0\<rparr>)
                           else s4))))"

definition colon_yank :: "colon_line \<Rightarrow> vi \<Rightarrow> vi" where
  "colon_yank l s =
     (case line_range l s of
        (q, r) \<Rightarrow>
          (let s1 = text_yank q r (YDreg s) WHOLE s
           in status_line (''Yank '' @ dec (count_lines (tx s1) q r) @ '' lines ('' @
                dec (int (length (case regs s1 (YDreg s1) of Some (a, w) \<Rightarrow> w | None \<Rightarrow> []))) @
                '' chars) into ['' @ [what_reg s1] @ '']'') s1))"

subsection \<open>Substitution\<close>

text \<open>
  The state of the line loop: the start of the line, where to go on searching, how many
  substitutions, the last line changed and the number of changed lines.
\<close>

record subst_state =
  ss_ls :: ptr
  ss_q :: ptr
  ss_subs :: int
  ss_last :: int
  ss_lines :: int

text \<open>One pass over \<open>vc4\<close>: \<open>None\<close> when the pattern is not found.\<close>

definition subst_one :: "string \<Rightarrow> string \<Rightarrow> int \<Rightarrow> subst_state \<times> vi \<Rightarrow> (ptr \<times> subst_state \<times> vi) option" where
  "subst_one F R i st =
     (case st of (x, s) \<Rightarrow>
        (case char_search (ignorecase s) (tx s) (ss_q x) F True False of
           None \<Rightarrow> None
         | Some found \<Rightarrow>
             (let s1 = snd (hole_delete found (found + int (length F) - 1)
                              (if ss_subs x \<noteq> 0 then ALLOW_UNDO_CHAIN else ALLOW_UNDO) s);
                  s2 = (if R \<noteq> [] then on_ed (\<lambda>u. string_insert u found R ALLOW_UNDO_CHAIN) s1 else s1);
                  x1 = x\<lparr>ss_subs := ss_subs x + 1,
                         ss_lines := (if ss_last x \<noteq> i then ss_lines x + 1 else ss_lines x),
                         ss_last := i\<rparr>
              in Some (found, x1, s2\<lparr>dot := ss_ls x\<rparr>))))"

partial_function (option) subst_line :: "string \<Rightarrow> string \<Rightarrow> bool \<Rightarrow> int \<Rightarrow> subst_state \<times> vi \<Rightarrow>
    (subst_state \<times> vi) option" where
  "subst_line F R g i st =
     (case subst_one F R i st of
        None \<Rightarrow> Some st
      | Some (found, x, s) \<Rightarrow>
          (if g \<and> found + int (length R) < end_line (tx s) (ss_ls x)
           then subst_line F R g i (x\<lparr>ss_q := found + int (length R)\<rparr>, s)
           else Some (x, s)))"

declare subst_line.simps [code]

fun subst_lines :: "nat \<Rightarrow> string \<Rightarrow> string \<Rightarrow> bool \<Rightarrow> int \<Rightarrow> subst_state \<times> vi \<Rightarrow> (subst_state \<times> vi) option" where
  "subst_lines 0 F R g i st = Some st"
| "subst_lines (Suc n) F R g i (x, s) =
     (case subst_line F R g i (x\<lparr>ss_ls := ss_q x\<rparr>, s) of
        None \<Rightarrow> None
      | Some (x1, s1) \<Rightarrow> subst_lines n F R g (i + 1) (x1\<lparr>ss_q := next_line (tx s1) (ss_ls x1)\<rparr>, s1))"

definition colon_substitute :: "colon_line \<Rightarrow> vi \<Rightarrow> vi option" where
  "colon_substitute l s =
     (let c = hd0 (drop 1 (c_buf l));
          w = drop 2 (c_buf l);
          F0 = takeWhile (\<lambda>d. d \<noteq> c) w
      in if c \<notin> set w then Some (status_line '':s expression missing delimiters'' s)
         else
           (let w2 = drop (length F0 + 1) w;
                R = takeWhile (\<lambda>d. d \<noteq> c) w2;
                g = (hd0 (drop (length R + 1) w2) = CHR ''g'');
                s1 = (if F0 \<noteq> [] then s\<lparr>last_search_pattern := CHR ''/'' # F0\<rparr> else s)
            in if length (last_search_pattern s1) < 2 then
                 bounded (status_line_bold ''No previous search'' s1)
               else
                 (let F = (if F0 \<noteq> [] then F0 else drop 1 (last_search_pattern s1));
                      q = (if GOT_ADDRESS l then c_q l else begin_line (tx s1) (dot s1));
                      e = (if GOT_ADDRESS l then c_e l else count_lines (tx s1) 0 q);
                      b = (if GOT_ADDRESS l \<and> GOT_RANGE l then c_b l else e)
                  in do {
                       (x, s2) \<leftarrow> subst_lines (nat (e - b + 1)) F R g b
                          (\<lparr>ss_ls = q, ss_q = q, ss_subs = 0, ss_last = 0, ss_lines = 0\<rparr>, s1);
                       (let s3 = (if ss_subs x = 0 then status_line_bold ''No match'' s2
                                  else
                                    (let s' = dot_skip_over_ws s2
                                     in if ss_subs x > 1
                                        then status_line (dec (ss_subs x) @ '' substitutions on '' @
                                               dec (ss_lines x) @ '' lines'') s'
                                        else s'))
                        in bounded s3)
                     })))"

subsection \<open>Dispatch\<close>

definition colon_dispatch :: "colon_line \<Rightarrow> vi \<Rightarrow> vi option" where
  "colon_dispatch l s =
     (let cmd = c_cmd l; is = is_cmd cmd
      in if cmd = [] then bounded (colon_goto l s)
         else if cmd = ''='' then bounded (colon_where l s)
         else if is ''delete'' then bounded (colon_delete l s)
         else if is ''edit'' then Option.bind (colon_edit l s) bounded
         else if is ''file'' then bounded (colon_file l s)
         else if is ''list'' then Option.bind (colon_list l s) bounded
         else if is ''quit'' \<or> is ''next'' \<or> is ''prev'' then bounded (colon_quit l s)
         else if is ''read'' then bounded (colon_read l s)
         else if is ''rewind'' then bounded (colon_rewind l s)
         else if is ''set'' then bounded (colon_set l s)
         else if hd0 cmd = CHR ''s'' then colon_substitute l s
         else if is ''version'' then bounded (status_line ''vi 0.9.1-vim'' s)
         else if is ''write'' \<or> cmd = ''wq'' \<or> cmd = ''wn'' \<or> cmd = ''x'' then bounded (colon_write l s)
         else if is ''yank'' then bounded (colon_yank l s)
         else bounded (not_implemented cmd s))"

definition colon :: "string \<Rightarrow> vi \<Rightarrow> vi option" where
  "colon w0 s =
     (let w = dropWhile isblank (dropWhile (\<lambda>c. c = CHR '':'') w0)
      in if w = [] \<or> hd0 w = CHR 0x22 then bounded s
         else
           (case get_address w s of
              (None, b, e, got, s1) \<Rightarrow> bounded s1
            | (Some rest, b, e, got, s1) \<Rightarrow>
                (case colon_range rest b e got s1 of
                   Inl s2 \<Rightarrow> bounded s2
                 | Inr l \<Rightarrow> colon_dispatch l s1)))"


subsection \<open>The commands keep the end of the text at or after its start\<close>

lemma vend_yank_delete: "yank_delete p q ty d m s = (r, s') \<Longrightarrow> 0 \<le> vend s \<Longrightarrow> 0 \<le> vend s'"
  using yank_delete_end [of s p q ty d m] by simp

lemma ed_pattern_address: "pattern_address c w s = (rest, s1, q) \<Longrightarrow> ed s1 = ed s \<and> dot s1 = dot s"
  by (auto simp: pattern_address_def Let_def)

lemma ed_address_loop: "ed (snd (address_loop w addr sign got s)) = ed s"
proof (induction w arbitrary: addr sign got s rule: length_induct)
  case (1 w)
  have IH: "ed (snd (address_loop w' addr' sign' got' s1)) = ed s1" if "length w' < length w"
    for w' addr' sign' got' s1
    using 1 that by blast
  show ?case
  proof (cases w)
    case Nil
    then show ?thesis by (simp add: address_loop.simps)
  next
    case (Cons c cs)
    obtain rest s1 q where pa: "pattern_address c cs s = (rest, s1, q)"
      by (cases "pattern_address c cs s") auto
    obtain num rest' where tn: "take_number (cval c - 48) cs = (num, rest')"
      by (cases "take_number (cval c - 48) cs") auto
    have le: "length rest \<le> length cs" "length rest' \<le> length cs"
      using pattern_address_length [OF pa [symmetric]] take_number_length [OF tn [symmetric]] by auto
    show ?thesis
      unfolding Cons
      by (subst address_loop.simps)
        (use le in \<open>auto simp: pa tn Let_def IH Cons frame_simps ed_pattern_address [OF pa] split: option.split\<close>)
  qed
qed

lemma ed_addresses_loop: "addresses_loop w sep b e got s = (r, b', e', got', s') \<Longrightarrow> ed s' = ed s"
proof (induction w sep b e got s rule: addresses_loop.induct)
  case (1 w sep b e got s)
  obtain a s1 where a: "get_one_address w s = (a, s1)" by (cases "get_one_address w s") auto
  then have s1: "ed s1 = ed s"
    using ed_address_loop [of w "count_lines (tx s) 0 (dot s)" 0 False s] by (simp add: get_one_address_def)
  note eq = 1(5) [unfolded addresses_loop.simps [of w sep b e got s]]
  consider "isblank (hd0 w)" | "\<not> isblank (hd0 w)" "\<not> sep" "hd0 w = CHR ''%''"
    | "\<not> isblank (hd0 w)" "\<not> sep" "hd0 w \<noteq> CHR ''%''" | "\<not> isblank (hd0 w)" "sep" by blast
  then show ?case
  proof cases
    case k1: 1
    then show ?thesis using eq 1(1) by simp
  next
    case k2: 2
    then show ?thesis using eq 1(2) by simp
  next
    case k3: 3
    show ?thesis
    proof (cases a)
      case None
      then show ?thesis using k3 eq a s1 by simp
    next
      case (Some t)
      obtain rest addr valid where t: "t = (rest, addr, valid)" by (cases t)
      show ?thesis
        using k3 eq a s1 Some t 1(3) [OF k3(1) _ _ a [symmetric]] by (auto split: if_splits)
    qed
  next
    case k4: 4
    then show ?thesis using eq 1(4) by (auto split: if_splits)
  qed
qed

lemma ed_get_address: "get_address w s = (r, b, e, got, s') \<Longrightarrow> ed s' = ed s \<and> dot s' = dot s"
  by (auto simp: get_address_def split: prod.splits dest: ed_addresses_loop)

lemma ed_setops [frame_simps]: "ed (setops a n s) = ed s"
  by (auto simp: setops_def Let_def frame_simps split: option.split)

lemma ed_set_args [frame_simps]: "ed (set_args w s) = ed s"
  by (induction w s rule: set_args.induct) (subst set_args.simps, simp add: frame_simps)

lemma bounded_end: "bounded s = Some s' \<Longrightarrow> vend s' = vend s"
  by (auto simp: bounded_def bind_eq_Some_conv keeps_end_shown)

lemma vend_colon_delete: "0 \<le> vend s \<Longrightarrow> 0 \<le> vend (colon_delete l s)"
  by (auto simp: colon_delete_def frame_simps split: prod.split dest: vend_yank_delete)

lemma vend_colon_edit: "colon_edit l s = Some s' \<Longrightarrow> 0 \<le> vend s \<Longrightarrow> 0 \<le> vend s'"
  by (auto simp: colon_edit_def Let_def bind_eq_Some_conv frame_simps split: if_splits
      dest!: vend_init_text_buffer)

lemma vend_colon_list: "colon_list l s = Some s' \<Longrightarrow> vend s' = vend s"
  by (auto simp: colon_list_def keeps_end_shown frame_simps split: prod.splits)

lemma vend_init_filename [simp]: "ed (init_filename f s) = ed s"
  by (simp add: init_filename_def)

lemma ed_update_filename [simp]: "ed (update_filename f s) = ed s"
  by (simp add: update_filename_def frame_simps split: option.split)

lemma vend_file_insertD: "file_insert fn q i s = (n, s') \<Longrightarrow> 0 \<le> vend s \<Longrightarrow> 0 \<le> vend s'"
  using vend_file_insert [of s fn q i] by simp

lemma vend_colon_read: "0 \<le> vend s \<Longrightarrow> 0 \<le> vend (colon_read l s)"
proof -
  assume a: "0 \<le> vend s"
  define fn where "fn = (if c_args l \<noteq> [] then c_args l else the (current_filename s))"
  define s1 where "s1 = (if c_args l \<noteq> [] then init_filename fn s else s)"
  have s1: "0 \<le> vend s1" using a by (simp add: s1_def)
  have fi: "file_insert (Some fn) q False s1 = (n, s2) \<Longrightarrow> 0 \<le> vend s2" for q n s2
    using vend_file_insertD s1 by blast
  show ?thesis
    unfolding colon_read_def Let_def fn_def [symmetric] s1_def [symmetric]
    by (split prod.split, split if_split) (auto simp: frame_simps a dest!: fi)
qed

lemma ed_colon_goto [simp]: "ed (colon_goto l s) = ed s"
  by (simp add: colon_goto_def dot_skip_over_ws_def)

lemma ed_colon_where [simp]: "ed (colon_where l s) = ed s"
  by (simp add: colon_where_def frame_simps)

lemma ed_colon_file [simp]: "ed (colon_file l s) = ed s"
  by (simp add: colon_file_def frame_simps)

lemma ed_colon_quit [simp]: "ed (colon_quit l s) = ed s"
  by (simp add: colon_quit_def Let_def frame_simps)

lemma ed_colon_rewind [simp]: "ed (colon_rewind l s) = ed s"
  by (simp add: colon_rewind_def frame_simps)

lemma ed_colon_set [simp]: "ed (colon_set l s) = ed s"
  by (simp add: colon_set_def Let_def frame_simps)

lemma ed_colon_yank [simp]: "ed (colon_yank l s) = ed s"
  by (simp add: colon_yank_def Let_def frame_simps split: prod.split)

lemma ed_file_write: "file_write fn q r s = (n, s') \<Longrightarrow> ed s' = ed s"
  using vend_file_write [of fn q r s] by (simp del: vend_file_write)

lemma vend_colon_write [simp]: "vend (colon_write l s) = vend s"
proof -
  define fn where "fn = (if c_args l \<noteq> [] then Some (c_args l) else current_filename s)"
  define s1 where "s1 = (if c_args l \<noteq> [] then init_filename (c_args l) s else s)"
  define r where "r = (if modified_count (ed s1) \<noteq> 0 \<or> hd0 (c_cmd l) \<noteq> CHR ''x''
      then file_write fn (c_q l) (c_r l) s1 else (0, s1))"
  obtain n s2 where r: "r = (n, s2)" by (cases r)
  have s2: "ed s2 = ed s"
    using r by (auto simp: r_def s1_def split: if_splits dest: ed_file_write)
  show ?thesis
    unfolding colon_write_def Let_def fn_def [symmetric] s1_def [symmetric] r_def [symmetric] r prod.case
    by (simp add: frame_simps on_ed_def s2)
qed

lemma subst_one_end: "subst_one F R i (x, s) = Some (p, x', s') \<Longrightarrow> 0 \<le> vend s \<Longrightarrow> 0 \<le> vend s'"
  using vend_hole_delete [of s _ _ ALLOW_UNDO] vend_hole_delete [of s _ _ ALLOW_UNDO_CHAIN]
  by (auto simp: subst_one_def Let_def split: option.splits)

lemma subst_line_end:
  assumes "subst_line F R g i st = Some r"
  shows "0 \<le> vend (snd st) \<longrightarrow> 0 \<le> vend (snd r)"
proof (rule subst_line.raw_induct [where P = "\<lambda>F R g i st r. 0 \<le> vend (snd st) \<longrightarrow> 0 \<le> vend (snd r)", OF _ assms])
  fix sl :: "string \<Rightarrow> string \<Rightarrow> bool \<Rightarrow> int \<Rightarrow> subst_state \<times> vi \<Rightarrow> (subst_state \<times> vi) option"
    and F R g i st r
  assume IH: "\<And>F R g i st r. sl F R g i st = Some r \<Longrightarrow> 0 \<le> vend (snd st) \<longrightarrow> 0 \<le> vend (snd r)"
    and eq: "(case subst_one F R i st of None \<Rightarrow> Some st
      | Some (found, x, s) \<Rightarrow>
          (if g \<and> found + int (length R) < end_line (tx s) (ss_ls x)
           then sl F R g i (x\<lparr>ss_q := found + int (length R)\<rparr>, s) else Some (x, s))) = Some r"
  show "0 \<le> vend (snd st) \<longrightarrow> 0 \<le> vend (snd r)"
  proof (cases "subst_one F R i st")
    case (Some y)
    obtain found x s where y: "y = (found, x, s)" by (cases y)
    have "0 \<le> vend (snd st) \<Longrightarrow> 0 \<le> vend s"
      using subst_one_end [of F R i "fst st" "snd st" found x s] Some y by simp
    then show ?thesis
      using eq Some y IH [of F R g i "(x\<lparr>ss_q := found + int (length R)\<rparr>, s)" r] by (auto split: if_splits)
  qed (use eq in auto)
qed

lemma subst_lines_end: "subst_lines n F R g i st = Some r \<Longrightarrow> 0 \<le> vend (snd st) \<Longrightarrow> 0 \<le> vend (snd r)"
proof (induction n arbitrary: i st)
  case (Suc n)
  obtain x s where st: "st = (x, s)" by (cases st)
  with Suc.prems obtain x1 s1 where l: "subst_line F R g i (x\<lparr>ss_ls := ss_q x\<rparr>, s) = Some (x1, s1)"
    by (auto split: option.splits)
  then have "0 \<le> vend s1" using subst_line_end [OF l] Suc.prems st by simp
  then show ?case
    using Suc.IH [of "i + 1" "(x1\<lparr>ss_q := next_line (tx s1) (ss_ls x1)\<rparr>, s1)"] Suc.prems l st by simp
qed simp

lemma vend_colon_substitute:
  assumes "colon_substitute l s = Some s'" and "0 \<le> vend s"
  shows "0 \<le> vend s'"
proof (rule ccontr)
  assume neg: "\<not> 0 \<le> vend s'"
  define tail where "tail F R g b k st =
      (case subst_lines k F R g b st of None \<Rightarrow> None
       | Some (x, s2) \<Rightarrow>
          bounded (if ss_subs x = 0 then status_line_bold ''No match'' s2
                   else if ss_subs x > 1
                   then status_line (dec (ss_subs x) @ '' substitutions on '' @ dec (ss_lines x) @ '' lines'')
                          (dot_skip_over_ws s2)
                   else dot_skip_over_ws s2))" for F R g b k st
  have t: "tail F R g b k st = Some s' \<Longrightarrow> 0 \<le> vend (snd st) \<Longrightarrow> False" for F R g b k st
    using neg by (auto simp: tail_def frame_simps bounded_end split: option.splits if_splits dest!: subst_lines_end)
  have b: "bounded x = Some s' \<Longrightarrow> 0 \<le> vend x \<Longrightarrow> False" for x
    using neg bounded_end by simp
  define w where "w = drop 2 (c_buf l)"
  define c where "c = hd0 (drop 1 (c_buf l))"
  define F0 where "F0 = takeWhile (\<lambda>d. d \<noteq> c) w"
  define w2 where "w2 = drop (length F0 + 1) w"
  define R where "R = takeWhile (\<lambda>d. d \<noteq> c) w2"
  define s1 where "s1 = (if F0 \<noteq> [] then s\<lparr>last_search_pattern := CHR ''/'' # F0\<rparr> else s)"
  define F where "F = (if F0 \<noteq> [] then F0 else drop 1 (last_search_pattern s1))"
  define q where "q = (if GOT_ADDRESS l then c_q l else begin_line (tx s1) (dot s1))"
  define e where "e = (if GOT_ADDRESS l then c_e l else count_lines (tx s1) 0 q)"
  define bb where "bb = (if GOT_ADDRESS l \<and> GOT_RANGE l then c_b l else e)"
  have s1: "vend s1 = vend s" by (simp add: s1_def)
  have "colon_substitute l s =
      (if c \<notin> set w then Some (status_line '':s expression missing delimiters'' s)
       else if length (last_search_pattern s1) < 2 then bounded (status_line_bold ''No previous search'' s1)
       else tail F R (hd0 (drop (length R + 1) w2) = CHR ''g'') bb (nat (e - bb + 1))
              (\<lparr>ss_ls = q, ss_q = q, ss_subs = 0, ss_last = 0, ss_lines = 0\<rparr>, s1))"
    unfolding colon_substitute_def Let_def tail_def w_def [symmetric] c_def [symmetric] F0_def [symmetric]
      w2_def [symmetric] R_def [symmetric] s1_def [symmetric] F_def [symmetric] q_def [symmetric]
      e_def [symmetric] bb_def [symmetric]
    by (auto split: option.split)
  then consider "s' = status_line '':s expression missing delimiters'' s"
    | "bounded (status_line_bold ''No previous search'' s1) = Some s'"
    | g k x where "tail F R g bb k (x, s1) = Some s'"
    using assms(1) by (auto split: if_splits)
  then show False
  proof cases
    case 1
    then show ?thesis using neg assms(2) by (simp add: frame_simps)
  next
    case 2
    have "0 \<le> vend (status_line_bold ''No previous search'' s1)"
      using assms(2) s1 by (simp add: frame_simps)
    with b [OF 2] show ?thesis .
  next
    case 3
    then show ?thesis using t assms(2) s1 by (metis snd_conv)
  qed
qed

lemma vend_colon: "colon w s = Some s' \<Longrightarrow> 0 \<le> vend s \<Longrightarrow> 0 \<le> vend s'"
proof -
  have b: "bounded x = Some y \<Longrightarrow> 0 \<le> vend x \<Longrightarrow> 0 \<le> vend y" for x y by (simp add: bounded_end)
  have d: "colon_dispatch l x = Some y \<Longrightarrow> 0 \<le> vend x \<Longrightarrow> 0 \<le> vend y" for l x y
    by (auto simp: colon_dispatch_def Let_def bind_eq_Some_conv frame_simps vend_colon_delete vend_colon_read
        split: if_splits dest!: b vend_colon_edit vend_colon_list vend_colon_substitute)
  have r: "colon_range v b e g x = Inl y \<Longrightarrow> ed y = ed x" for v b e g x y
    by (auto simp: colon_range_def Let_def frame_simps split: if_splits prod.splits)
  show "colon w s = Some s' \<Longrightarrow> 0 \<le> vend s \<Longrightarrow> 0 \<le> vend s'"
    by (auto simp: colon_def Let_def split: if_splits prod.splits option.splits sum.splits
        dest!: b d ed_get_address r)
qed

end
