(* ===== verification/Commands.thy ===== *)
theory Commands
  imports Motions Colon
begin

text \<open>
  Normal mode (\<open>vim_dcmd.c\<close>): the visual selection, and \<open>do_cmd\<close>, which executes one key. Each
  case of its switch is a definition here; a jump to one of the labels is a call of the
  definition that stands for it (\<open>dc_i\<close>, \<open>dc5\<close>, \<open>dc6\<close>), and the code after the switch is
  \<open>finish_cmd\<close>.

  \<open>do_cmd\<close> calls itself through \<open>find_range\<close>, but only on motion keys, none of which takes a
  range: \<open>do_cmd_with\<close> has the inner command as an argument, and one level of nesting is enough
  (theorem \<open>do_cmd_unfold\<close> gives back the recursive equation of the code).
\<close>

abbreviation key :: "char \<Rightarrow> int" where
  "key c \<equiv> of_char c"

subsection \<open>Labels\<close>

definition dc_i :: "vi \<Rightarrow> vi" where
  "dc_i s = commit (s\<lparr>cmd_mode := 1\<rparr>)"

definition dc5 :: "vi \<Rightarrow> vi" where
  "dc5 s = commit (s\<lparr>cmd_mode := 2\<rparr>)"

definition dc6 :: "vi \<Rightarrow> vi" where
  "dc6 s = end_cmd_q s"

definition with_dot :: "(ptr \<times> vi) option \<Rightarrow> vi option" where
  "with_dot r = map_option (\<lambda>(p, s). s\<lparr>dot := p\<rparr>) r"

definition begin_nonblank :: "vi \<Rightarrow> vi" where
  "begin_nonblank s = dot_skip_over_ws (dot_begin s)"

subsection \<open>Scrolling, lines and columns\<close>

text \<open>\<open>j\<close> and \<open>k\<close>: line by line, failing at the first line that cannot be left.\<close>

fun step_lines :: "nat \<Rightarrow> bool \<Rightarrow> ptr \<Rightarrow> vi \<Rightarrow> ptr option \<times> vi" where
  "step_lines 0 down q s = (Some q, s)"
| "step_lines (Suc n) down q s =
     (let t = tx s;
          p = (if down then next_line t q else prev_line t q)
      in if p = (if down then end_line t q else begin_line t q) then (None, s)
         else
           (let s1 = s\<lparr>cmdcnt := cmdcnt s - 1\<rparr>
            in if cmdcnt s1 > 0 then step_lines n down p s1 else (Some p, s1)))"

definition vertical :: "bool \<Rightarrow> bool \<Rightarrow> vi \<Rightarrow> vi option" where
  "vertical down to_text s =
     (case step_lines (Suc (nat (cmdcnt s))) down (dot s) s of
        (None, s1) \<Rightarrow> indicate_error s1
      | (Some q, s1) \<Rightarrow>
          (let s2 = s1\<lparr>dot := q\<rparr>
           in Some (if to_text then dot_skip_over_ws s2
                    else on_dsp (\<lambda>d. d\<lparr>keep_index := True\<rparr>)
                      (s2\<lparr>dot := (if cindex (dsp s2) = - 1 then end_line (tx s2) q
                                  else move_to_col (tabstop s2) (tx s2) q (cindex (dsp s2)))\<rparr>))))"

text \<open>\<open>$\<close>: the end of the line, \<open>cmdcnt - 1\<close> lines down.\<close>

fun line_ends :: "nat \<Rightarrow> vi \<Rightarrow> vi" where
  "line_ends 0 s = s"
| "line_ends (Suc n) s =
     (let s1 = s\<lparr>dot := end_line (tx s) (dot s), cmdcnt := cmdcnt s - 1\<rparr>
      in if cmdcnt s1 \<le> 0 then s1 else line_ends n (dot_next s1))"

definition cmd_dollar :: "vi \<Rightarrow> vi" where
  "cmd_dollar s =
     on_dsp (\<lambda>d. d\<lparr>cindex := - 1, keep_index := True\<rparr>) (line_ends (Suc (nat (cmdcnt s))) s)"

definition cmd_digit :: "int \<Rightarrow> vi \<Rightarrow> vi" where
  "cmd_digit c s =
     (if c = 48 \<and> cmdcnt s < 1 then dot_begin s else s\<lparr>cmdcnt := cmdcnt s * 10 + (c - 48)\<rparr>)"

text \<open>\<open>while (--cmdcnt > 0)\<close> around a movement of dot.\<close>

fun while_count :: "nat \<Rightarrow> (vi \<Rightarrow> vi) \<Rightarrow> vi \<Rightarrow> vi" where
  "while_count 0 f s = s"
| "while_count (Suc n) f s =
     (let s1 = s\<lparr>cmdcnt := cmdcnt s - 1\<rparr> in if cmdcnt s1 > 0 then while_count n f (f s1) else s1)"

definition clamp_count :: "vi \<Rightarrow> vi" where
  "clamp_count s = (if cmdcnt s > rows (dsp s) - 1 then s\<lparr>cmdcnt := rows (dsp s) - 1\<rparr> else s)"

definition cmd_high :: "vi \<Rightarrow> vi" where
  "cmd_high s =
     (let s1 = clamp_count (s\<lparr>dot := screenbegin (dsp s)\<rparr>)
      in begin_nonblank (while_count (Suc (nat (cmdcnt s1))) dot_next s1))"

definition cmd_low :: "vi \<Rightarrow> vi" where
  "cmd_low s =
     (let s1 = clamp_count (s\<lparr>dot := end_screen (tx s) (screenbegin (dsp s)) (rows (dsp s))\<rparr>)
      in begin_nonblank (while_count (Suc (nat (cmdcnt s1))) dot_prev s1))"

definition cmd_middle :: "vi \<Rightarrow> vi" where
  "cmd_middle s =
     dot_skip_over_ws
       (s\<lparr>dot := (next_line (tx s) ^^ nat ((rows (dsp s) - 1) div 2)) (screenbegin (dsp s))\<rparr>)"

definition cmd_goto_line :: "vi \<Rightarrow> vi" where
  "cmd_goto_line s =
     begin_nonblank (s\<lparr>dot := (if cmdcnt s > 0 then find_line (tx s) (cmdcnt s) else vend s - 1)\<rparr>)"

definition cmd_g :: "vi \<Rightarrow> vi option" where
  "cmd_g s =
     do {
       (c1, s1) \<leftarrow> getc s;
       Some (if c1 \<noteq> 103 then
               (not_implemented (cstr [CHR ''g'', if c1 \<ge> 0 then to_char c1 else CHR ''*'']) s1)\<lparr>cmd_error := True\<rparr>
             else cmd_goto_line (if cmdcnt s1 = 0 then s1\<lparr>cmdcnt := 1\<rparr> else s1))
     }"

definition cmd_z :: "vi \<Rightarrow> vi option" where
  "cmd_z s =
     do {
       (c1, s1) \<leftarrow> getc s;
       (let cnt = (if c1 = 46 then (rows (dsp s1) - 2) div 2 else if c1 = 45 then rows (dsp s1) - 2 else 0)
        in Some (dot_scroll cnt (- 1) (on_dsp (\<lambda>d. d\<lparr>screenbegin := begin_line (tx s1) (dot s1)\<rparr>) s1)))
     }"

subsection \<open>Words, characters, paragraphs\<close>

definition skip :: "int \<Rightarrow> bool \<Rightarrow> skip_type \<Rightarrow> vi \<Rightarrow> vi" where
  "skip n fwd ty s = s\<lparr>dot := skip_thing (tx s) (dot s) n fwd ty\<rparr>"

definition word_char :: "char \<Rightarrow> bool" where
  "word_char c \<longleftrightarrow> isalnum c \<or> c = CHR ''_''"

text \<open>\<open>B\<close>, \<open>E\<close> and \<open>W\<close>.\<close>

definition big_word :: "int \<Rightarrow> vi \<Rightarrow> vi" where
  "big_word c s =
     (let fwd = (c \<noteq> 66);
          s1 = (if c = 87 \<or> isspace (ch s (if fwd then dot s + 1 else dot s - 1))
                then skip 2 fwd S_OVER_WS (skip 1 fwd S_TO_WS s) else s)
      in if c \<noteq> 87 then skip 1 fwd S_BEFORE_WS s1 else s1)"

text \<open>\<open>b\<close> and \<open>e\<close>: the flag is false when the loop is left at the end of the text.\<close>

definition small_word :: "int \<Rightarrow> vi \<Rightarrow> bool \<times> vi" where
  "small_word c s =
     (let fwd = (c \<noteq> 98); p = (if fwd then dot s + 1 else dot s - 1)
      in if p < 0 \<or> p > vend s - 1 then (False, s)
         else
           (let s1 = s\<lparr>dot := p\<rparr>;
                s2 = (if isspace (ch s1 p) then skip (if c = 101 then 2 else 1) fwd S_OVER_WS s1 else s1);
                k = ch s2 (dot s2)
            in (True, if word_char k then skip 1 fwd S_END_ALNUM s2
                      else if ispunct k then skip 1 fwd S_END_PUNCT s2 else s2)))"

definition word_forward :: "vi \<Rightarrow> vi" where
  "word_forward s =
     (let k = ch s (dot s);
          s1 = (if word_char k then skip 1 True S_END_ALNUM s
                else if ispunct k then skip 1 True S_END_PUNCT s else s);
          s2 = (if dot s1 < vend s1 - 1 then s1\<lparr>dot := dot s1 + 1\<rparr> else s1)
      in if isspace (ch s2 (dot s2)) then skip 2 True S_OVER_WS s2 else s2)"

text \<open>One round of \<open>{\<close> or \<open>}\<close>: whether a paragraph boundary was found, and where dot stops.\<close>

function paragraph_scan :: "tbuf \<Rightarrow> bool \<Rightarrow> bool \<Rightarrow> ptr \<Rightarrow> bool \<times> ptr" where
  "paragraph_scan t fwd first p =
     (if (if fwd then p < tend t - 1 else p > 0) then
        (let p' = (if fwd then p + 1 else p - 1);
             empty = (mem t p = NL \<and> mem t p' = NL)
         in if empty \<and> \<not> first then (True, if fwd then p + 1 else p)
            else paragraph_scan t fwd (first \<and> empty) p')
      else (False, p))"
  by pat_completeness auto
termination
  by (relation "measure (\<lambda>(t, fwd, first, p). nat (if fwd then tend t - p else p))") (auto split: if_splits)

declare paragraph_scan.simps [simp del]

definition cmd_paragraph :: "int \<Rightarrow> vi \<Rightarrow> vi option" where
  "cmd_paragraph c s =
     map_option (\<lambda>(found, s1). if found then s1 else dc6 s1)
       (count_loop (\<lambda>s. case paragraph_scan (tx s) (c = 125) True (dot s) of
          (found, p) \<Rightarrow> Some (found, s\<lparr>dot := p\<rparr>)) s)"

text \<open>\<open>%\<close>: the first bracket from dot to the end of the line, and its partner.\<close>

function bracket_on_line :: "tbuf \<Rightarrow> ptr \<Rightarrow> ptr \<times> bool" where
  "bracket_on_line t q =
     (if q < tend t \<and> mem t q \<noteq> NL then
        if in_strchr ''()[]{}'' (cval (mem t q)) then (q, True) else bracket_on_line t (q + 1)
      else (q, False))"
  by pat_completeness auto
termination by (relation "measure (\<lambda>(t, q). nat (tend t - q))") auto

declare bracket_on_line.simps [simp del]

definition cmd_percent :: "vi \<Rightarrow> vi option" where
  "cmd_percent s =
     (case bracket_on_line (tx s) (dot s) of
        (q, found) \<Rightarrow>
          do {
            s1 \<leftarrow> (if found then
                     (case find_pair (tx s) q (ch s q) of
                        None \<Rightarrow> indicate_error s
                      | Some p \<Rightarrow> Some (s\<lparr>dot := p\<rparr>))
                   else Some s);
            (if ch s1 q = NL then indicate_error s1 else Some s1)
          })"

unbundle bit_operations_syntax

definition cmd_find_char :: "int \<Rightarrow> vi \<Rightarrow> vi option" where
  "cmd_find_char c s =
     do {
       s1 \<leftarrow> (if c = 59 \<or> c = 44 then Some s
              else map_option (\<lambda>(k, s1). s1\<lparr>last_search_char := k, last_search_cmd := c\<rparr>) (getc s));
       dot_to_char (if c \<noteq> 44 then last_search_cmd s1 else last_search_cmd s1 XOR 0x20) s1
     }"

subsection \<open>Searching\<close>

definition search_round :: "bool \<Rightarrow> vi \<Rightarrow> vi" where
  "search_round fwd s =
     (let t = tx s; pat = drop 1 (last_search_pattern s);
          find = (\<lambda>p. char_search (ignorecase s) t p pat fwd True)
      in case find (if fwd then dot s + 1 else dot s - 1) of
           Some q \<Rightarrow> s\<lparr>dot := q\<rparr>
         | None \<Rightarrow>
             (case find (if fwd then 0 else tend t - 1) of
                Some q \<Rightarrow>
                  status_line_bold (if fwd then ''search hit BOTTOM, continuing at TOP''
                                    else ''search hit TOP, continuing at BOTTOM'') (s\<lparr>dot := q\<rparr>)
              | None \<Rightarrow> status_line_bold ''Pattern not found'' (s\<lparr>cmdcnt := 0\<rparr>)))"

definition search_next :: "bool \<Rightarrow> vi \<Rightarrow> vi option" where
  "search_next fwd s =
     (if length (last_search_pattern s) < 2 then Some (status_line_bold ''No previous search'' s)
      else count_pure (search_round fwd) s)"

definition cmd_search :: "int \<Rightarrow> vi \<Rightarrow> vi option" where
  "cmd_search c s =
     (if c = 78 then search_next (hd0 (last_search_pattern s) \<noteq> CHR ''/'') s
      else if c = 110 then search_next (hd0 (last_search_pattern s) = CHR ''/'') s
      else
        do {
          (w, s1) \<leftarrow> get_input_line [to_char c] s;
          (if w = [] then Some s1
           else
             (let pat = last_search_pattern s1;
                  s2 = (if length w = 1 then
                          (if pat \<noteq> [] then s1\<lparr>last_search_pattern := to_char c # tl pat\<rparr> else s1)
                        else s1\<lparr>last_search_pattern := w\<rparr>)
              in search_next (hd0 (last_search_pattern s2) = CHR ''/'') s2))
        })"

subsection \<open>Registers and marks\<close>

definition letter_of :: "int \<Rightarrow> int" where
  "letter_of c = (c OR 0x20) - 97"

definition cmd_name_register :: "vi \<Rightarrow> vi option" where
  "cmd_name_register s =
     do {
       (c, s1) \<leftarrow> getc s;
       (let k = letter_of c in if 0 \<le> k \<and> k \<le> 25 then Some (s1\<lparr>YDreg := nat k\<rparr>) else indicate_error s1)
     }"

definition cmd_set_mark :: "vi \<Rightarrow> vi option" where
  "cmd_set_mark s =
     do {
       (c, s1) \<leftarrow> getc s;
       (let k = letter_of c
        in if 0 \<le> k \<and> k \<le> 25 then Some (s1\<lparr>marks := (marks s1)(nat k := Some (dot s1))\<rparr>)
           else indicate_error s1)
     }"

text \<open>The result's first component is \<open>orig_dot\<close>, which the jump to the other context updates.\<close>

definition cmd_goto_mark :: "ptr \<Rightarrow> vi \<Rightarrow> (ptr \<times> vi) option" where
  "cmd_goto_mark orig s =
     do {
       (c, s1) \<leftarrow> getc s;
       (let k = letter_of c
        in if 0 \<le> k \<and> k \<le> 25 then
             (case marks s1 (nat k) of
                Some q \<Rightarrow> if 0 \<le> q \<and> q < vend s1 then Some (orig, begin_nonblank (s1\<lparr>dot := q\<rparr>))
                          else map_option (\<lambda>s2. (orig, s2)) (indicate_error s1)
              | None \<Rightarrow> map_option (\<lambda>s2. (orig, s2)) (indicate_error s1))
           else if c OR 0x20 = 39 then
             (case swap_context (dot s1) s1 of
                (p, s2) \<Rightarrow> (let s3 = begin_nonblank (s2\<lparr>dot := p\<rparr>) in Some (dot s3, s3)))
           else map_option (\<lambda>s2. (orig, s2)) (indicate_error s1))
     }"

text \<open>The insertions of a put: all at dot, chained after the first.\<close>

fun put_rounds :: "nat \<Rightarrow> string \<Rightarrow> undo_mode \<Rightarrow> vi \<Rightarrow> vi" where
  "put_rounds 0 p m s = s"
| "put_rounds (Suc n) p m s =
     (let s1 = on_ed (\<lambda>u. string_insert u (dot s) p m) s;
          s2 = s1\<lparr>cmdcnt := cmdcnt s1 - 1\<rparr>
      in if cmdcnt s2 > 0 then put_rounds n p ALLOW_UNDO_CHAIN s2 else s2)"

definition cmd_put :: "int \<Rightarrow> vi \<Rightarrow> vi" where
  "cmd_put c s =
     (case regs s (YDreg s) of
        None \<Rightarrow> status_line_bold (''Nothing in register '' @ [what_reg s]) s
      | Some (a, p) \<Rightarrow>
          (let i = (if cmdcnt s \<noteq> 0 then cmdcnt s else 1);
               whole = (regtype s (YDreg s) = WHOLE);
               s1 = (if whole then
                       (if c = 80 then dot_begin s
                        else if end_line (tx s) (dot s) = vend s - 1 then s\<lparr>dot := vend s\<rparr>
                        else dot_next s)
                     else (if c = 112 then dot_right s else s));
               cnt = (if \<not> whole \<and> NL \<notin> set p then i * int (length p) - 1 else 0);
               s2 = put_rounds (Suc (nat (cmdcnt s1))) p ALLOW_UNDO s1;
               s3 = dot_skip_over_ws (s2\<lparr>dot := dot s2 + cnt\<rparr>)
           in end_cmd_q (yank_status ''Put'' p i s3)))"

definition cmd_undo_line :: "vi \<Rightarrow> vi" where
  "cmd_undo_line s =
     (case regs s 27 of
        None \<Rightarrow> s
      | Some (a, w) \<Rightarrow>
          (case hole_delete (begin_line (tx s) (dot s)) (end_line (tx s) (dot s)) ALLOW_UNDO s of
             (p, s1) \<Rightarrow>
               (let s2 = on_ed (\<lambda>u. string_insert u p w ALLOW_UNDO_CHAIN) s1
                in yank_status ''Undo'' w 1 (dot_skip_over_ws (s2\<lparr>dot := p\<rparr>)))))"

definition cmd_repeat :: "vi \<Rightarrow> vi" where
  "cmd_repeat s =
     (if last_modifying_cmd (kbd s) = [] then s
      else on_kbd (\<lambda>k.
        (let n = (if cmdcnt s \<noteq> 0 then cmdcnt s else dotcnt k)
         in k\<lparr>dotcnt := n, ioq := Some (dec n @ cstr (last_modifying_cmd k))\<rparr>)) s)"


subsection \<open>Deleting, changing, shifting\<close>

definition delete_to :: "ptr \<Rightarrow> ptr \<Rightarrow> buftype \<Rightarrow> bool \<Rightarrow> undo_mode \<Rightarrow> vi \<Rightarrow> vi" where
  "delete_to p q ty del undo s = (case yank_delete p q ty del undo s of (d, s1) \<Rightarrow> s1\<lparr>dot := d\<rparr>)"

definition cmd_to_eol :: "int \<Rightarrow> vi \<Rightarrow> vi" where
  "cmd_to_eol c s =
     (let s1 = delete_to (dot s) (dollar_line (tx s) (dot s)) PARTIAL True ALLOW_UNDO s
      in if c = 67 then dc_i s1 else end_cmd_q s1)"

text \<open>\<open>X\<close>, \<open>x\<close> and \<open>s\<close>.\<close>

fun delete_rounds :: "nat \<Rightarrow> bool \<Rightarrow> undo_mode \<Rightarrow> vi \<Rightarrow> vi" where
  "delete_rounds 0 back m s = s"
| "delete_rounds (Suc n) back m s =
     (let p = (if back then dot s - 1 else dot s);
          hit = (ch s p \<noteq> NL);
          s1 = (if hit then delete_to p p PARTIAL True m s else s);
          s2 = s1\<lparr>cmdcnt := cmdcnt s1 - 1\<rparr>
      in if cmdcnt s2 > 0 then delete_rounds n back (if hit then ALLOW_UNDO_CHAIN else m) s2 else s2)"

definition cmd_delete_char :: "int \<Rightarrow> vi \<Rightarrow> vi" where
  "cmd_delete_char c s =
     (let s1 = end_cmd_q (delete_rounds (Suc (nat (cmdcnt s))) (c = 88) ALLOW_UNDO s)
      in if c = 115 then dc_i s1 else s1)"

definition cmd_delete_key :: "vi \<Rightarrow> vi" where
  "cmd_delete_key s =
     (if dot s < vend s - 1 then delete_to (dot s) (dot s) PARTIAL True ALLOW_UNDO s else s)"

text \<open>
  \<open>J\<close>: the blanks after the join are deleted while there are any. When the text ends in them the
  byte past the end is still a blank and the deletion is refused, so the loop does not end.
\<close>

partial_function (option) join_blanks :: "vi \<Rightarrow> vi option" where
  "join_blanks s =
     (if isblank (ch s (dot s)) then join_blanks (snd (hole_delete (dot s) (dot s) ALLOW_UNDO_CHAIN s))
      else Some s)"

declare join_blanks.simps [code]

definition join_once :: "vi \<Rightarrow> vi option" where
  "join_once s0 =
     (let s = dot_end s0; p = dot s
      in if p < vend s - 1 then
           join_blanks ((on_ed (\<lambda>u. overwrite_logged u p (CHR '' '') UNDO_DEL) s)\<lparr>dot := p + 1\<rparr>)
         else Some s)"

definition cmd_join :: "vi \<Rightarrow> vi option" where
  "cmd_join s =
     map_option (\<lambda>(b, s1). end_cmd_q s1)
       (count_loop (\<lambda>s. map_option (\<lambda>s1. (True, s1)) (join_once s)) s)"

text \<open>\<open>~\<close>: the first change starts a new undo group.\<close>

definition flip :: "char \<Rightarrow> char" where
  "flip c = (if islower c then toupper c else tolower c)"

fun flip_rounds :: "nat \<Rightarrow> utype \<Rightarrow> vi \<Rightarrow> vi" where
  "flip_rounds 0 ty s = s"
| "flip_rounds (Suc n) ty s =
     (let hit = isalpha (ch s (dot s));
          s1 = dot_right (if hit then on_ed (\<lambda>u. overwrite_logged u (dot s) (flip (ch s (dot s))) ty) s else s);
          s2 = s1\<lparr>cmdcnt := cmdcnt s1 - 1\<rparr>
      in if cmdcnt s2 > 0 then flip_rounds n (if hit then UNDO_DEL_CHAIN else ty) s2 else s2)"

definition cmd_flip :: "vi \<Rightarrow> vi" where
  "cmd_flip s = end_cmd_q (flip_rounds (Suc (nat (cmdcnt s))) UNDO_DEL s)"

fun replace_rounds :: "nat \<Rightarrow> char \<Rightarrow> undo_mode \<Rightarrow> vi \<Rightarrow> vi option" where
  "replace_rounds 0 c m s = Some s"
| "replace_rounds (Suc n) c m s =
     (case hole_delete (dot s) (dot s) m s of
        (p, s1) \<Rightarrow>
          do {
            (p1, s2) \<leftarrow> char_insert p c ALLOW_UNDO_CHAIN (s1\<lparr>dot := p\<rparr>);
            (let s3 = s2\<lparr>dot := p1, cmdcnt := cmdcnt s2 - 1\<rparr>
             in if cmdcnt s3 > 0 then replace_rounds n c ALLOW_UNDO_CHAIN s3 else Some s3)
          })"

definition cmd_replace_char :: "vi \<Rightarrow> vi option" where
  "cmd_replace_char s =
     do {
       (c1, s1) \<leftarrow> getc s;
       (if c1 = 27 then Some (end_cmd_q s1)
        else if end_line (tx s1) (dot s1) - dot s1 < (if cmdcnt s1 \<noteq> 0 then cmdcnt s1 else 1) then
          map_option dc6 (indicate_error s1)
        else
          map_option (\<lambda>s2. end_cmd_q (dot_left s2))
            (replace_rounds (Suc (nat (cmdcnt s1))) (to_char c1) ALLOW_UNDO s1))
     }"

definition cmd_open :: "int \<Rightarrow> vi \<Rightarrow> vi option" where
  "cmd_open c s =
     (let s1 = (if c = 79 then (dot_begin s)\<lparr>indentcol := - 1\<rparr> else dot_end s)
      in map_option (\<lambda>s2. dc_i (if c = 79 \<and> \<not> autoindent s2 then dot_prev s2 else s2))
           (with_dot (char_insert (dot s1) NL ALLOW_UNDO s1)))"

definition cmd_append :: "vi \<Rightarrow> vi" where
  "cmd_append s = dc_i (if ch s (dot s) \<noteq> NL then s\<lparr>dot := dot s + 1\<rparr> else s)"

text \<open>
  Shifting one line left: a tab, or up to \<open>tabstop\<close> spaces. \<open>upd\<close> says whether the pointer follows
  what \<open>text_hole_delete\<close> returns (it does in visual mode). The result is the pointer, the undo
  mode for the next deletion and the state.
\<close>

fun shift_spaces :: "nat \<Rightarrow> bool \<Rightarrow> ptr \<Rightarrow> undo_mode \<Rightarrow> vi \<Rightarrow> ptr \<times> vi" where
  "shift_spaces 0 upd p m s = (p, s)"
| "shift_spaces (Suc n) upd p m s =
     (if ch s p = CHR '' '' then
        (case hole_delete p p m s of
           (d, s1) \<Rightarrow> shift_spaces n upd (if upd then d else p) ALLOW_UNDO_CHAIN s1)
      else (p, s))"

definition shift_left :: "bool \<Rightarrow> ptr \<Rightarrow> undo_mode \<Rightarrow> vi \<Rightarrow> ptr \<times> vi" where
  "shift_left upd p m s =
     (if ch s p = TAB then
        (case hole_delete p p m s of (d, s1) \<Rightarrow> (if upd then d else p, s1))
      else if ch s p = CHR '' '' then shift_spaces (nat (tabstop s)) upd p m s
      else (p, s))"

definition shift_right :: "bool \<Rightarrow> ptr \<Rightarrow> undo_mode \<Rightarrow> vi \<Rightarrow> (ptr \<times> vi) option" where
  "shift_right upd p m s =
     (if p \<noteq> end_line (tx s) p then
        map_option (\<lambda>(d, s1). (if upd then d else p, s1)) (char_insert p TAB m s)
      else Some (p, s))"

fun shift_lines :: "nat \<Rightarrow> bool \<Rightarrow> bool \<Rightarrow> ptr \<Rightarrow> undo_mode \<Rightarrow> vi \<Rightarrow> vi option" where
  "shift_lines 0 left upd p m s = Some s"
| "shift_lines (Suc n) left upd p m s =
     (case (if left then Some (shift_left upd p m s) else shift_right upd p m s) of
        None \<Rightarrow> None
      | Some (p1, s1) \<Rightarrow> shift_lines n left upd (next_line (tx s1) p1) ALLOW_UNDO_CHAIN s1)"

text \<open>
  \<open><\<close> and \<open>>\<close>. The line being shifted is an offset here; the code ignores the pointer that \<open>char_insert\<close>
  returns, so that after an insertion that moves the block its \<open>p\<close> still points into the old one.
\<close>

definition cmd_shift :: "(int \<Rightarrow> vi \<Rightarrow> vi option) \<Rightarrow> int \<Rightarrow> vi \<Rightarrow> vi option" where
  "cmd_shift inner c s =
     (let cnt = count_lines (tx s) 0 (dot s)
      in do {
           (r, s1) \<leftarrow> find_range inner c s;
           (case r of
              None \<Rightarrow> Some (dc6 s1)
            | Some (ty, p, q) \<Rightarrow>
                map_option (\<lambda>s2. end_cmd_q (dot_skip_over_ws (s2\<lparr>dot := find_line (tx s2) cnt\<rparr>)))
                  (shift_lines (nat (count_lines (tx s1) p q)) (c = 60) False
                     (begin_line (tx s1) p) ALLOW_UNDO s1))
         })"

definition reg_id :: "vi \<Rightarrow> nat option" where
  "reg_id s = map_option fst (regs s (YDreg s))"

definition reg_text :: "vi \<Rightarrow> string" where
  "reg_text s = (case regs s (YDreg s) of Some (a, w) \<Rightarrow> w | None \<Rightarrow> [])"

text \<open>\<open>c\<close>, \<open>d\<close>, \<open>y\<close> and \<open>Y\<close>.\<close>

definition after_whole :: "int \<Rightarrow> ptr \<Rightarrow> vi \<Rightarrow> vi option" where
  "after_whole c save_dot s =
     (if c = 99 then
        map_option (\<lambda>s1. if dot s1 \<noteq> vend s1 - 1 then dot_prev s1 else s1)
          (with_dot (char_insert (dot s) NL ALLOW_UNDO_CHAIN s))
      else if c = 100 then Some (begin_nonblank s)
      else Some (s\<lparr>dot := save_dot\<rparr>))"

definition cmd_operate :: "(int \<Rightarrow> vi \<Rightarrow> vi option) \<Rightarrow> int \<Rightarrow> vi \<Rightarrow> vi option" where
  "cmd_operate inner c s =
     (let savereg = reg_id s; del = (c \<noteq> 121 \<and> c \<noteq> 89)
      in do {
           (r, s1) \<leftarrow> find_range inner c s;
           (case r of
              None \<Rightarrow> Some (dc6 s1)
            | Some (ty, p, q) \<Rightarrow>
                (let p1 = (if ty = WHOLE then begin_line (tx s1) p else p);
                     q1 = (if ty = WHOLE then end_line (tx s1) q else q);
                     s2 = delete_to p1 q1 ty del ALLOW_UNDO s1
                 in do {
                      s3 \<leftarrow> (if ty = WHOLE then after_whole c p s2 else Some s2);
                      (if c = 99 then Some (dc_i s3)
                       else Some (end_cmd_q (if reg_id s3 \<noteq> savereg
                              then yank_status (if c = 100 then ''Delete'' else ''Yank'') (reg_text s3) 1 s3
                              else s3)))
                    }))
         })"

subsection \<open>Leaving\<close>

definition cmd_ZZ :: "vi \<Rightarrow> vi option" where
  "cmd_ZZ s =
     do {
       (c1, s1) \<leftarrow> getc s;
       (if c1 \<noteq> 90 then indicate_error s1
        else
          (let s2 = (if modified_count (ed s1) \<noteq> 0 then
                       (case file_write (current_filename s1) 0 (vend s1 - 1) s1 of
                          (cnt, s') \<Rightarrow>
                            if cnt < 0 then
                              (if cnt = - 1 then status_line_bold (''Write error: '' @ errno_text (fsys s')) s' else s')
                            else if cnt = vend s1 then s'\<lparr>editing := 0\<rparr> else s')
                     else s1\<lparr>editing := 0\<rparr>);
               j = argc s2 - vi_optind s2 - 1
           in Some (if editing s2 = 0 \<and> j > 0 then
                      status_line_bold (more_files j)
                        (on_dsp (\<lambda>d. d\<lparr>last_modified_count := - 1\<rparr>)
                          (on_ed (\<lambda>u. u\<lparr>modified_count := 0\<rparr>) (s2\<lparr>editing := 1\<rparr>)))
                    else s2)))
     }"

subsection \<open>The visual selection\<close>

definition is_visual_motion :: "int \<Rightarrow> bool" where
  "is_visual_motion c \<longleftrightarrow>
     c \<in> set [KEYCODE_UP, KEYCODE_DOWN, KEYCODE_LEFT, KEYCODE_RIGHT, KEYCODE_HOME, KEYCODE_END,
             KEYCODE_PAGEUP, KEYCODE_PAGEDOWN, 2, 4, 5, 6, 8, 127, 12, 18, 21, 25] \<or>
     (c > 0 \<and> in_strchr (''hjkl '' @ [CHR 0x0D, CHR 0x0A] @ ''+-0$^%|wWbBeE{}gGHLMfFtT;,/?nNz'' @
        [CHR 0x22] @ ''123456789'') c)"

definition visual_shift :: "int \<Rightarrow> ptr \<Rightarrow> ptr \<Rightarrow> vi \<Rightarrow> vi option" where
  "visual_shift c lo hi s =
     (let li = count_lines (tx s) 0 lo; nlines = count_lines (tx s) lo hi
      in map_option (\<lambda>s1. dot_skip_over_ws (s1\<lparr>dot := find_line (tx s1) li\<rparr>))
           (shift_lines (nat nlines) (c = 60) True (begin_line (tx s) lo) ALLOW_UNDO s))"

definition visual_yank :: "int \<Rightarrow> ptr \<Rightarrow> ptr \<Rightarrow> vi \<Rightarrow> vi option" where
  "visual_yank c lo hi s =
     (let linewise = (c = 88 \<or> c = 89 \<or> c = 68 \<or> c = 67);
          yank = (c = 121 \<or> c = 89);
          ty = (if linewise then WHOLE
                else if begin_line (tx s) lo = begin_line (tx s) hi then PARTIAL else MULTI);
          savereg = reg_id s;
          s1 = delete_to lo hi ty (\<not> yank) ALLOW_UNDO s
      in do {
           s2 \<leftarrow> (if linewise then
                    (if c = 67 then
                       map_option (\<lambda>s'. if dot s' \<noteq> vend s' - 1 then dot_prev s' else s')
                         (with_dot (char_insert (dot s1) NL ALLOW_UNDO_CHAIN s1))
                     else Some (begin_nonblank s1))
                  else Some s1);
           (let s3 = (if reg_id s2 \<noteq> savereg
                      then yank_status (if yank then ''Yank'' else ''Delete'') (reg_text s2) 1 s2 else s2)
            in Some (if c = 99 \<or> c = 67 then commit (s3\<lparr>cmd_mode := 1\<rparr>) else s3))
         })"

definition visual_operate :: "int \<Rightarrow> vi \<Rightarrow> vi option" where
  "visual_operate c s =
     (let a = anchor_of s;
          lo0 = min a (dot s); hi0 = max a (dot s);
          lo = (if lo0 < 0 then 0 else lo0);
          hi = (if hi0 > vend s - 1 then vend s - 1 else hi0);
          s1 = force_status (s\<lparr>vi_visual := False\<rparr>)
      in map_option end_cmd_q
           (if c = 62 \<or> c = 60 then visual_shift c lo hi s1 else visual_yank c lo hi s1))"

subsection \<open>The dispatch\<close>

definition cmd_colon :: "vi \<Rightarrow> vi option" where
  "cmd_colon s =
     do {
       (w, s1) \<leftarrow> get_input_line '':'' s;
       s2 \<leftarrow> colon w s1;
       show_status_line s2
     }"

definition cmd_escape :: "vi \<Rightarrow> vi option" where
  "cmd_escape s =
     map_option (\<lambda>s1. force_status (end_cmd_q (commit (s1\<lparr>cmd_mode := 0\<rparr>))))
       (if cmd_mode s = 0 then indicate_error s else Some s)"

text \<open>The switch; the result's first component is \<open>orig_dot\<close>.\<close>

definition simple_cmd :: "(int \<Rightarrow> vi \<Rightarrow> vi option) \<Rightarrow> int \<Rightarrow> vi \<Rightarrow> vi option" where
  "simple_cmd inner c s =
     (let r = rows (dsp s) in
      if c = 0 then Some s
      else if c = 2 \<or> c = KEYCODE_PAGEUP then Some (dot_scroll (r - 2) (- 1) s)
      else if c = 4 then Some (dot_scroll ((r - 2) div 2) 1 s)
      else if c = 5 then Some (dot_scroll 1 1 s)
      else if c = 6 \<or> c = KEYCODE_PAGEDOWN then Some (dot_scroll (r - 2) 1 s)
      else if c = 7 then Some (force_status s)
      else if c = key CHR ''h'' \<or> c = KEYCODE_LEFT \<or> c = 8 \<or> c = 127 then count_pure dot_left s
      else if c = 10 \<or> c = key CHR ''j'' \<or> c = KEYCODE_DOWN then vertical True False s
      else if c = 13 \<or> c = key CHR ''+'' then vertical True True s
      else if c = 12 \<or> c = 18 then redraw True s
      else if c = 21 then Some (dot_scroll ((r - 2) div 2) (- 1) s)
      else if c = 25 then Some (dot_scroll 1 (- 1) s)
      else if c = 27 then cmd_escape s
      else if c = 32 \<or> c = key CHR ''l'' \<or> c = KEYCODE_RIGHT then count_pure dot_right s
      else if c = 34 then cmd_name_register s
      else if c = key CHR ''m'' then cmd_set_mark s
      else if c = key CHR ''P'' \<or> c = key CHR ''p'' then Some (cmd_put c s)
      else if c = key CHR ''U'' then Some (cmd_undo_line s)
      else if c = key CHR ''u'' then Some (undo_pop s)
      else if c = key CHR ''v'' then Some (force_status (s\<lparr>vi_visual := True, vi_visual_anchor := Some (dot s)\<rparr>))
      else if c = key CHR ''$'' \<or> c = KEYCODE_END then Some (cmd_dollar s)
      else if c = key CHR ''%'' then cmd_percent s
      else if c \<in> set (map key ''fFtT;,'') then cmd_find_char c s
      else if c = key CHR ''.'' then Some (cmd_repeat s)
      else if c \<in> set (map key ''N?/n'') then cmd_search c s
      else if c = key CHR ''{'' \<or> c = key CHR ''}'' then cmd_paragraph c s
      else if key_isdigit c then Some (cmd_digit c s)
      else if c = key CHR '':'' then cmd_colon s
      else if c = key CHR ''<'' \<or> c = key CHR ''>'' then cmd_shift inner c s
      else if c = key CHR ''A'' then Some (cmd_append (dot_end s))
      else if c = key CHR ''a'' then Some (cmd_append s)
      else if c \<in> set (map key ''BEW'') then count_pure (big_word c) s
      else if c = key CHR ''C'' \<or> c = key CHR ''D'' then Some (cmd_to_eol c s)
      else if c = key CHR ''g'' then cmd_g s
      else if c = key CHR ''G'' then Some (cmd_goto_line s)
      else if c = key CHR ''H'' then Some (cmd_high s)
      else if c = key CHR ''I'' then Some (dc_i (begin_nonblank s))
      else if c = key CHR ''i'' \<or> c = KEYCODE_INSERT then Some (dc_i s)
      else if c = key CHR ''J'' then cmd_join s
      else if c = key CHR ''L'' then Some (cmd_low s)
      else if c = key CHR ''M'' then Some (cmd_middle s)
      else if c = key CHR ''O'' \<or> c = key CHR ''o'' then cmd_open c s
      else if c = key CHR ''R'' then Some (dc5 s)
      else if c = KEYCODE_DELETE then Some (cmd_delete_key s)
      else if c \<in> set (map key ''Xxs'') then Some (cmd_delete_char c s)
      else if c = key CHR ''Z'' then cmd_ZZ s
      else if c = key CHR ''^'' then Some (begin_nonblank s)
      else if c = key CHR ''b'' \<or> c = key CHR ''e'' then
        map_option snd (count_loop (\<lambda>s. Some (small_word c s)) s)
      else if c \<in> set (map key ''cdyY'') then cmd_operate inner c s
      else if c = key CHR ''k'' \<or> c = KEYCODE_UP then vertical False False s
      else if c = key CHR ''-'' then vertical False True s
      else if c = key CHR ''r'' then cmd_replace_char s
      else if c = key CHR ''w'' then count_pure word_forward s
      else if c = key CHR ''z'' then cmd_z s
      else if c = key CHR ''|'' then
        Some (s\<lparr>dot := move_to_col (tabstop s) (tx s) (dot s) (cmdcnt s - 1)\<rparr>)
      else if c = key CHR ''~'' then Some (cmd_flip s)
      else if c = KEYCODE_HOME then Some (dot_begin s)
      else Some (end_cmd_q (not_implemented (cstr [to_char c]) s)))"

definition switch_cmd :: "(int \<Rightarrow> vi \<Rightarrow> vi option) \<Rightarrow> int \<Rightarrow> ptr \<Rightarrow> vi \<Rightarrow> (ptr \<times> vi) option" where
  "switch_cmd inner c orig s =
     (if c = 39 then cmd_goto_mark orig s else map_option (\<lambda>s1. (orig, s1)) (simple_cmd inner c s))"

text \<open>Label \<open>key_cmd_mode\<close>: a pending selection comes first.\<close>

definition key_cmd_mode :: "(int \<Rightarrow> vi \<Rightarrow> vi option) \<Rightarrow> int \<Rightarrow> ptr \<Rightarrow> vi \<Rightarrow> (ptr \<times> vi) option" where
  "key_cmd_mode inner c orig s =
     (if vi_visual s \<and> cmd_mode s = 0 then
        if c = 27 \<or> c = 118 then Some (orig, force_status (end_cmd_q (s\<lparr>vi_visual := False\<rparr>)))
        else if c = KEYCODE_DELETE \<or> (c > 0 \<and> in_strchr ''yYdDxXcC><'' c) then
          map_option (\<lambda>s1. (orig, s1)) (visual_operate c s)
        else
          switch_cmd inner c orig
            (if is_visual_motion c then s else force_status (s\<lparr>vi_visual := False\<rparr>))
      else switch_cmd inner c orig s)"

definition insert_key :: "int \<Rightarrow> vi \<Rightarrow> vi option" where
  "insert_key c s =
     (if c = KEYCODE_INSERT then Some (dc5 s)
      else if c \<ge> 1 then with_dot (char_insert (dot s) (to_char c) ALLOW_UNDO_QUEUED s)
      else Some s)"

definition replace_key :: "int \<Rightarrow> vi \<Rightarrow> vi option" where
  "replace_key c s =
     (if c \<ge> 1 then
        (let s1 = (if c \<noteq> 27 then delete_to (dot s) (dot s) PARTIAL True ALLOW_UNDO s else s)
         in with_dot (char_insert (dot s1) (to_char c) ALLOW_UNDO_CHAIN s1))
      else Some s)"

definition is_cursor_key :: "int \<Rightarrow> bool" where
  "is_cursor_key c \<longleftrightarrow>
     c \<in> set [KEYCODE_UP, KEYCODE_DOWN, KEYCODE_LEFT, KEYCODE_RIGHT, KEYCODE_HOME, KEYCODE_END,
             KEYCODE_PAGEUP, KEYCODE_PAGEDOWN, KEYCODE_DELETE]"

definition mode_cmd :: "(int \<Rightarrow> vi \<Rightarrow> vi option) \<Rightarrow> int \<Rightarrow> vi \<Rightarrow> (ptr \<times> vi) option" where
  "mode_cmd inner c s =
     (let orig = dot s; keep = map_option (\<lambda>s1. (orig, s1))
      in if is_cursor_key c then key_cmd_mode inner c orig s
         else if cmd_mode s = 2 then
           if c = KEYCODE_INSERT then Some (orig, dc_i s)
           else if ch s (dot s) = NL then keep (insert_key c (commit (s\<lparr>cmd_mode := 1\<rparr>)))
           else keep (replace_key c s)
         else if cmd_mode s = 1 then keep (insert_key c s)
         else key_cmd_mode inner c orig s)"

text \<open>Label \<open>dc1\<close> to the end.\<close>

definition finish_cmd :: "int \<Rightarrow> ptr \<Rightarrow> vi \<Rightarrow> vi option" where
  "finish_cmd c orig s =
     do {
       s1 \<leftarrow> (if vend s = 0 then
                map_option (\<lambda>(p, s'). s'\<lparr>dot := 0\<rparr>) (char_insert 0 NL NO_UNDO s)
              else Some s);
       s2 \<leftarrow> (if dot s1 \<noteq> vend s1 then with_dot (bound_dot (dot s1) s1) else Some s1);
       (let s3 = (if dot s2 \<noteq> orig then check_context c s2 else s2);
            s4 = (if \<not> key_isdigit c then s3\<lparr>cmdcnt := 0\<rparr> else s3);
            cnt = dot s4 - begin_line (tx s4) (dot s4)
        in Some (if ch s4 (dot s4) = NL \<and> cnt > 0 \<and> cmd_mode s4 = 0 then s4\<lparr>dot := dot s4 - 1\<rparr> else s4))
     }"

definition do_cmd_with :: "(int \<Rightarrow> vi \<Rightarrow> vi option) \<Rightarrow> int \<Rightarrow> vi \<Rightarrow> vi option" where
  "do_cmd_with inner c s =
     do {
       s1 \<leftarrow> show_status_line (on_dsp (\<lambda>d. d\<lparr>keep_index := False\<rparr>) (s\<lparr>cmd_error := False\<rparr>));
       (orig, s2) \<leftarrow> mode_cmd inner c s1;
       finish_cmd c orig s2
     }"

definition do_cmd :: "int \<Rightarrow> vi \<Rightarrow> vi option" where
  "do_cmd = do_cmd_with (do_cmd_with (\<lambda>_ _. None))"


subsection \<open>The commands keep the end of the text at or after its start\<close>

lemma vend_labels [simp]:
  "vend (dc_i s) = vend s" "vend (dc5 s) = vend s" "vend (dc6 s) = vend s" "vend (begin_nonblank s) = vend s"
  by (simp_all add: dc_i_def dc5_def dc6_def begin_nonblank_def frame_simps)

lemma with_dot_end: "with_dot r = Some s' \<Longrightarrow> \<exists>p s. r = Some (p, s) \<and> vend s' = vend s"
  by (auto simp: with_dot_def)

lemma vertical_end: "vertical d b s = Some s' \<Longrightarrow> vend s' = vend s"
proof -
  have e: "step_lines n d q s = (r, s1) \<Longrightarrow> ed s1 = ed s" for n q s r s1
    by (induction n arbitrary: q s) (auto simp: Let_def split: if_splits)
  show "vertical d b s = Some s' \<Longrightarrow> vend s' = vend s"
    by (auto simp: vertical_def Let_def frame_simps keeps_end_shown split: prod.splits option.splits if_splits
        dest!: e simp del: step_lines.simps)
qed

lemma line_ends_end: "vend (line_ends n s) = vend s"
  by (induction n arbitrary: s) (simp_all add: Let_def frame_simps)

lemma while_count_end: "(\<And>s. vend (f s) = vend s) \<Longrightarrow> vend (while_count n f s) = vend s"
  by (induction n arbitrary: s) (simp_all add: Let_def)

lemma vend_movements [simp]:
  "vend (cmd_dollar s) = vend s" "vend (cmd_digit c s) = vend s" "vend (cmd_high s) = vend s"
  "vend (cmd_low s) = vend s" "vend (cmd_middle s) = vend s" "vend (cmd_goto_line s) = vend s"
  "vend (skip n fwd ty s) = vend s" "vend (big_word c s) = vend s" "vend (word_forward s) = vend s"
  "vend (cmd_append s) = vend s"
  by (simp_all add: cmd_dollar_def cmd_digit_def cmd_high_def cmd_low_def cmd_middle_def clamp_count_def
      cmd_goto_line_def skip_def big_word_def word_forward_def cmd_append_def line_ends_end while_count_end
      Let_def frame_simps)

lemma small_word_end: "vend (snd (small_word c s)) = vend s"
  by (simp add: small_word_def Let_def)

lemma asked_end:
  "cmd_g s = Some s' \<Longrightarrow> vend s' = vend s" "cmd_z s = Some s' \<Longrightarrow> vend s' = vend s"
  "cmd_name_register s = Some s' \<Longrightarrow> vend s' = vend s" "cmd_set_mark s = Some s' \<Longrightarrow> vend s' = vend s"
     apply (clarsimp simp: cmd_g_def bind_eq_Some_conv frame_simps keeps_end_shown(5))
    apply (clarsimp simp: cmd_z_def bind_eq_Some_conv Let_def frame_simps keeps_end_shown(5))
   apply (auto simp: cmd_name_register_def bind_eq_Some_conv Let_def split: if_splits dest!: keeps_end_shown(1,5)) [1]
  apply (auto simp: cmd_set_mark_def bind_eq_Some_conv Let_def split: if_splits dest!: keeps_end_shown(1,5)) [1]
  done

lemma cmd_goto_mark_end: "cmd_goto_mark orig s = Some (q, s') \<Longrightarrow> vend s' = vend s"
proof -
  have sw: "swap_context p s = (q, s1) \<Longrightarrow> ed s1 = ed s" for p s q s1
    using ed_swap_context [of p s] by simp
  show "cmd_goto_mark orig s = Some (q, s') \<Longrightarrow> vend s' = vend s"
    by (auto simp: cmd_goto_mark_def bind_eq_Some_conv Let_def keeps_end_shown
        split: if_splits option.splits prod.splits dest!: sw)
qed

lemma cmd_paragraph_end: "cmd_paragraph c s = Some s' \<Longrightarrow> 0 \<le> vend s \<Longrightarrow> 0 \<le> vend s'"
  unfolding cmd_paragraph_def
  by (auto split: if_splits prod.splits elim!: count_loop_keeps [rotated])

lemma cmd_percent_end: "cmd_percent s = Some s' \<Longrightarrow> vend s' = vend s"
  by (auto simp: cmd_percent_def bind_eq_Some_conv keeps_end_shown split: prod.splits if_splits option.splits)

lemma cmd_find_char_end: "cmd_find_char c s = Some s' \<Longrightarrow> 0 \<le> vend s \<Longrightarrow> 0 \<le> vend s'"
proof -
  assume a: "cmd_find_char c s = Some s'" "0 \<le> vend s"
  have "\<exists>s1 k. vend s1 = vend s \<and> dot_to_char k s1 = Some s'"
  proof (cases "c = 59 \<or> c = 44")
    case True
    then show ?thesis using a(1) by (auto simp: cmd_find_char_def)
  next
    case False
    then obtain k s1 where g: "getc s = Some (k, s1)"
      and d: "dot_to_char c (s1\<lparr>last_search_char := k, last_search_cmd := c\<rparr>) = Some s'"
      using a(1) by (auto simp: cmd_find_char_def bind_eq_Some_conv)
    have "vend (s1\<lparr>last_search_char := k, last_search_cmd := c\<rparr>) = vend s"
      using keeps_end_shown(5) [OF g] by simp
    with d show ?thesis by blast
  qed
  then show ?thesis using vend_dot_to_char a(2) by fastforce
qed

lemma search_round_end [simp]: "vend (search_round fwd s) = vend s"
  by (simp add: search_round_def Let_def frame_simps split: option.split)

lemma search_next_end: "search_next fwd s = Some s' \<Longrightarrow> 0 \<le> vend s \<Longrightarrow> 0 \<le> vend s'"
  by (auto simp: search_next_def frame_simps split: if_splits elim!: count_pure_keeps [rotated])

lemma cmd_search_end: "cmd_search c s = Some s' \<Longrightarrow> 0 \<le> vend s \<Longrightarrow> 0 \<le> vend s'"
proof -
  assume a: "cmd_search c s = Some s'" "0 \<le> vend s"
  have n: "search_next f x = Some s' \<Longrightarrow> vend x = vend s \<Longrightarrow> 0 \<le> vend s'" for f x
    using search_next_end a(2) by simp
  show ?thesis
  proof (cases "c = 78 \<or> c = 110")
    case True
    then show ?thesis using a n by (auto simp: cmd_search_def split: if_splits)
  next
    case False
    then obtain w s1 where w: "get_input_line [to_char c] s = Some (w, s1)"
      using a by (auto simp: cmd_search_def bind_eq_Some_conv)
    then have "vend s1 = vend s" by (rule keeps_end_shown)
    then show ?thesis
      using a False w n by (auto simp: cmd_search_def Let_def split: if_splits)
  qed
qed

lemma put_rounds_end: "0 \<le> vend s \<Longrightarrow> 0 \<le> vend (put_rounds n p m s)"
proof (induction n arbitrary: m s)
  case (Suc n)
  have "0 \<le> vend ((on_ed (\<lambda>u. string_insert u (dot s) p m) s)\<lparr>cmdcnt := k\<rparr>)" for k
    using Suc.prems by simp
  from Suc.IH [OF this] show ?case using Suc.prems by (simp add: Let_def)
qed simp

lemma cmd_put_end [end_nonneg]: "0 \<le> vend s \<Longrightarrow> 0 \<le> vend (cmd_put c s)"
  by (auto simp: cmd_put_def Let_def frame_simps intro!: put_rounds_end split: option.split)

lemma hole_deleteD: "hole_delete p q m s = (r, s') \<Longrightarrow> 0 \<le> vend s \<Longrightarrow> 0 \<le> vend s'"
  using vend_hole_delete [of s p q m] by simp

lemma cmd_undo_line_end [end_nonneg]: "0 \<le> vend s \<Longrightarrow> 0 \<le> vend (cmd_undo_line s)"
  by (auto simp: cmd_undo_line_def Let_def frame_simps split: option.split prod.split dest!: hole_deleteD)

lemma cmd_repeat_end [simp]: "vend (cmd_repeat s) = vend s"
  by (simp add: cmd_repeat_def frame_simps)

lemma delete_to_end [end_nonneg]: "0 \<le> vend s \<Longrightarrow> 0 \<le> vend (delete_to p q ty d m s)"
  by (auto simp: delete_to_def split: prod.split dest: vend_yank_delete)

lemma cmd_to_eol_end [end_nonneg]: "0 \<le> vend s \<Longrightarrow> 0 \<le> vend (cmd_to_eol c s)"
  by (simp add: cmd_to_eol_def Let_def frame_simps delete_to_end)

lemma delete_rounds_end: "0 \<le> vend s \<Longrightarrow> 0 \<le> vend (delete_rounds n b m s)"
proof (induction n arbitrary: m s)
  case (Suc n)
  define p where "p = (if b then dot s - 1 else dot s)"
  define s1 where "s1 = (if ch s p \<noteq> NL then delete_to p p PARTIAL True m s else s)"
  have "0 \<le> vend s1" using Suc.prems by (simp add: s1_def delete_to_end)
  then have "0 \<le> vend (delete_rounds n b m' (s1\<lparr>cmdcnt := k\<rparr>))" for m' k
    by (intro Suc.IH) simp
  then show ?case using \<open>0 \<le> vend s1\<close> by (simp add: Let_def p_def [symmetric] s1_def [symmetric])
qed simp

lemma cmd_delete_char_end [end_nonneg]: "0 \<le> vend s \<Longrightarrow> 0 \<le> vend (cmd_delete_char c s)"
  by (simp add: cmd_delete_char_def Let_def frame_simps delete_rounds_end del: delete_rounds.simps)

lemma cmd_delete_key_end [end_nonneg]: "0 \<le> vend s \<Longrightarrow> 0 \<le> vend (cmd_delete_key s)"
  by (simp add: cmd_delete_key_def delete_to_end)

lemma vend_overwrite [simp]: "vend (on_ed (\<lambda>u. overwrite_logged u p c ty) s) = vend s"
  by (simp add: on_ed_def overwrite_logged_def Let_def frame_simps set_byte_def)

lemma join_blanks_end:
  assumes "join_blanks s = Some s'"
  shows "0 \<le> vend s \<longrightarrow> 0 \<le> vend s'"
proof (rule join_blanks.raw_induct [where P = "\<lambda>s s'. 0 \<le> vend s \<longrightarrow> 0 \<le> vend s'", OF _ assms])
  fix jb :: "vi \<Rightarrow> vi option" and s s'
  assume "\<And>s s'. jb s = Some s' \<Longrightarrow> 0 \<le> vend s \<longrightarrow> 0 \<le> vend s'"
    and "(if isblank (ch s (dot s)) then jb (snd (hole_delete (dot s) (dot s) ALLOW_UNDO_CHAIN s)) else Some s) = Some s'"
  then show "0 \<le> vend s \<longrightarrow> 0 \<le> vend s'"
    using vend_hole_delete [of s "dot s" "dot s" ALLOW_UNDO_CHAIN] by (auto split: if_splits)
qed

lemma join_once_end: "join_once s = Some s' \<Longrightarrow> 0 \<le> vend s \<Longrightarrow> 0 \<le> vend s'"
  using join_blanks_end by (auto simp: join_once_def Let_def frame_simps split: if_splits)

lemma cmd_join_end: "cmd_join s = Some s' \<Longrightarrow> 0 \<le> vend s \<Longrightarrow> 0 \<le> vend s'"
  unfolding cmd_join_def
  by (auto simp: frame_simps dest: join_once_end elim!: count_loop_keeps [rotated])

lemma flip_rounds_end: "vend (flip_rounds n ty s) = vend s"
proof (induction n arbitrary: ty s)
  case (Suc n)
  have "vend (flip_rounds n ty' ((dot_right s1)\<lparr>cmdcnt := k\<rparr>)) = vend s1" for ty' s1 k
    by (simp add: Suc.IH frame_simps)
  then show ?case by (simp add: Let_def frame_simps)
qed simp

lemma cmd_flip_end [simp]: "vend (cmd_flip s) = vend s"
  by (simp add: cmd_flip_def frame_simps flip_rounds_end del: flip_rounds.simps)

lemma replace_rounds_end: "replace_rounds n c m s = Some s' \<Longrightarrow> 0 \<le> vend s \<Longrightarrow> 0 \<le> vend s'"
proof (induction n arbitrary: m s)
  case (Suc n)
  obtain p s1 where d: "hole_delete (dot s) (dot s) m s = (p, s1)"
    by (cases "hole_delete (dot s) (dot s) m s") auto
  with Suc.prems obtain p1 s2 where i: "char_insert p c ALLOW_UNDO_CHAIN (s1\<lparr>dot := p\<rparr>) = Some (p1, s2)"
    by (auto simp: bind_eq_Some_conv)
  have "0 \<le> vend s2" using vend_char_insert [OF i] hole_deleteD [OF d] Suc.prems by simp
  then show ?case
    using Suc.IH [of ALLOW_UNDO_CHAIN "s2\<lparr>dot := p1, cmdcnt := cmdcnt s2 - 1\<rparr>"] Suc.prems d i
    by (auto simp: Let_def split: if_splits)
qed simp

lemma cmd_replace_char_end: "cmd_replace_char s = Some s' \<Longrightarrow> 0 \<le> vend s \<Longrightarrow> 0 \<le> vend s'"
  by (auto simp: cmd_replace_char_def bind_eq_Some_conv frame_simps keeps_end_shown split: if_splits
      dest!: replace_rounds_end simp del: replace_rounds.simps)

lemma cmd_open_end: "cmd_open c s = Some s' \<Longrightarrow> 0 \<le> vend s \<Longrightarrow> 0 \<le> vend s'"
  by (auto simp: cmd_open_def Let_def frame_simps split: if_splits dest!: with_dot_end vend_char_insert)

lemma shift_spaces_end: "0 \<le> vend s \<Longrightarrow> 0 \<le> vend (snd (shift_spaces n u p m s))"
proof (induction n arbitrary: p m s)
  case (Suc n)
  obtain d s1 where d: "hole_delete p p m s = (d, s1)" by (cases "hole_delete p p m s") auto
  then show ?case using Suc hole_deleteD [OF d] by simp
qed simp

lemma shift_left_end: "shift_left u p m s = (q, s') \<Longrightarrow> 0 \<le> vend s \<Longrightarrow> 0 \<le> vend s'"
  using shift_spaces_end [of s "nat (tabstop s)" u p m]
  by (auto simp: shift_left_def split: if_splits prod.splits dest!: hole_deleteD)

lemma shift_lines_end: "shift_lines n l u p m s = Some s' \<Longrightarrow> 0 \<le> vend s \<Longrightarrow> 0 \<le> vend s'"
proof (induction n arbitrary: p m s)
  case (Suc n)
  obtain p1 s1 where r: "(if l then Some (shift_left u p m s) else shift_right u p m s) = Some (p1, s1)"
    using Suc.prems by (auto split: option.splits)
  have "0 \<le> vend s1"
    using r Suc.prems(2) by (auto simp: shift_right_def split: if_splits dest: shift_left_end vend_char_insert)
  then show ?case using Suc r by simp
qed simp

lemma cmd_shift_end:
  assumes "\<And>c. keeps_end (inner c)" and "cmd_shift inner c s = Some s'" and "0 \<le> vend s"
  shows "0 \<le> vend s'"
  using assms(2,3)
  by (auto simp: cmd_shift_def Let_def bind_eq_Some_conv frame_simps split: option.splits
      dest!: find_range_end [of inner, OF assms(1)] shift_lines_end)

lemma after_whole_end: "after_whole c d s = Some s' \<Longrightarrow> 0 \<le> vend s \<Longrightarrow> 0 \<le> vend s'"
  by (auto simp: after_whole_def frame_simps split: if_splits dest!: with_dot_end vend_char_insert)

lemma cmd_operate_end:
  assumes "\<And>c. keeps_end (inner c)" and "cmd_operate inner c s = Some s'" and "0 \<le> vend s"
  shows "0 \<le> vend s'"
proof -
  obtain r s1 where r: "find_range inner c s = Some (r, s1)"
    using assms(2) by (auto simp: cmd_operate_def Let_def bind_eq_Some_conv)
  have s1: "0 \<le> vend s1" using find_range_end [of inner, OF assms(1) r assms(3)] .
  show ?thesis
  proof (cases r)
    case (Some x)
    obtain ty p q where x: "x = (ty, p, q)" by (cases x)
    define s2 where "s2 = delete_to (if ty = WHOLE then begin_line (tx s1) p else p)
        (if ty = WHOLE then end_line (tx s1) q else q) ty (c \<noteq> 121 \<and> c \<noteq> 89) ALLOW_UNDO s1"
    have s2: "0 \<le> vend s2" using s1 by (simp add: s2_def delete_to_end)
    have "Option.bind (if ty = WHOLE then after_whole c p s2 else Some s2)
        (\<lambda>s3. if c = 99 then Some (dc_i s3)
           else Some (end_cmd_q (if reg_id s3 \<noteq> reg_id s
                  then yank_status (if c = 100 then ''Delete'' else ''Yank'') (reg_text s3) 1 s3
                  else s3))) = Some s'"
      using assms(2) by (simp only: cmd_operate_def Let_def r Some x s2_def Option.bind.bind_lunit option.case prod.case)
    then obtain s3 where s3: "(if ty = WHOLE then after_whole c p s2 else Some s2) = Some s3"
      and s': "s' = dc_i s3 \<or> vend s' = vend s3"
      by (auto simp: bind_eq_Some_conv frame_simps split: if_splits)
    have "0 \<le> vend s3" using s3 s2 by (auto split: if_splits dest: after_whole_end)
    then show ?thesis using s' by auto
  qed (use assms(2) r s1 in \<open>auto simp: cmd_operate_def Let_def\<close>)
qed

lemma cmd_ZZ_end: "cmd_ZZ s = Some s' \<Longrightarrow> vend s' = vend s"
proof -
  assume a: "cmd_ZZ s = Some s'"
  then obtain c s1 where c: "getc s = Some (c, s1)" by (auto simp: cmd_ZZ_def bind_eq_Some_conv)
  have v: "vend s1 = vend s" using c by (rule keeps_end_shown)
  define s2 where "s2 = (if modified_count (ed s1) \<noteq> 0 then
      (case file_write (current_filename s1) 0 (vend s1 - 1) s1 of
         (cnt, s') \<Rightarrow>
           if cnt < 0 then
             (if cnt = - 1 then status_line_bold (''Write error: '' @ errno_text (fsys s')) s' else s')
           else if cnt = vend s1 then s'\<lparr>editing := 0\<rparr> else s')
      else s1\<lparr>editing := 0\<rparr>)"
  have s2: "vend s2 = vend s1" by (auto simp: s2_def frame_simps split: prod.split dest: ed_file_write)
  have "(if c \<noteq> 90 then indicate_error s1
        else Some (if editing s2 = 0 \<and> argc s2 - vi_optind s2 - 1 > 0 then
                      status_line_bold (more_files (argc s2 - vi_optind s2 - 1))
                        (on_dsp (\<lambda>d. d\<lparr>last_modified_count := - 1\<rparr>)
                          (on_ed (\<lambda>u. u\<lparr>modified_count := 0\<rparr>) (s2\<lparr>editing := 1\<rparr>)))
                    else s2)) = Some s'"
    using a unfolding cmd_ZZ_def c Option.bind.bind_lunit prod.case Let_def s2_def by simp
  then show ?thesis using v s2 by (auto simp: frame_simps on_ed_def keeps_end_shown split: if_splits)
qed

lemma visual_operate_end: "visual_operate c s = Some s' \<Longrightarrow> 0 \<le> vend s \<Longrightarrow> 0 \<le> vend s'"
proof -
  have sh: "visual_shift c lo hi s = Some s' \<Longrightarrow> 0 \<le> vend s \<Longrightarrow> 0 \<le> vend s'" for lo hi s s'
    by (auto simp: visual_shift_def Let_def frame_simps dest!: shift_lines_end)
  have yk: "visual_yank c lo hi s = Some s' \<Longrightarrow> 0 \<le> vend s \<Longrightarrow> 0 \<le> vend s'" for lo hi s s'
  proof -
    assume y: "visual_yank c lo hi s = Some s'" "0 \<le> vend s"
    have d: "0 \<le> vend (delete_to lo hi ty yk ALLOW_UNDO s)" for ty yk
      using y(2) by (rule delete_to_end)
    show ?thesis
      using y(1)
      by (auto simp: visual_yank_def Let_def bind_eq_Some_conv frame_simps d split: if_splits
          dest!: with_dot_end vend_char_insert)
  qed
  show "visual_operate c s = Some s' \<Longrightarrow> 0 \<le> vend s \<Longrightarrow> 0 \<le> vend s'"
    by (auto simp: visual_operate_def Let_def frame_simps split: if_splits dest!: sh yk)
qed

text \<open>A step keeps the end of the text at or after its start.\<close>

definition ends_ok :: "vi \<Rightarrow> vi option \<Rightarrow> bool" where
  "ends_ok s r \<longleftrightarrow> (\<forall>s'. r = Some s' \<longrightarrow> 0 \<le> vend s \<longrightarrow> 0 \<le> vend s')"

lemma ends_ok_if: "ends_ok s a \<Longrightarrow> ends_ok s b \<Longrightarrow> ends_ok s (if P then a else b)"
  by simp

lemma ends_ok_pure: "(0 \<le> vend s \<Longrightarrow> 0 \<le> vend s') \<Longrightarrow> ends_ok s (Some s')"
  by (simp add: ends_ok_def)

lemma ends_okI: "(\<And>s'. r = Some s' \<Longrightarrow> 0 \<le> vend s \<Longrightarrow> 0 \<le> vend s') \<Longrightarrow> ends_ok s r"
  by (simp add: ends_ok_def)

lemma ends_ok_count:
  "(\<And>s. 0 \<le> vend s \<Longrightarrow> 0 \<le> vend (f s)) \<Longrightarrow> ends_ok s (count_pure f s)"
  "(\<And>s. 0 \<le> vend s \<Longrightarrow> 0 \<le> vend (snd (g s))) \<Longrightarrow> ends_ok s (map_option snd (count_loop (\<lambda>s. Some (g s)) s))"
proof -
  show "(\<And>s. 0 \<le> vend s \<Longrightarrow> 0 \<le> vend (f s)) \<Longrightarrow> ends_ok s (count_pure f s)"
    using count_pure_keeps by (blast intro: ends_okI)
  assume g: "\<And>s. 0 \<le> vend s \<Longrightarrow> 0 \<le> vend (snd (g s))"
  have "0 \<le> vend s'" if "count_loop (\<lambda>s. Some (g s)) s = Some (b, s')" "0 \<le> vend s" for b s'
  proof (rule count_loop_keeps [OF _ that])
    show "Some (g s) = Some (b, s') \<Longrightarrow> 0 \<le> vend s \<Longrightarrow> 0 \<le> vend s'" for s b s'
      using g [of s] by simp
  qed
  then show "ends_ok s (map_option snd (count_loop (\<lambda>s. Some (g s)) s))" by (auto simp: ends_ok_def)
qed

lemma cmd_colon_end: "cmd_colon s = Some s' \<Longrightarrow> 0 \<le> vend s \<Longrightarrow> 0 \<le> vend s'"
proof -
  assume a: "cmd_colon s = Some s'" "0 \<le> vend s"
  then obtain w s1 s2 where "get_input_line '':'' s = Some (w, s1)" "colon w s1 = Some s2" "show_status_line s2 = Some s'"
    by (auto simp: cmd_colon_def bind_eq_Some_conv)
  then show ?thesis using a(2) vend_colon [of w s1 s2] by (simp add: keeps_end_shown)
qed

lemma ends_ok_cmds:
  "ends_ok s (vertical d b s)" "ends_ok s (cmd_g s)" "ends_ok s (cmd_z s)" "ends_ok s (cmd_name_register s)"
  "ends_ok s (cmd_set_mark s)" "ends_ok s (cmd_paragraph c s)" "ends_ok s (cmd_percent s)"
  "ends_ok s (cmd_find_char c s)" "ends_ok s (cmd_search c s)" "ends_ok s (cmd_join s)"
  "ends_ok s (cmd_replace_char s)" "ends_ok s (cmd_open c s)" "ends_ok s (cmd_ZZ s)"
  "ends_ok s (visual_operate c s)" "ends_ok s (cmd_colon s)" "ends_ok s (redraw full s)"
  "ends_ok s (cmd_escape s)"
                  apply (rule ends_okI, drule vertical_end, simp)
                 apply (rule ends_okI, drule asked_end(1), simp)
                apply (rule ends_okI, drule asked_end(2), simp)
               apply (rule ends_okI, drule asked_end(3), simp)
              apply (rule ends_okI, drule asked_end(4), simp)
             apply (blast intro: ends_okI cmd_paragraph_end)
            apply (rule ends_okI, drule cmd_percent_end, simp)
           apply (blast intro: ends_okI cmd_find_char_end)
          apply (blast intro: ends_okI cmd_search_end)
         apply (blast intro: ends_okI cmd_join_end)
        apply (blast intro: ends_okI cmd_replace_char_end)
       apply (blast intro: ends_okI cmd_open_end)
      apply (rule ends_okI, drule cmd_ZZ_end, simp)
     apply (blast intro: ends_okI visual_operate_end)
    apply (blast intro: ends_okI cmd_colon_end)
   apply (rule ends_okI, drule keeps_end_shown(3), simp)
  apply (rule ends_okI, auto simp: cmd_escape_def frame_simps split: if_splits dest!: keeps_end_shown(1)) [1]
  done

lemma simple_cmd_end:
  assumes "\<And>c. keeps_end (inner c)"
  shows "ends_ok s (simple_cmd inner c s)"
proof -
  have op: "ends_ok s (cmd_operate inner c s)" "ends_ok s (cmd_shift inner c s)"
    using cmd_operate_end [of inner] cmd_shift_end [of inner] assms by (blast intro: ends_okI)+
  show ?thesis
    unfolding simple_cmd_def Let_def
    by (intro ends_ok_if ends_ok_cmds ends_ok_count op; (rule ends_ok_pure)?;
        simp add: frame_simps end_nonneg small_word_end)
qed

lemma switch_cmd_end:
  assumes "\<And>c. keeps_end (inner c)" and "switch_cmd inner c orig s = Some (p, s')" and "0 \<le> vend s"
  shows "0 \<le> vend s'"
  using assms(2,3) simple_cmd_end [of inner s c, OF assms(1)]
  by (auto simp: switch_cmd_def ends_ok_def split: if_splits dest: cmd_goto_mark_end)

lemma key_cmd_mode_end:
  assumes "\<And>c. keeps_end (inner c)" and "key_cmd_mode inner c orig s = Some (p, s')" and "0 \<le> vend s"
  shows "0 \<le> vend s'"
proof -
  have sw: "switch_cmd inner c orig x = Some (p, s') \<Longrightarrow> vend x = vend s \<Longrightarrow> 0 \<le> vend s'" for x
    using switch_cmd_end [of inner c orig x p s', OF assms(1)] assms(3) by simp
  have vo: "visual_operate c s = Some s' \<Longrightarrow> 0 \<le> vend s'"
    using visual_operate_end assms(3) by blast
  have fs: "vend (force_status x) = vend x" for x by (simp add: frame_simps)
  show ?thesis
    using assms(2,3) sw vo fs
    unfolding key_cmd_mode_def by (auto simp: frame_simps split: if_splits)
qed

lemma insert_key_end: "insert_key c s = Some s' \<Longrightarrow> 0 \<le> vend s \<Longrightarrow> 0 \<le> vend s'"
  by (auto simp: insert_key_def split: if_splits dest!: with_dot_end dest: vend_char_insert)

lemma replace_key_end: "replace_key c s = Some s' \<Longrightarrow> 0 \<le> vend s \<Longrightarrow> 0 \<le> vend s'"
proof -
  assume a: "replace_key c s = Some s'" "0 \<le> vend s"
  have "0 \<le> vend (if c \<noteq> 27 then delete_to (dot s) (dot s) PARTIAL True ALLOW_UNDO s else s)"
    using a(2) by (simp add: delete_to_end)
  then show ?thesis
    using a by (auto simp: replace_key_def Let_def split: if_splits dest!: with_dot_end dest: vend_char_insert)
qed

lemma mode_cmd_end:
  assumes "\<And>c. keeps_end (inner c)" and "mode_cmd inner c s = Some (p, s')" and "0 \<le> vend s"
  shows "0 \<le> vend s'"
proof -
  have k: "key_cmd_mode inner c orig s = Some (p, s') \<Longrightarrow> 0 \<le> vend s'" for orig
    using key_cmd_mode_end [of inner c orig s p s', OF assms(1)] assms(3) by simp
  have i: "insert_key c (commit (s\<lparr>cmd_mode := 1\<rparr>)) = Some s' \<Longrightarrow> 0 \<le> vend s'"
    using insert_key_end [of c "commit (s\<lparr>cmd_mode := 1\<rparr>)" s'] assms(3) by (simp add: frame_simps)
  show ?thesis
    using assms(2,3) k i insert_key_end replace_key_end
    unfolding mode_cmd_def Let_def by (fastforce split: if_splits)
qed

text \<open>After any key the text is not empty and dot is inside it or at its end.\<close>

lemma finish_cmd_bounds:
  assumes "finish_cmd c orig s = Some s'" and "0 \<le> vend s"
  shows "0 < vend s' \<and> 0 \<le> dot s' \<and> dot s' \<le> vend s'"
proof -
  obtain s1 where s1: "(if vend s = 0 then
      map_option (\<lambda>(p, s'). s'\<lparr>dot := 0\<rparr>) (char_insert 0 NL NO_UNDO s) else Some s) = Some s1"
    using assms(1) by (auto simp: finish_cmd_def bind_eq_Some_conv)
  have v1: "0 < vend s1"
    using s1 assms(2) by (auto split: if_splits dest: vend_char_insert_plain)
  obtain s2 where s2: "(if dot s1 \<noteq> vend s1 then with_dot (bound_dot (dot s1) s1) else Some s1) = Some s2"
    using assms(1) s1 by (auto simp: finish_cmd_def bind_eq_Some_conv)
  have b2: "vend s2 = vend s1 \<and> 0 \<le> dot s2 \<and> dot s2 \<le> vend s2"
  proof (cases "dot s1 = vend s1")
    case False
    with s2 obtain q s' where q: "bound_dot (dot s1) s1 = Some (q, s')" and "s2 = s'\<lparr>dot := q\<rparr>"
      by (auto simp: with_dot_def)
    moreover have "vend s' = vend s1" using q by (rule keeps_end_shown)
    ultimately show ?thesis using bound_dot_range [OF q] v1 by auto
  qed (use s2 v1 in auto)
  define s4 where "s4 = (if \<not> key_isdigit c
      then (if dot s2 \<noteq> orig then check_context c s2 else s2)\<lparr>cmdcnt := 0\<rparr>
      else if dot s2 \<noteq> orig then check_context c s2 else s2)"
  have b4: "vend s4 = vend s2" "dot s4 = dot s2" by (simp_all add: s4_def frame_simps)
  have "s' = (if ch s4 (dot s4) = NL \<and> dot s4 - begin_line (tx s4) (dot s4) > 0 \<and> cmd_mode s4 = 0
      then s4\<lparr>dot := dot s4 - 1\<rparr> else s4)"
    using assms(1) unfolding finish_cmd_def s1 Option.bind.bind_lunit s2 Let_def s4_def by simp
  moreover have "begin_line (tx s4) (dot s4) < dot s4 \<Longrightarrow> 0 < dot s4"
    using b2 b4 by (cases "dot s4 = 0") auto
  ultimately show ?thesis using b2 b4 v1 by auto
qed

lemma do_cmd_with_end:
  assumes "\<And>c. keeps_end (inner c)"
  shows "keeps_end (do_cmd_with inner c)"
proof (rule keeps_endI)
  fix s s' assume v: "0 \<le> vend s" and d: "do_cmd_with inner c s = Some s'"
  then obtain s1 orig s2 where
    s1: "show_status_line (on_dsp (\<lambda>d. d\<lparr>keep_index := False\<rparr>) (s\<lparr>cmd_error := False\<rparr>)) = Some s1"
    and s2: "mode_cmd inner c s1 = Some (orig, s2)" and f: "finish_cmd c orig s2 = Some s'"
    by (auto simp: do_cmd_with_def bind_eq_Some_conv)
  have "0 \<le> vend s1" using keeps_end_shown(2) [OF s1] v by (simp add: on_dsp_def)
  then have "0 \<le> vend s2" using mode_cmd_end [of inner, OF assms s2] by simp
  then show "0 \<le> vend s'" using finish_cmd_bounds [OF f] by simp
qed

lemma do_cmd_with_bounds:
  assumes "\<And>c. keeps_end (inner c)" and d: "do_cmd_with inner c s = Some s'" and v: "0 \<le> vend s"
  shows "0 < vend s' \<and> 0 \<le> dot s' \<and> dot s' \<le> vend s'"
proof -
  obtain s1 orig s2 where
    s1: "show_status_line (on_dsp (\<lambda>d. d\<lparr>keep_index := False\<rparr>) (s\<lparr>cmd_error := False\<rparr>)) = Some s1"
    and s2: "mode_cmd inner c s1 = Some (orig, s2)" and f: "finish_cmd c orig s2 = Some s'"
    using d by (auto simp: do_cmd_with_def bind_eq_Some_conv)
  have "0 \<le> vend s1" using keeps_end_shown(2) [OF s1] v by (simp add: on_dsp_def)
  then have "0 \<le> vend s2" using mode_cmd_end [of inner, OF assms(1) s2] by simp
  then show ?thesis using finish_cmd_bounds [OF f] by simp
qed

lemma keeps_end_none: "keeps_end (\<lambda>_. None)"
  by (simp add: keeps_end_def)

lemma do_cmd_keeps_end: "keeps_end (do_cmd c)"
  unfolding do_cmd_def by (intro do_cmd_with_end keeps_end_none)

subsection \<open>The motions inside an operator never start another operator\<close>

text \<open>
  The two levels of \<open>do_cmd\<close> are all the nesting there is: outside the operators the inner
  command is not used, and an operator runs its motion with a key that is not an operator.
\<close>

lemma simple_cmd_inner:
  "c \<notin> operator_keys \<Longrightarrow> simple_cmd f c s = simple_cmd g c s"
proof -
  assume c: "c \<notin> operator_keys"
  have "c \<noteq> key CHR ''<''" "c \<noteq> key CHR ''>''" "c \<notin> set (map key ''cdyY'')"
    using c by (auto simp: operator_keys_def)
  then show ?thesis by (simp only: simple_cmd_def simp_thms if_False)
qed

lemma do_cmd_with_outside:
  assumes "c \<notin> operator_keys"
  shows "do_cmd_with f c s = do_cmd_with g c s"
proof -
  have "simple_cmd f c = simple_cmd g c" using simple_cmd_inner [OF assms] by blast
  then show ?thesis
    by (simp add: do_cmd_with_def mode_cmd_def key_cmd_mode_def switch_cmd_def Let_def cong: if_cong)
qed

lemma do_cmd_with_agree:
  assumes "\<And>c s. c \<notin> operator_keys \<Longrightarrow> f c s = g c s"
  shows "do_cmd_with f = do_cmd_with g"
proof -
  have r: "find_range f = find_range g"
    using find_range_inner [of f g] assms by blast
  have op: "cmd_operate f = cmd_operate g" "cmd_shift f = cmd_shift g"
    by (intro ext; simp only: cmd_operate_def cmd_shift_def r)+
  have sc: "simple_cmd f = simple_cmd g"
    by (intro ext; simp only: simple_cmd_def op)
  have sw: "switch_cmd f = switch_cmd g"
    by (intro ext; simp only: switch_cmd_def sc)
  have k: "key_cmd_mode f = key_cmd_mode g"
    by (intro ext; simp only: key_cmd_mode_def sw)
  have m: "mode_cmd f = mode_cmd g"
    by (intro ext; simp only: mode_cmd_def k)
  show ?thesis
    by (intro ext; simp only: do_cmd_with_def m)
qed

lemma do_cmd_nesting: "do_cmd_with (do_cmd_with h) = do_cmd"
  unfolding do_cmd_def by (rule do_cmd_with_agree) (rule do_cmd_with_outside)

end
