(* ===== verification/CommandUndo.thy ===== *)
theory CommandUndo
  imports UndoCommand Commands
begin

text \<open>
  What one key changes, the key \<open>u\<close> takes back: the editing commands log all they do as one group,
  one object that ends a chain and the chained ones on top of it, which is what an undo pops.
\<close>

subsection \<open>One logged change\<close>

text \<open>
  From \<open>u\<close> to \<open>v\<close> a group of objects was logged that takes the text back; \<open>b\<close> tells whether there
  is one, so that the next edit has to be chained.
\<close>

definition is_group :: "undo_object list \<Rightarrow> bool" where
  "is_group obs \<longleftrightarrow> obs \<noteq> [] \<and> \<not> chained (last obs) \<and> list_all chained (butlast obs)"

definition changed :: "bool \<Rightarrow> ustate \<Rightarrow> ustate \<Rightarrow> bool" where
  "changed b u v \<longleftrightarrow> undo_q v = 0 \<and> 0 \<le> tend (tb v) \<and>
     (\<exists>obs. undo_stack v = obs @ undo_stack u \<and> rewind revert obs (content (tb v)) = Some (content (tb u)) \<and>
        (if b then is_group obs else obs = []))"

lemma changed_refl: "undo_q u = 0 \<Longrightarrow> 0 \<le> tend (tb u) \<Longrightarrow> changed False u u"
  by (simp add: changed_def)

lemma changed_none: "changed False u v \<Longrightarrow> undo_stack v = undo_stack u \<and> content (tb v) = content (tb u)"
  by (auto simp: changed_def)

lemma changed_more:
  assumes "changed b u v" and "undo_stack w = obs @ undo_stack v" and "undo_q w = 0" and "0 \<le> tend (tb w)"
    and "rewind revert obs (content (tb w)) = Some (content (tb v))"
    and "if b then list_all chained obs else is_group obs"
  shows "changed True u w"
proof -
  obtain old where old: "undo_stack v = old @ undo_stack u" "rewind revert old (content (tb v)) = Some (content (tb u))"
    "if b then is_group old else old = []" using assms(1) by (auto simp: changed_def)
  have "rewind revert (obs @ old) (content (tb w)) = Some (content (tb u))"
    using assms(5) old(2) by (simp add: rewind_append)
  moreover have "is_group (obs @ old)"
    using old(3) assms(6) by (auto simp: is_group_def butlast_append split: if_splits)
  ultimately show ?thesis
    using assms(2,3,4) old(1) by (auto simp: changed_def intro!: exI [of _ "obs @ old"])
qed

lemma is_group_one: "is_group [ob] = (\<not> chained ob)"
  by (simp add: is_group_def)

lemma undo_q_plain:
  "m = ALLOW_UNDO \<or> m = ALLOW_UNDO_CHAIN \<Longrightarrow> undo_q (snd (text_hole_delete u p q m)) = undo_q u"
  "m = ALLOW_UNDO \<or> m = ALLOW_UNDO_CHAIN \<Longrightarrow> undo_q (string_insert u p w m) = undo_q u"
  "ty = UNDO_DEL \<or> ty = UNDO_DEL_CHAIN \<Longrightarrow> undo_q (overwrite_logged u p c ty) = undo_q u"
  by (auto simp: text_hole_delete_def string_insert_def overwrite_logged_def Let_def undo_push_delete_plain
      undo_push_insert_plain undo_push_plain undo_alloc_def)

lemma changed_delete:
  assumes "changed b u v" and "0 \<le> p" and "p \<le> q" and "q < tend (tb v)" and "q - p + 1 < tend (tb v)"
    and "m = (if b then ALLOW_UNDO_CHAIN else ALLOW_UNDO)"
  shows "changed True u (snd (text_hole_delete v p q m))"
proof (rule changed_more [OF assms(1)])
  have m: "m = ALLOW_UNDO \<or> m = ALLOW_UNDO_CHAIN" by (simp add: assms(6))
  let ?ob = "deleted_object (tb v) p (q - p + 1) (if m = ALLOW_UNDO then UNDO_DEL else UNDO_DEL_CHAIN)"
  show "undo_stack (snd (text_hole_delete v p q m)) = [?ob] @ undo_stack v"
    using text_hole_delete_log(1) [OF assms(2,3,4) m] assms(5) by simp
  show "undo_q (snd (text_hole_delete v p q m)) = 0"
    using assms(1) undo_q_plain(1) [OF m] by (simp add: changed_def)
  show "0 \<le> tend (tb (snd (text_hole_delete v p q m)))"
    using assms(1) tend_text_hole_delete by (simp add: changed_def)
  show "rewind revert [?ob] (content (tb (snd (text_hole_delete v p q m)))) = Some (content (tb v))"
    using revert_deleted [OF assms(2,3,4)] by (simp add: text_hole_delete_content [OF assms(2,3,4)])
  show "if b then list_all chained [?ob] else is_group [?ob]"
    by (simp add: assms(6) is_group_one chained_def deleted_object_def)
qed

lemma changed_insert:
  assumes "changed b u v" and "0 \<le> p" and "p \<le> tend (tb v)" and "w \<noteq> []"
    and "m = (if b then ALLOW_UNDO_CHAIN else ALLOW_UNDO)"
  shows "changed True u (string_insert v p w m)"
proof (rule changed_more [OF assms(1)])
  have m: "m = ALLOW_UNDO \<or> m = ALLOW_UNDO_CHAIN" by (simp add: assms(5))
  let ?ob = "\<lparr>u_start = p, u_length = int (length w),
      u_type = (if m = ALLOW_UNDO then UNDO_INS else UNDO_INS_CHAIN), u_text = []\<rparr>"
  show "undo_stack (string_insert v p w m) = [?ob] @ undo_stack v"
    using m by (auto simp: string_insert_def Let_def undo_push_insert_plain undo_alloc_def)
  show "undo_q (string_insert v p w m) = 0" using assms(1) undo_q_plain(2) [OF m] by (simp add: changed_def)
  show "0 \<le> tend (tb (string_insert v p w m))" using assms(1) by (simp add: changed_def tend_string_insert)
  have "revert ?ob (take (nat p) (content (tb v)) @ w @ drop (nat p) (content (tb v))) = Some (content (tb v))"
    by (subst revert_ins_split) (use assms(2,3,4) m in \<open>auto simp: Suc_le_eq\<close>)
  then show "rewind revert [?ob] (content (tb (string_insert v p w m))) = Some (content (tb v))"
    by (simp add: string_insert_content [OF assms(2,3)])
  show "if b then list_all chained [?ob] else is_group [?ob]"
    by (simp add: assms(5) is_group_one chained_def)
qed

lemma changed_overwrite:
  assumes "changed b u v" and "0 \<le> p" and "p < tend (tb v)" and "tend (tb v) \<noteq> 1"
    and "ty = (if b then UNDO_DEL_CHAIN else UNDO_DEL)"
  shows "changed True u (overwrite_logged v p c ty)"
proof -
  have ty: "ty = UNDO_DEL \<or> ty = UNDO_DEL_CHAIN" by (simp add: assms(5))
  let ?obs = "[\<lparr>u_start = p, u_length = 1, u_type = UNDO_INS_CHAIN, u_text = []\<rparr>, deleted_object (tb v) p 1 ty]"
  have st: "undo_stack (overwrite_logged v p c ty) = ?obs @ undo_stack v"
    using assms(4) ty by (auto simp: overwrite_logged_def Let_def undo_push_plain undo_alloc_def deleted_object_def)
  obtain obs where "undo_stack (overwrite_logged v p c ty) = obs @ undo_stack v"
    "rewind revert obs (content (tb (overwrite_logged v p c ty))) = Some (content (tb v))"
    using edit_step_logged [OF edit_overwrite [OF assms(2,3,4) ty, of c]] by blast
  then have r: "rewind revert ?obs (content (tb (overwrite_logged v p c ty))) = Some (content (tb v))"
    using st by simp
  show ?thesis
  proof (rule changed_more [OF assms(1) st _ _ r])
    show "undo_q (overwrite_logged v p c ty) = 0" using assms(1) undo_q_plain(3) [OF ty] by (simp add: changed_def)
    show "0 \<le> tend (tb (overwrite_logged v p c ty))"
      using assms(2,3) by (simp add: overwrite_logged_def Let_def frame_simps set_byte_def)
    show "if b then list_all chained ?obs else is_group ?obs"
      by (simp add: assms(5) is_group_def chained_def deleted_object_def)
  qed
qed

lemma changed_undone:
  assumes "changed True u (ed s)"
  shows "content (tx (undo_pop s)) = content (tb u)"
proof -
  obtain obs where o: "undo_stack (ed s) = obs @ undo_stack u" "is_group obs"
    "rewind revert obs (content (tx s)) = Some (content (tb u))" "undo_q (ed s) = 0" "0 \<le> vend s"
    using assms by (auto simp: changed_def)
  have g: "undo_group (undo_stack (ed s)) = length obs"
  proof -
    obtain xs x where x: "obs = xs @ [x]" "\<not> chained x" "list_all chained xs"
      using o(2) by (cases obs rule: rev_cases) (auto simp: is_group_def)
    then have "takeWhile chained (undo_stack (ed s)) = xs"
      by (simp add: o(1) list_all_iff takeWhile_append2)
    then show ?thesis by (simp add: undo_group_def o(1) x(1))
  qed
  show ?thesis
    using undo_pop_group [of s] rewind_undo_apply [OF o(5,3)] by (simp add: commit_idle o(4) Let_def g) (simp add: o(1))
qed

subsection \<open>The editing commands log one change\<close>

definition ends_line :: "tbuf \<Rightarrow> bool" where
  "ends_line t \<longleftrightarrow> 0 < tend t \<and> mem t (tend t - 1) = NL"

lemma ends_line_content: "ends_line t \<longleftrightarrow> content t \<noteq> [] \<and> last (content t) = NL"
proof (cases "0 < tend t")
  case True
  then have "content t \<noteq> []" by (simp add: content_def span_def)
  moreover have "last (content t) = mem t (tend t - 1)"
    using True calculation by (simp add: last_conv_nth nth_content)
  ultimately show ?thesis using True by (simp add: ends_line_def)
qed (simp add: ends_line_def content_def span_def)

lemma before_end: "ends_line t \<Longrightarrow> p < tend t \<Longrightarrow> mem t p \<noteq> NL \<Longrightarrow> p < tend t - 1"
  by (cases "p = tend t - 1") (auto simp: ends_line_def)

lemma ends_line_delete:
  assumes "ends_line (tb u)" and "0 \<le> p" and "p \<le> q" and "q < tend (tb u) - 1"
  shows "ends_line (tb (snd (text_hole_delete u p q m)))"
proof -
  have "content (tb (snd (text_hole_delete u p q m))) = take (nat p) (content (tb u)) @ drop (Suc (nat q)) (content (tb u))"
    by (rule text_hole_delete_content) (use assms in auto)
  moreover have "Suc (nat q) < length (content (tb u))" using assms by simp
  ultimately show ?thesis using assms(1) by (auto simp: ends_line_content)
qed

lemma ends_line_overwrite:
  assumes "ends_line (tb u)" and "0 \<le> p" and "p < tend (tb u) - 1"
  shows "ends_line (tb (overwrite_logged u p c ty))"
  using assms by (simp add: overwrite_logged_def Let_def frame_simps ends_line_def set_byte_def)

lemma commit_quiet: "undo_q (ed s) = 0 \<Longrightarrow> commit s = s"
  by (simp add: commit_def on_ed_def commit_idle)

lemma delete_to_ed:
  assumes "p \<le> q" and "\<not> (ty = PARTIAL \<and> ch s p = NL)"
  shows "ed (delete_to p q ty True m s) = snd (text_hole_delete (ed s) p q m)"
    and "dot (delete_to p q ty True m s) = fst (text_hole_delete (ed s) p q m)"
  using assms by (auto simp: delete_to_def yank_delete_def Let_def text_yank_def split: prod.split)

lemma delete_to_mode: "cmd_mode (delete_to p q ty d m s) = cmd_mode s" "vi_visual (delete_to p q ty d m s) = vi_visual s"
  by (simp_all add: delete_to_def yank_delete_def Let_def text_yank_def split: prod.split)

lemma delete_to_none: "p \<le> q \<Longrightarrow> ch s p = NL \<Longrightarrow> ed (delete_to p q PARTIAL d m s) = ed s"
  by (auto simp: delete_to_def yank_delete_def Let_def)

lemma hole_dot:
  assumes "0 \<le> p" and "p \<le> q" and "q < tend (tb u) - 1"
  shows "fst (text_hole_delete u p q m) = p"
  using assms by (simp add: text_hole_delete_def Let_def frame_simps hole_close_def)

text \<open>What the commands below have in common, after some of their rounds.\<close>

definition editing_from :: "ustate \<Rightarrow> bool \<Rightarrow> vi \<Rightarrow> bool" where
  "editing_from u b s \<longleftrightarrow> changed b u (ed s) \<and> cmd_mode s = 0 \<and> \<not> vi_visual s \<and> 0 < vend s"

lemma editing_fromI:
  "editing_from u b s \<Longrightarrow> changed b' u (ed s') \<Longrightarrow> cmd_mode s' = cmd_mode s \<Longrightarrow> vi_visual s' = vi_visual s \<Longrightarrow>
   0 < vend s' \<Longrightarrow> editing_from u b' s'"
  by (simp add: editing_from_def)

lemma delete_one:
  assumes "editing_from u b s" and "ends_line (tx s)" and "0 \<le> p" and "p \<le> q" and "q < vend s - 1" and "ch s p \<noteq> NL"
    and "m = (if b then ALLOW_UNDO_CHAIN else ALLOW_UNDO)"
  shows "editing_from u True (delete_to p q PARTIAL True m s)" and "ends_line (tx (delete_to p q PARTIAL True m s))"
    and "dot (delete_to p q PARTIAL True m s) = p" and "vend (delete_to p q PARTIAL True m s) = vend s - (q - p + 1)"
proof -
  have e: "ed (delete_to p q PARTIAL True m s) = snd (text_hole_delete (ed s) p q m)"
    "dot (delete_to p q PARTIAL True m s) = fst (text_hole_delete (ed s) p q m)"
    using delete_to_ed [of p q PARTIAL s m] assms by auto
  show v: "vend (delete_to p q PARTIAL True m s) = vend s - (q - p + 1)"
    using assms(3,4,5) by (simp add: e text_hole_delete_tend)
  show "dot (delete_to p q PARTIAL True m s) = p" using assms(3,4,5) by (simp add: e hole_dot)
  show "ends_line (tx (delete_to p q PARTIAL True m s))" using assms(2,3,4,5) by (simp add: e ends_line_delete)
  have "changed True u (snd (text_hole_delete (ed s) p q m))"
    by (rule changed_delete) (use assms in \<open>auto simp: editing_from_def\<close>)
  then show "editing_from u True (delete_to p q PARTIAL True m s)"
    using assms(5) v by (intro editing_fromI [OF assms(1)]) (simp_all only: delete_to_mode e, use assms(3,4,5) in simp)
qed

lemma delete_nothing:
  "editing_from u b s \<Longrightarrow> p \<le> q \<Longrightarrow> ch s p = NL \<Longrightarrow> editing_from u b (delete_to p q PARTIAL True m s)"
  by (simp add: editing_from_def delete_to_none delete_to_mode)

lemma delete_rounds_change:
  "editing_from u b s \<Longrightarrow> ends_line (tx s) \<Longrightarrow> 0 \<le> dot s \<Longrightarrow> dot s < vend s \<Longrightarrow>
   m = (if b then ALLOW_UNDO_CHAIN else ALLOW_UNDO) \<Longrightarrow> \<exists>b'. editing_from u b' (delete_rounds n False m s)"
proof (induction n arbitrary: b m s)
  case (Suc n)
  show ?case
  proof (cases "ch s (dot s) = NL")
    case True
    define s2 where "s2 = s\<lparr>cmdcnt := cmdcnt s - 1\<rparr>"
    have "editing_from u b s2" using Suc.prems(1) by (simp add: s2_def editing_from_def)
    moreover have "ends_line (tx s2)" "0 \<le> dot s2" "dot s2 < vend s2" using Suc.prems by (simp_all add: s2_def)
    ultimately show ?thesis
      using Suc.IH [of b s2 m] Suc.prems(5) True by (auto simp: Let_def s2_def)
  next
    case False
    define s1 where "s1 = delete_to (dot s) (dot s) PARTIAL True m s"
    define s2 where "s2 = s1\<lparr>cmdcnt := cmdcnt s1 - 1\<rparr>"
    have lt: "dot s < vend s - 1" using before_end [OF Suc.prems(2,4) False] .
    note d = delete_one [OF Suc.prems(1,2,3) order_refl lt False Suc.prems(5), folded s1_def]
    have "editing_from u True s2" using d(1) by (simp add: s2_def editing_from_def)
    moreover have "ends_line (tx s2)" "0 \<le> dot s2" "dot s2 < vend s2" using d(2,3,4) Suc.prems(3) lt by (simp_all add: s2_def)
    moreover have "delete_rounds (Suc n) False m s = (if cmdcnt s2 > 0 then delete_rounds n False ALLOW_UNDO_CHAIN s2 else s2)"
      using False by (simp add: Let_def s2_def s1_def)
    ultimately show ?thesis using Suc.IH [of True s2 ALLOW_UNDO_CHAIN] by auto
  qed
qed auto

lemma flip_rounds_change:
  "editing_from u b s \<Longrightarrow> ends_line (tx s) \<Longrightarrow> 0 \<le> dot s \<Longrightarrow> dot s < vend s \<Longrightarrow>
   ty = (if b then UNDO_DEL_CHAIN else UNDO_DEL) \<Longrightarrow> \<exists>b'. editing_from u b' (flip_rounds n ty s)"
proof (induction n arbitrary: b ty s)
  case (Suc n)
  define hit where "hit = isalpha (ch s (dot s))"
  define sa where "sa = (if hit then on_ed (\<lambda>u. overwrite_logged u (dot s) (flip (ch s (dot s))) ty) s else s)"
  have nl: "\<not> isalpha NL" by code_simp
  have a: "editing_from u (b \<or> hit) sa \<and> ends_line (tx sa) \<and> dot sa = dot s \<and> vend sa = vend s"
  proof (cases hit)
    case True
    then have "ch s (dot s) \<noteq> NL" using nl by (auto simp: hit_def)
    then have lt: "dot s < vend s - 1" using before_end [OF Suc.prems(2,4)] by blast
    have "changed True u (overwrite_logged (ed s) (dot s) (flip (ch s (dot s))) ty)"
      by (rule changed_overwrite) (use Suc.prems lt in \<open>auto simp: editing_from_def\<close>)
    moreover have "tend (tb (overwrite_logged (ed s) (dot s) c ty)) = vend s" for c
      by (simp add: overwrite_logged_def Let_def frame_simps set_byte_def)
    ultimately show ?thesis
      using True Suc.prems ends_line_overwrite [OF Suc.prems(2,3) lt]
      by (simp add: sa_def on_ed_def editing_from_def)
  qed (use Suc.prems in \<open>simp add: sa_def\<close>)
  define s2 where "s2 = (dot_right sa)\<lparr>cmdcnt := cmdcnt (dot_right sa) - 1\<rparr>"
  have c: "commit sa = sa" using a by (intro commit_quiet) (auto simp: editing_from_def changed_def)
  have "editing_from u (b \<or> hit) s2 \<and> ends_line (tx s2) \<and> 0 \<le> dot s2 \<and> dot s2 < vend s2"
    using a Suc.prems(3,4) by (auto simp: s2_def dot_right_def Let_def c editing_from_def)
  moreover have "flip_rounds (Suc n) ty s = (if cmdcnt s2 > 0 then flip_rounds n (if hit then UNDO_DEL_CHAIN else ty) s2 else s2)"
    by (simp add: Let_def s2_def sa_def hit_def)
  moreover have "(if hit then UNDO_DEL_CHAIN else ty) = (if b \<or> hit then UNDO_DEL_CHAIN else UNDO_DEL)"
    using Suc.prems(5) by simp
  ultimately show ?case using Suc.IH [of "b \<or> hit" s2 "if hit then UNDO_DEL_CHAIN else ty"] by auto
qed auto

lemma put_rounds_change:
  "editing_from u b s \<Longrightarrow> 0 \<le> dot s \<Longrightarrow> dot s \<le> vend s \<Longrightarrow> w \<noteq> [] \<Longrightarrow>
   m = (if b then ALLOW_UNDO_CHAIN else ALLOW_UNDO) \<Longrightarrow> \<exists>b'. editing_from u b' (put_rounds n w m s)"
proof (induction n arbitrary: b m s)
  case (Suc n)
  define s2 where "s2 = (on_ed (\<lambda>v. string_insert v (dot s) w m) s)\<lparr>cmdcnt := cmdcnt s - 1\<rparr>"
  have "changed True u (string_insert (ed s) (dot s) w m)"
    by (rule changed_insert) (use Suc.prems in \<open>auto simp: editing_from_def\<close>)
  then have e: "editing_from u True s2" "dot s2 = dot s" "vend s2 = vend s + int (length w)"
    using Suc.prems(1) by (simp_all add: s2_def on_ed_def editing_from_def tend_string_insert)
  have "put_rounds (Suc n) w m s = (if cmdcnt s2 > 0 then put_rounds n w ALLOW_UNDO_CHAIN s2 else s2)"
    by (simp add: Let_def s2_def on_ed_def)
  then show ?case
    using Suc.IH [of True s2 ALLOW_UNDO_CHAIN] e Suc.prems(2,3,4) by auto
qed auto


subsection \<open>The commands\<close>

lemma editing_from_same [simp]: "editing_from u b (end_cmd_q s) = editing_from u b s"
  "editing_from u b (yank_status op p n s) = editing_from u b s" "editing_from u b (s\<lparr>dot := q\<rparr>) = editing_from u b s"
  "editing_from u b (dot_skip_over_ws s) = editing_from u b s"
  by (simp_all add: editing_from_def end_cmd_q_def on_kbd_def yank_status_def status_line_bold_def status_line_def
      on_dsp_def dot_skip_over_ws_def frame_simps)

text \<open>The keys whose command logs what it does, and what they are pressed on.\<close>

definition edit_keys :: "int set" where
  "edit_keys = {key CHR ''x'', key CHR ''D'', key CHR ''~'', key CHR ''p'', key CHR ''P'', KEYCODE_DELETE}"

definition ready :: "vi \<Rightarrow> bool" where
  "ready s \<longleftrightarrow> cmd_mode s = 0 \<and> \<not> vi_visual s \<and> undo_q (ed s) = 0 \<and> 0 \<le> dot s \<and> dot s < vend s \<and>
     ends_line (tx s) \<and> (ch s (dot s) = NL \<longrightarrow> begin_line (tx s) (dot s) = dot s) \<and>
     (case regs s (YDreg s) of None \<Rightarrow> True | Some (a, w) \<Rightarrow> w \<noteq> [])"

lemma ready_from: "ready s \<Longrightarrow> editing_from (ed s) False s"
  by (simp add: ready_def editing_from_def changed_refl)

lemma to_eol_change:
  assumes "ready s"
  shows "\<exists>b. editing_from (ed s) b (cmd_to_eol 68 s)"
proof -
  define q where "q = end_line (tx s) (dot s)"
  have r: "editing_from (ed s) False s" "ends_line (tx s)" "0 \<le> dot s" "dot s < vend s"
    and start: "ch s (dot s) = NL \<Longrightarrow> begin_line (tx s) (dot s) = dot s"
    using assms ready_from by (auto simp: ready_def)
  have q: "dot s \<le> q" "q < vend s" "begin_line (tx s) q = begin_line (tx s) (dot s)"
    using r(3,4) end_line_ge end_line_lt by (simp_all add: q_def begin_line_end_line)
  have nl: "ch s q = NL"
    using end_line_stop [OF r(4), folded q_def] r(2) by (auto simp: ends_line_def)
  show ?thesis
  proof (cases "ch s (dot s) = NL")
    case True
    have "q = dot s"
      using True end_line_no_NL [of "dot s" "dot s" "tx s"] q(1) by (cases "q = dot s") (auto simp: q_def)
    then have "dollar_line (tx s) (dot s) = dot s"
      using start [OF True] by (simp add: dollar_line_def Let_def q_def)
    then show ?thesis
      using delete_nothing [OF r(1) order_refl True] by (auto simp: cmd_to_eol_def Let_def)
  next
    case False
    have d: "dollar_line (tx s) (dot s) = q - 1" and lt: "dot s \<le> q - 1" "q - 1 < vend s - 1"
      using False nl q begin_line_le [of "tx s" "dot s"] by (cases "q = dot s"; auto simp: dollar_line_def Let_def q_def)+
    show ?thesis
      using delete_one(1) [OF r(1,2,3) lt False] by (auto simp: cmd_to_eol_def Let_def d)
  qed
qed

lemma put_change:
  assumes "ready s" and "c = 112 \<or> c = 80"
  shows "\<exists>b. editing_from (ed s) b (cmd_put c s)"
proof (cases "regs s (YDreg s)")
  case None
  then show ?thesis using ready_from [OF assms(1)]
    by (auto simp: cmd_put_def editing_from_def status_line_bold_def on_dsp_def frame_simps)
next
  case (Some r)
  obtain a w where r: "r = (a, w)" by force
  have w: "w \<noteq> []" using assms(1) Some r by (auto simp: ready_def)
  have b: "0 \<le> dot s" "dot s < vend s" and c: "commit s = s"
    using assms(1) by (auto simp: ready_def commit_quiet)
  define s1 where "s1 = (if regtype s (YDreg s) = WHOLE then
      (if c = 80 then dot_begin s else if end_line (tx s) (dot s) = vend s - 1 then s\<lparr>dot := vend s\<rparr> else dot_next s)
      else (if c = 112 then dot_right s else s))"
  have s1: "editing_from (ed s) False s1" "0 \<le> dot s1" "dot s1 \<le> vend s1"
    using ready_from [OF assms(1)] b begin_line_nonneg [of "dot s" "tx s"] begin_line_le [of "tx s" "dot s"]
      next_line_ge [of "dot s" "tx s"] next_line_lt [of "dot s" "tx s"]
    by (auto simp: s1_def dot_begin_def dot_next_def dot_right_def Let_def c)
  obtain b' where "editing_from (ed s) b' (put_rounds (Suc (nat (cmdcnt s1))) w ALLOW_UNDO s1)"
    using put_rounds_change [OF s1 w refl, of "Suc (nat (cmdcnt s1))"] by (auto simp del: put_rounds.simps)
  then show ?thesis
    using Some r by (auto simp: cmd_put_def Let_def s1_def [symmetric] simp del: put_rounds.simps)
qed

lemma command_change:
  assumes "ready s" and "c \<in> edit_keys" and "simple_cmd inner c s = Some s'"
  shows "\<exists>b. editing_from (ed s) b s'"
proof -
  have r: "editing_from (ed s) False s" "ends_line (tx s)" "0 \<le> dot s" "dot s < vend s"
    using assms(1) ready_from by (auto simp: ready_def)
  consider "c = 120" | "c = 68" | "c = 126" | "c = 112 \<or> c = 80" | "c = - 9"
    using assms(2) by (auto simp: edit_keys_def)
  then show ?thesis
  proof cases
    case 1
    then have "s' = end_cmd_q (delete_rounds (Suc (nat (cmdcnt s))) False ALLOW_UNDO s)"
      using assms(3) by (simp add: simple_cmd_def key_isdigit_def cmd_delete_char_def del: delete_rounds.simps)
    then show ?thesis using delete_rounds_change [OF r, of ALLOW_UNDO "Suc (nat (cmdcnt s))"] by simp
  next
    case 2
    then show ?thesis using assms(3) to_eol_change [OF assms(1)] by (auto simp: simple_cmd_def key_isdigit_def)
  next
    case 3
    then have "s' = end_cmd_q (flip_rounds (Suc (nat (cmdcnt s))) UNDO_DEL s)"
      using assms(3) by (simp add: simple_cmd_def key_isdigit_def cmd_flip_def del: flip_rounds.simps)
    then show ?thesis using flip_rounds_change [OF r, of UNDO_DEL "Suc (nat (cmdcnt s))"] by simp
  next
    case 4
    then show ?thesis using assms(1,3) put_change [OF assms(1)] by (auto simp: simple_cmd_def key_isdigit_def)
  next
    case 5
    then have s': "s' = cmd_delete_key s" using assms(3) by (simp add: simple_cmd_def key_isdigit_def)
    show ?thesis
      using r(1) delete_nothing [OF r(1) order_refl] delete_one(1) [OF r(1,2,3) order_refl _ _ refl]
      by (cases "ch s (dot s) = NL") (auto simp: s' cmd_delete_key_def)
  qed
qed

subsection \<open>One key and the key \<open>u\<close>\<close>

lemma finish_keeps:
  assumes "finish_cmd c orig s = Some s'" and "0 < vend s"
  shows "ed s' = ed s \<and> cmd_mode s' = cmd_mode s \<and> vi_visual s' = vi_visual s"
proof -
  have v: "(if vend s = 0 then map_option (\<lambda>(p, s'). s'\<lparr>dot := 0\<rparr>) (char_insert 0 NL NO_UNDO s) else Some s) = Some s"
    using assms(2) by simp
  obtain s2 where s2: "(if dot s \<noteq> vend s then with_dot (bound_dot (dot s) s) else Some s) = Some s2"
    using assms by (auto simp: finish_cmd_def bind_eq_Some_conv)
  have same: "ed s2 = ed s \<and> cmd_mode s2 = cmd_mode s \<and> vi_visual s2 = vi_visual s"
  proof (cases "dot s = vend s")
    case False
    with s2 obtain q s0 where b: "bound_dot (dot s) s = Some (q, s0)" and s2: "s2 = s0\<lparr>dot := q\<rparr>"
      by (auto simp: with_dot_def)
    have "screen_only s s0" using bound_dot_screen [OF b, of s] by simp
    from screen_onlyD [OF this] show ?thesis by (simp add: s2)
  qed (use s2 in simp)
  define s4 where "s4 = (if \<not> key_isdigit c
      then (if dot s2 \<noteq> orig then check_context c s2 else s2)\<lparr>cmdcnt := 0\<rparr>
      else if dot s2 \<noteq> orig then check_context c s2 else s2)"
  have "s' = (if ch s4 (dot s4) = NL \<and> dot s4 - begin_line (tx s4) (dot s4) > 0 \<and> cmd_mode s4 = 0
      then s4\<lparr>dot := dot s4 - 1\<rparr> else s4)"
    using assms(1) unfolding finish_cmd_def v Option.bind.bind_lunit s2 Let_def s4_def by simp
  moreover have "ed s4 = ed s2 \<and> cmd_mode s4 = cmd_mode s2 \<and> vi_visual s4 = vi_visual s2"
    by (simp add: s4_def check_context_def)
  ultimately show ?thesis using same by simp
qed

text \<open>In normal mode one key is the switch between showing the status and the common end.\<close>

lemma do_cmd_normal:
  assumes "do_cmd c s = Some s'" and "cmd_mode s = 0" and "\<not> vi_visual s" and "c \<noteq> 39"
  obtains inner s1 s2 orig where "screen_only s s1" and "simple_cmd inner c s1 = Some s2" and "finish_cmd c orig s2 = Some s'"
proof -
  define inner where "inner = do_cmd_with (\<lambda>_ _. None)"
  obtain s1 orig s2 where
    st: "show_status_line (on_dsp (\<lambda>d. d\<lparr>keep_index := False\<rparr>) (s\<lparr>cmd_error := False\<rparr>)) = Some s1"
    and m: "mode_cmd inner c s1 = Some (orig, s2)" and f: "finish_cmd c orig s2 = Some s'"
    using assms(1) by (auto simp: do_cmd_def do_cmd_with_def inner_def bind_eq_Some_conv)
  have so: "screen_only s s1" by (rule shown(1) [OF st]) simp
  have "cmd_mode s1 = 0" "\<not> vi_visual s1" using screen_onlyD(3,5) [OF so] assms(2,3) by simp_all
  then have "simple_cmd inner c s1 = Some s2"
    using m assms(4) by (auto simp: mode_cmd_def key_cmd_mode_def switch_cmd_def Let_def split: if_splits)
  then show thesis using that so f by blast
qed

lemma ready_screen: "screen_only s s1 \<Longrightarrow> ready s \<Longrightarrow> ready s1"
  by (simp add: ready_def screen_onlyD)

lemma edit_key_change:
  assumes "do_cmd c s = Some s1" and "c \<in> edit_keys" and "ready s"
  shows "\<exists>b. editing_from (ed s) b s1"
proof -
  have "c \<noteq> 39" using assms(2) by (auto simp: edit_keys_def)
  then obtain inner sa sb orig where so: "screen_only s sa" and c: "simple_cmd inner c sa = Some sb"
    and f: "finish_cmd c orig sb = Some s1"
    using do_cmd_normal [OF assms(1)] assms(3) by (metis ready_def)
  obtain b where b: "editing_from (ed sa) b sb"
    using command_change [OF ready_screen [OF so assms(3)] assms(2) c] by blast
  then have "0 < vend sb" by (simp add: editing_from_def)
  from finish_keeps [OF f this] b screen_onlyD(1) [OF so] show ?thesis by (auto simp: editing_from_def)
qed

text \<open>
  C3. What one key changes, \<open>u\<close> takes back. The key is one of \<open>x\<close>, \<open>D\<close>, \<open>~\<close>, \<open>p\<close>, \<open>P\<close> and the delete
  key, with any count, pressed in a state that is \<open>ready\<close>: normal mode without a selection, no
  queued undo, a text whose last line ends in a newline, the cursor on one of its characters and on
  a newline only if the line is empty (where \<open>session_in_text\<close> leaves it), and the register in use unset
  or holding at least one character. Then the key changed neither the text nor the undo stack, or the
  next key \<open>u\<close> brings back the whole text it was pressed on. (Without the final newline it may not:
  \<open>undo_push\<close> drops the last character of a deletion that empties the text.)
\<close>

theorem command_undone:
  assumes "c \<in> edit_keys" and "ready s" and "do_cmd c s = Some s1" and "do_cmd (key CHR ''u'') s1 = Some s2"
  shows "(undo_stack (ed s1) = undo_stack (ed s) \<and> content (tx s1) = content (tx s)) \<or> content (tx s2) = content (tx s)"
proof -
  obtain b where b: "editing_from (ed s) b s1" using edit_key_change [OF assms(3,1,2)] by blast
  show ?thesis
  proof (cases b)
    case True
    obtain inner sa sb orig where so: "screen_only s1 sa" and c: "simple_cmd inner 117 sa = Some sb"
      and f: "finish_cmd 117 orig sb = Some s2"
      by (rule do_cmd_normal [OF assms(4)]) (use b in \<open>auto simp: editing_from_def\<close>)
    have sb: "sb = undo_pop sa" using c by (simp add: simple_cmd_def)
    have "changed True (ed s) (ed sa)" using b True screen_onlyD(1) [OF so] by (simp add: editing_from_def)
    then have u: "content (tx sb) = content (tx s)" unfolding sb by (rule changed_undone)
    have "content (tx s) \<noteq> []" using assms(2) by (simp add: ready_def ends_line_content)
    then have "0 < vend sb" unfolding u [symmetric] by (simp add: content_def span_def)
    then show ?thesis using finish_keeps [OF f] u by simp
  qed (use b changed_none in \<open>auto simp: editing_from_def\<close>)
qed

text \<open>The witness presses \<open>x\<close> and \<open>u\<close> on a screen that has only the status row.\<close>

definition small_demo :: vi where
  "small_demo = on_dsp (\<lambda>d. d\<lparr>rows := 1\<rparr>) demo"

lemma small_demo_keys:
  "map_option (\<lambda>(n, s). (n, vend s)) (Option.bind (do_cmd 120 small_demo)
     (\<lambda>s1. map_option (\<lambda>s2. (vend s1, s2)) (do_cmd 117 s1))) = Some (5, 6)"
  by code_simp

theorem command_undone_witness:
  "\<exists>s1 s2. do_cmd 120 small_demo = Some s1 \<and> do_cmd 117 s1 = Some s2 \<and> vend s1 = 5 \<and>
     content (tx s2) = content (tx small_demo)"
proof -
  obtain s1 s2 where s: "do_cmd 120 small_demo = Some s1" "do_cmd 117 s1 = Some s2" "vend s1 = 5"
    using small_demo_keys by (auto simp: bind_eq_Some_conv)
  have "ready small_demo \<and> vend small_demo = 6" by code_simp
  then have r: "ready small_demo" "length (content (tx small_demo)) = 6" by simp_all
  have "content (tx s1) \<noteq> content (tx small_demo)" using s(3) r(2) by (metis length_content nat_numeral num.distinct(5) num.inject numeral_eq_iff)
  then show ?thesis
    using command_undone [of 120 small_demo s1 s2] r(1) s by (auto simp: edit_keys_def)
qed

end
