(* ===== verification/ColonQuit.thy ===== *)
theory ColonQuit
  imports Colon
begin

text \<open>
  Leaving the editor with a colon command (\<open>colon\<close> of \<open>vim_cmd.c\<close>): only the quitting commands end
  the editing of a file, and none of them loses a modified text it was not told to lose.
\<close>

named_theorems editing_frames \<open>operations that do not touch \<open>editing\<close>\<close>

lemma editing_shown [editing_frames]:
  "editing (status_line w s) = editing s" "editing (status_line_bold w s) = editing s"
  "editing (status_line_bold_errno w s) = editing s" "editing (not_implemented w s) = editing s"
  "editing (force_status s) = editing s" "editing (on_dsp f s) = editing s" "editing (on_ed g s) = editing s"
  "editing (on_tb h s) = editing s" "editing (commit s) = editing s" "editing (dot_skip_over_ws s) = editing s"
  "editing (text_yank p q r ty s) = editing s" "editing (init_filename v s) = editing s"
  "editing (update_filename nm s) = editing s"
  by (simp_all add: status_line_def status_line_bold_def status_line_bold_errno_def not_implemented_def
      force_status_def on_dsp_def on_ed_def on_tb_def commit_def dot_skip_over_ws_def text_yank_def Let_def
      init_filename_def update_filename_def split: option.split)

lemma editing_edits [editing_frames]:
  "editing (snd (yank_delete p q ty d m s)) = editing s" "editing (snd (hole_delete p q m s)) = editing s"
  "editing (push_insert p n m s) = editing s" "editing (insert_byte p c s) = editing s"
  by (simp_all add: yank_delete_def hole_delete_def push_insert_def insert_byte_def Let_def editing_frames
      split: prod.split)

lemma editing_options [editing_frames]: "editing (setops a n s) = editing s" "editing (set_args w s) = editing s"
proof -
  show o: "editing (setops a n s) = editing s" for a n s
    by (simp add: setops_def Let_def editing_frames split: option.split)
  show "editing (set_args w s) = editing s"
    by (induction w s rule: set_args.induct) (subst set_args.simps, simp add: o)
qed

lemma editing_files [editing_frames]: "editing (snd (file_insert fn p i s)) = editing s"
  by (simp add: file_insert_def Let_def editing_frames split: option.split)

lemma editing_bounded: "bounded s = Some s' \<Longrightarrow> editing s' = editing s \<and> ed s' = ed s \<and> fsys s' = fsys s"
proof -
  assume "bounded s = Some s'"
  then obtain p s1 where b: "bound_dot (dot s) s = Some (p, s1)" "s' = s1\<lparr>dot := p\<rparr>"
    by (auto simp: bounded_def bind_eq_Some_conv)
  have "screen_only s s1" using bound_dot_screen [OF b(1), of s] by simp
  from screen_onlyD [OF this] b(2) show ?thesis by simp
qed

lemma editing_newline: "char_insert p NL m s = Some (q, s') \<Longrightarrow> editing s' = editing s"
  by (auto simp: char_insert_def insert_plain_def Let_def indent_after_newline_def in_strchr_def editing_frames
      split: if_splits prod.splits)

lemma editing_file_insertD: "file_insert fn p i s = (n, s') \<Longrightarrow> editing s' = editing s"
  using editing_files [of fn p i s] by simp

lemma editing_init_text: "init_text_buffer fn s = Some (n, s') \<Longrightarrow> editing s' = editing s"
proof -
  define s0 where "s0 = update_filename fn (on_dsp (\<lambda>d. d\<lparr>screenbegin := 0\<rparr>)
                 ((on_tb (\<lambda>_. \<lparr>mem = \<lambda>_. NUL, tend = 0, tsize = 10240\<rparr>) s)\<lparr>dot := 0\<rparr>))"
  have "editing s0 = editing s" by (simp add: s0_def editing_frames)
  then show "init_text_buffer fn s = Some (n, s') \<Longrightarrow> editing s' = editing s"
    by (auto simp: init_text_buffer_def Let_def s0_def [symmetric] bind_eq_Some_conv editing_frames split: prod.splits if_splits
        dest!: editing_file_insertD editing_newline)
qed

text \<open>The commands that go on editing.\<close>

lemma editing_edit: "colon_edit l s = Some s' \<Longrightarrow> editing s' = editing s"
  by (auto simp: colon_edit_def Let_def bind_eq_Some_conv editing_frames split: if_splits dest!: editing_init_text)

lemma editing_list: "colon_list l s = Some s' \<Longrightarrow> editing s' = editing s"
proof -
  assume "colon_list l s = Some s'"
  then obtain f where h: "Hit_Return (on_dsp f s) = Some s'" by (auto simp: colon_list_def split: prod.splits)
  have "screen_only s s'" by (rule shown(3) [OF h]) simp
  from screen_onlyD(17) [OF this] show ?thesis .
qed

lemma editing_pure [editing_frames]:
  "editing (colon_goto l s) = editing s" "editing (colon_where l s) = editing s" "editing (colon_file l s) = editing s"
  "editing (colon_set l s) = editing s" "editing (colon_yank l s) = editing s" "editing (colon_delete l s) = editing s"
proof -
  show "editing (colon_delete l s) = editing s"
  proof -
    have "yank_delete q r WHOLE True ALLOW_UNDO s = (p, s1) \<Longrightarrow> editing s1 = editing s" for q r p s1
      using editing_edits(1) [of q r WHOLE True ALLOW_UNDO s] by simp
    then show ?thesis by (auto simp: colon_delete_def editing_frames split: prod.split)
  qed
qed (simp_all add: colon_goto_def colon_where_def colon_file_def colon_set_def colon_yank_def Let_def editing_frames
    split: prod.split)

lemma editing_read [editing_frames]: "editing (colon_read l s) = editing s"
proof -
  define fn where "fn = (if c_args l \<noteq> [] then c_args l else the (current_filename s))"
  define s1 where "s1 = (if c_args l \<noteq> [] then init_filename fn s else s)"
  have s1: "editing s1 = editing s" by (simp add: s1_def editing_frames)
  have fi: "file_insert (Some fn) q False s1 = (n, s2) \<Longrightarrow> editing s2 = editing s" for q n s2
    using editing_file_insertD s1 by metis
  show ?thesis
    unfolding colon_read_def Let_def fn_def [symmetric] s1_def [symmetric]
    by (split prod.split, split if_split) (auto simp: editing_frames dest!: fi)
qed

lemma editing_subst_one: "subst_one F R i (x, s) = Some (p, x', s') \<Longrightarrow> editing s' = editing s"
  by (auto simp: subst_one_def Let_def editing_frames split: option.splits)

lemma editing_subst_line:
  assumes "subst_line F R g i st = Some r"
  shows "editing (snd r) = editing (snd st)"
proof (rule subst_line.raw_induct [where P = "\<lambda>F R g i st r. editing (snd r) = editing (snd st)", OF _ assms])
  fix sl :: "string \<Rightarrow> string \<Rightarrow> bool \<Rightarrow> int \<Rightarrow> subst_state \<times> vi \<Rightarrow> (subst_state \<times> vi) option"
    and F R g i st r
  assume IH: "\<And>F R g i st r. sl F R g i st = Some r \<Longrightarrow> editing (snd r) = editing (snd st)"
    and eq: "(case subst_one F R i st of None \<Rightarrow> Some st
      | Some (found, x, s) \<Rightarrow>
          (if g \<and> found + int (length R) < end_line (tx s) (ss_ls x)
           then sl F R g i (x\<lparr>ss_q := found + int (length R)\<rparr>, s) else Some (x, s))) = Some r"
  show "editing (snd r) = editing (snd st)"
    using eq editing_subst_one [of F R i "fst st" "snd st"] by (auto split: option.splits if_splits dest!: IH)
qed

lemma editing_subst_lines: "subst_lines n F R g i st = Some r \<Longrightarrow> editing (snd r) = editing (snd st)"
  by (induction n F R g i st rule: subst_lines.induct) (auto split: option.splits dest!: editing_subst_line)

lemma editing_substitute: "colon_substitute l s = Some s' \<Longrightarrow> editing s' = editing s"
  by (auto simp: colon_substitute_def Let_def bind_eq_Some_conv editing_frames split: if_splits prod.splits
      dest!: editing_bounded editing_subst_lines simp del: subst_lines.simps)

text \<open>The commands that may end the editing.\<close>

lemma quit_saved:
  "editing s \<noteq> 0 \<Longrightarrow> editing (colon_quit l s) = 0 \<Longrightarrow> c_force l \<or> modified_count (ed s) = 0"
  "editing s \<noteq> 0 \<Longrightarrow> editing (colon_rewind l s) = 0 \<Longrightarrow> c_force l \<or> modified_count (ed s) = 0"
  by (auto simp: colon_quit_def colon_rewind_def Let_def editing_frames split: if_splits)

lemma file_write_all:
  assumes "file_write fn 0 (vend s - 1) s = (vend s, s')" and "0 < vend s"
  shows "\<exists>f. fn = Some f \<and> written (fsys s') = written (fsys s) @ [(f, content (tx s))]"
  using assms by (auto simp: file_write_def Let_def content_def split: option.splits if_splits)

lemma fsys_shown: "fsys (status_line w s) = fsys s" "fsys (status_line_bold w s) = fsys s"
  "fsys (on_dsp f s) = fsys s" "fsys (on_ed g s) = fsys s"
  by (simp_all add: status_line_def status_line_bold_def on_dsp_def on_ed_def)

lemma editing_file_write: "file_write fn q r s = (n, s') \<Longrightarrow> editing s' = editing s"
  by (auto simp: file_write_def Let_def editing_frames split: option.splits if_splits)

definition target :: "string \<Rightarrow> vi \<Rightarrow> string option" where
  "target args s = (if args \<noteq> [] then Some args else current_filename s)"

lemma write_saved:
  assumes "editing s \<noteq> 0" and "editing (colon_write l s) = 0" and "c_q l = 0" and "c_r l = vend s - 1" and "0 < vend s"
  shows "modified_count (ed s) = 0 \<or>
    (\<exists>f. target (c_args l) s = Some f \<and> written (fsys (colon_write l s)) = written (fsys s) @ [(f, content (tx s))])"
proof (cases "modified_count (ed s) = 0")
  case mod: False
  define s1 where "s1 = (if c_args l \<noteq> [] then init_filename (c_args l) s else s)"
  have s1: "ed s1 = ed s" "fsys s1 = fsys s" "editing s1 = editing s"
    by (simp_all add: s1_def init_filename_def)
  obtain n s2 where w: "file_write (target (c_args l) s) 0 (vend s - 1) s1 = (n, s2)"
    by (cases "file_write (target (c_args l) s) 0 (vend s - 1) s1")
  have e2: "editing s2 = editing s" using editing_file_write [OF w] s1(3) by simp
  define cmd1 where "cmd1 = hd0 (drop 1 (c_cmd l))"
  have go: "\<not> (c_args l \<noteq> [] \<and> \<not> c_force l \<and> current_filename s \<noteq> Some (c_args l) \<and> st_size (fsys s) (c_args l) \<noteq> None)"
    (is "\<not> ?exists")
  proof
    assume ?exists
    then have "colon_write l s = status_line_bold ''File exists (:w! overrides)'' s"
      unfolding colon_write_def Let_def by (rule if_P)
    then show False using assms(1,2) by (simp add: editing_frames)
  qed
  have doit: "modified_count (ed s1) \<noteq> 0 \<or> hd0 (c_cmd l) \<noteq> CHR ''x''" using mod s1(1) by simp
  have size: "vend s - 1 - 0 + 1 = vend s" by simp
  note cw = colon_write_def [of l s, unfolded Let_def, folded target_def s1_def cmd1_def,
      unfolded assms(3,4) if_not_P [OF go] if_P [OF doit] w prod.case size]
  have n: "n = vend s"
  proof (rule ccontr)
    assume "n \<noteq> vend s"
    then have "editing (colon_write l s) = editing s" unfolding cw by (simp add: editing_frames e2)
    then show False using assms(1,2) by simp
  qed
  have f: "fsys (colon_write l s) = fsys s2"
    using n assms(5) unfolding cw by (simp add: fsys_shown)
  have "\<exists>f. target (c_args l) s = Some f \<and> written (fsys s2) = written (fsys s1) @ [(f, content (tx s1))]"
    using w assms(5) by (intro file_write_all [where s = s1]) (simp_all add: s1 n)
  then show ?thesis by (simp add: f s1)
qed simp

text \<open>A line that starts with a letter has no addresses, and its range is the whole text.\<close>

lemma no_address:
  assumes "isalpha (hd0 w)"
  shows "get_address w s = (Some w, - 1, - 1, 0, s)"
proof -
  obtain c cs where w: "w = c # cs" using assms by (cases w) (simp_all add: hd0_def ctype_defs)
  have c: "isalpha c" using assms by (simp add: w hd0_def)
  then have n: "\<not> isblank c" "\<not> isdigit c" "c \<noteq> CHR ''.''" "c \<noteq> CHR ''$''" "c \<noteq> CHR 0x27" "c \<noteq> CHR ''/''"
    "c \<noteq> CHR ''?''" "c \<noteq> CHR ''-''" "c \<noteq> CHR ''+''" "c \<noteq> CHR ''%''" "c \<noteq> CHR '',''" "c \<noteq> CHR '';''"
    by (auto simp: ctype_defs)
  have "get_one_address w s = (Some (w, count_lines (tx s) 0 (dot s), False), s)"
    by (simp add: get_one_address_def w address_loop.simps [of "c # cs"] n)
  then show ?thesis
    using n by (simp add: get_address_def addresses_loop.simps [of "c # cs"] w hd0_def)
qed

lemma whole_range:
  assumes "colon_range w b e 0 s = Inr l"
  shows "c_q l = 0" "c_r l = vend s - 1" "c_cmd l = fst (split_command w)" "c_force l = fst (snd (split_command w))"
    "c_args l = snd (snd (split_command w))"
  using assms by (auto simp: colon_range_def Let_def split: prod.splits)

definition command_word :: "string \<Rightarrow> string" where
  "command_word w = takeWhile (\<lambda>c. \<not> isspace c) w"

lemma forced_bang: "fst (snd (split_command w)) \<Longrightarrow> last (command_word w) = CHR ''!''"
  by (simp add: split_command_def command_word_def Let_def)

text \<open>What \<open>colon\<close> skips at the start of its line: the colons, one of which is the prompt, and blanks.\<close>

definition stripped :: "string \<Rightarrow> string" where
  "stripped w = dropWhile isblank (dropWhile (\<lambda>c. c = CHR '':'') w)"

text \<open>
  C4. No colon command leaves a modified text behind unless it is told to: when a line without an
  address, that is one on which a letter follows the colons and blanks at its start, ends the editing of
  the file, its first word ends in an exclamation mark, or the modification count was zero (no logged
  change since the last save; typed characters are not logged by the code), or the whole text was written
  to the file that the line or the editor names.
\<close>

theorem quit_keeps_work:
  assumes "isalpha (hd0 (stripped w))" and "colon w s = Some s'" and "editing s \<noteq> 0" and "editing s' = 0" and "0 < vend s"
  shows "last (command_word (stripped w)) = CHR ''!'' \<or> modified_count (ed s) = 0 \<or>
    (\<exists>f. target (snd (snd (split_command (stripped w)))) s = Some f \<and>
       written (fsys s') = written (fsys s) @ [(f, content (tx s))])"
proof -
  define v where "v = stripped w"
  have strip: "v \<noteq> []" "hd0 v \<noteq> CHR 0x22"
    using assms(1) unfolding v_def [symmetric] by (cases v; auto simp: hd0_def ctype_defs)+
  have b: "bounded x = Some s' \<Longrightarrow> editing x \<noteq> editing s" for x
    using editing_bounded [of x s'] assms(3,4) by auto
  have g: "get_address v s = (Some v, - 1, - 1, 0, s)" using assms(1) unfolding v_def by (rule no_address)
  have r: "\<not> (colon_range v (- 1) (- 1) 0 s = Inl x)" for x
    by (simp add: colon_range_def Let_def split: prod.split)
  obtain l where l: "colon_range v (- 1) (- 1) 0 s = Inr l" and d: "colon_dispatch l s = Some s'"
    using assms(2) strip g r by (auto simp: colon_def stripped_def [symmetric] v_def [symmetric] split: sum.splits)
  note range = whole_range [OF l]
  have "bounded (colon_quit l s) = Some s' \<or> bounded (colon_rewind l s) = Some s' \<or> bounded (colon_write l s) = Some s'"
  proof (rule ccontr)
    assume n: "\<not> ?thesis"
    have "Option.bind (colon_edit l s) bounded \<noteq> Some s'" "Option.bind (colon_list l s) bounded \<noteq> Some s'"
      "colon_substitute l s \<noteq> Some s'"
      using b assms(3,4) by (auto simp: bind_eq_Some_conv dest: editing_edit editing_list editing_substitute)
    then show False
      using d n unfolding colon_dispatch_def Let_def by (auto simp: editing_frames split: if_splits dest!: b)
  qed
  then show ?thesis
  proof (elim disjE)
    assume "bounded (colon_quit l s) = Some s'"
    from editing_bounded [OF this] show ?thesis
      using quit_saved(1) [OF assms(3), of l] assms(4) forced_bang [of v] range(4) by (auto simp: v_def)
  next
    assume "bounded (colon_rewind l s) = Some s'"
    from editing_bounded [OF this] show ?thesis
      using quit_saved(2) [OF assms(3), of l] assms(4) forced_bang [of v] range(4) by (auto simp: v_def)
  next
    assume "bounded (colon_write l s) = Some s'"
    from editing_bounded [OF this] show ?thesis
      using write_saved [OF assms(3) _ range(1,2) assms(5)] assms(4) range(5) by (auto simp: v_def)
  qed
qed

lemma quit_demo: "map_option (\<lambda>s. (editing s, written (fsys s))) (colon '':wq f'' (on_ed (\<lambda>u. u\<lparr>modified_count := 1\<rparr>) demo)) =
    Some (0, [(''f'', ''ab'' @ [NL] @ ''cd'' @ [NL])])"
  by code_simp

theorem quit_keeps_work_witness:
  "\<exists>s'. colon '':wq f'' (on_ed (\<lambda>u. u\<lparr>modified_count := 1\<rparr>) demo) = Some s' \<and> editing s' = 0 \<and>
     written (fsys s') = [(''f'', content (tx demo))]"
proof -
  let ?s = "on_ed (\<lambda>u. u\<lparr>modified_count := 1\<rparr>) demo"
  obtain s' where c: "colon '':wq f'' ?s = Some s'" "editing s' = 0"
    using quit_demo by auto
  have s: "isalpha (hd0 (stripped '':wq f''))" "editing ?s = 1" "vend ?s = 6" "modified_count (ed ?s) = 1"
    "last (command_word (stripped '':wq f'')) = CHR ''q''"
    "target (snd (snd (split_command (stripped '':wq f'')))) ?s = Some ''f''" "written (fsys ?s) = []"
    by code_simp+
  have "content (tx ?s) = content (tx demo)" by (simp add: on_ed_def)
  then show ?thesis using quit_keeps_work [OF s(1) c(1)] c s by auto
qed

end
