(* ===== verification/TerminalView.thy ===== *)
theory TerminalView
  imports Terminal
begin

text \<open>
  What the user sees. A model of the VT100 subset the editor drives (cursor addressing, erasing,
  colours, printed characters, the wrap at the right margin), and the refinement between it and the
  editor's virtual screen: the minimal repaint of \<open>refresh\<close> leaves the terminal showing the text.
  The virtual screen may hold the byte 0xFF for cells whose appearance is unknown
  (\<open>visual_invalidate_span\<close> writes it); everywhere else it must agree with the terminal.
\<close>

subsection \<open>The terminal\<close>

record vterm =
  v_rows :: int
  v_cols :: int
  v_cells :: "int \<Rightarrow> int \<Rightarrow> char \<times> pen"
  v_row :: int
  v_col :: int
  v_pen :: pen

text \<open>A printed character; past the right margin the cursor wraps first. Scrolling is not needed.\<close>

definition v_put :: "char \<Rightarrow> vterm \<Rightarrow> vterm" where
  "v_put c t =
     (let (r, k) = (if v_col t \<ge> v_cols t then (v_row t + 1, 0) else (v_row t, v_col t))
      in t\<lparr>v_cells := (\<lambda>i j. if i = r \<and> j = k then (c, v_pen t) else v_cells t i j),
           v_row := r, v_col := k + 1\<rparr>)"

fun v_nums :: "string \<Rightarrow> nat \<Rightarrow> nat list" where
  "v_nums [] k = [k]"
| "v_nums (c # cs) k = (if c = CHR '';'' then k # v_nums cs 0 else v_nums cs (10 * k + (nat (cval c) - 48)))"

text \<open>Row and column of a cursor address, counted from 1, a missing or zero one meaning 1.\<close>

definition v_home :: "nat list \<Rightarrow> vterm \<Rightarrow> vterm" where
  "v_home ns t =
     (let r = (case ns of a # _ \<Rightarrow> int a | [] \<Rightarrow> 1); k = (case ns of _ # b # _ \<Rightarrow> int b | _ \<Rightarrow> 1)
      in t\<lparr>v_row := min (max r 1) (v_rows t) - 1, v_col := min (max k 1) (v_cols t) - 1\<rparr>)"

definition v_csi :: "string \<Rightarrow> char \<Rightarrow> vterm \<Rightarrow> vterm" where
  "v_csi ps f t =
     (if f = CHR ''H'' then v_home (v_nums ps 0) t
      else if f = CHR ''m'' then t\<lparr>v_pen := sgr_params ps 0 (v_pen t)\<rparr>
      else if f = CHR ''K'' then
        t\<lparr>v_cells := (\<lambda>i j. if i = v_row t \<and> v_col t \<le> j then (CHR '' '', v_pen t) else v_cells t i j)\<rparr>
      else if f = CHR ''J'' then
        t\<lparr>v_cells := (\<lambda>i j. if v_row t < i \<or> (i = v_row t \<and> v_col t \<le> j) then (CHR '' '', v_pen t)
                          else v_cells t i j)\<rparr>
      else t)"

definition v_param :: "char \<Rightarrow> bool" where
  "v_param c \<longleftrightarrow> 48 \<le> cval c \<and> cval c \<le> 63"

function vt :: "string \<Rightarrow> vterm \<Rightarrow> vterm" where
  "vt [] t = t"
| "vt (c # cs) t =
     (if c = ESC then
        (case cs of
           [] \<Rightarrow> t
         | d # ds \<Rightarrow>
             if d = CHR ''['' then
               (case dropWhile v_param ds of
                  [] \<Rightarrow> t
                | f # rest \<Rightarrow> vt rest (v_csi (takeWhile v_param ds) f t))
             else vt ds t)
      else if c = CHR 0x08 then vt cs (t\<lparr>v_col := max 0 (v_col t - 1)\<rparr>)
      else if cval c < 32 \<or> cval c = 127 then vt cs t
      else vt cs (v_put c t))"
  by pat_completeness auto
termination
proof (relation "measure (\<lambda>(cs, t). length cs)")
  fix c :: char and cs :: string and t :: vterm and d ds f rest
  assume "cs = d # ds" "dropWhile v_param ds = f # rest"
  then show "((rest, v_csi (takeWhile v_param ds) f t), (c # cs, t)) \<in> measure (\<lambda>(cs, t). length cs)"
    using length_dropWhile_le [of v_param ds] by simp
qed auto

subsection \<open>The sequences the editor writes\<close>

definition same_place :: "vterm \<Rightarrow> vterm \<Rightarrow> bool" where
  "same_place t t' \<longleftrightarrow> v_rows t' = v_rows t \<and> v_cols t' = v_cols t \<and> v_cells t' = v_cells t \<and>
     v_row t' = v_row t \<and> v_col t' = v_col t"

lemma vt_csi:
  assumes "\<forall>c \<in> set ps. v_param c" and "\<not> v_param f"
  shows "vt (ESC # CHR ''['' # ps @ f # w) t = vt w (v_csi ps f t)"
proof -
  have "dropWhile v_param (ps @ f # w) = f # w" "takeWhile v_param (ps @ f # w) = ps"
    using assms by (simp_all add: dropWhile_append3 takeWhile_tail dropWhile_append takeWhile_append2)
  then show ?thesis by simp
qed

lemma vt_printable: "32 \<le> cval c \<Longrightarrow> cval c < 127 \<Longrightarrow> vt (c # w) t = vt w (v_put c t)"
  by (cases "c = ESC \<or> c = CHR 0x08") auto

lemma dec_nat_params: "c \<in> set (dec_nat n) \<Longrightarrow> v_param c \<and> c \<noteq> NUL \<and> c \<noteq> CHR '';''"
proof (induction n rule: dec_nat.induct)
  case (1 n)
  have d: "v_param (char_of (48 + k)) \<and> char_of (48 + k) \<noteq> NUL \<and> char_of (48 + k) \<noteq> CHR '';''" if "k < 10" for k :: nat
  proof -
    have "cval (char_of (48 + k)) = 48 + int k"
      using that by (simp add: cval_char_of)
    then show ?thesis using that by (auto simp: v_param_def)
  qed
  show ?case
    using 1 d [of n] d [of "n mod 10"] by (subst (asm) dec_nat.simps) (auto split: if_splits)
qed

lemma v_nums_dec_nat: "v_nums (dec_nat n @ w) 0 = v_nums w n"
proof (induction n arbitrary: w rule: dec_nat.induct)
  case (1 n)
  have d: "v_nums (char_of (48 + k) # w) m = v_nums w (10 * m + k)" if "k < 10" for k m :: nat and w
  proof -
    have "cval (char_of (48 + k)) = 48 + int k" using that by (simp add: cval_char_of)
    moreover from this have "char_of (48 + k) \<noteq> CHR '';''" using that by auto
    ultimately show ?thesis by (simp add: nat_add_distrib)
  qed
  show ?case
    using 1 d [of n w 0] d [of "n mod 10" w "n div 10"] by (subst dec_nat.simps) auto
qed


lemma dec_pos: "0 \<le> k \<Longrightarrow> dec k = dec_nat (nat k)"
  by (simp add: dec_def)

lemma cstr_id: "NUL \<notin> set w \<Longrightarrow> cstr w = w"
  unfolding cstr_def by (rule takeWhile_eq_all_conv [THEN iffD2]) auto

lemma vt_place_cursor:
  assumes "0 \<le> row" and "row < rows d" and "0 \<le> col" and "col < columns d"
    and "v_rows t = rows d" and "v_cols t = columns d"
  shows "\<exists>w. stdout (place_cursor row col d) = stdout d @ w \<and>
    (\<forall>rest. vt (w @ rest) t = vt rest (t\<lparr>v_row := row, v_col := col\<rparr>))"
proof -
  define ps where "ps = dec (row + 1) @ '';'' @ dec (col + 1)"
  have p: "\<forall>c \<in> set ps. v_param c \<and> c \<noteq> NUL"
    using assms dec_nat_params by (auto simp: ps_def dec_pos v_param_def)
  have "v_nums ps 0 = [nat (row + 1), nat (col + 1)]"
    using assms v_nums_dec_nat [of "nat (row + 1)" "CHR '';'' # dec_nat (nat (col + 1))"]
      v_nums_dec_nat [of "nat (col + 1)" "[]"] by (simp add: ps_def dec_pos)
  then have h: "v_csi ps (CHR ''H'') t = t\<lparr>v_row := row, v_col := col\<rparr>"
    using assms by (simp add: v_csi_def v_home_def)
  have "vt (ESC # CHR ''['' # ps @ CHR ''H'' # rest) t = vt rest (t\<lparr>v_row := row, v_col := col\<rparr>)" for rest
    by (subst vt_csi) (use p h in \<open>auto simp: v_param_def\<close>)
  moreover have "cstr (ESC # CHR ''['' # ps @ [CHR ''H'']) = ESC # CHR ''['' # ps @ [CHR ''H'']"
    by (rule cstr_id) (use p in auto)
  then have "stdout (place_cursor row col d) = stdout d @ (ESC # CHR ''['' # ps @ [CHR ''H''])"
    using assms by (simp add: place_cursor_def puts_no_eol_def ps_def)
  ultimately show ?thesis by (intro exI [of _ "ESC # CHR ''['' # ps @ [CHR ''H'']"]) simp
qed

lemma vt_hide_cursor:
  "\<exists>w. stdout (hide_cursor d) = stdout d @ w \<and> (\<forall>rest. vt (w @ rest) t = vt rest t)"
proof -
  have "vt (ESC_CURSOR_HIDE @ rest) t = vt rest t" for rest
    using vt_csi [of "''?25''" "CHR ''l''" rest t] by (simp add: ESC_CURSOR_HIDE_def v_param_def v_csi_def)
  moreover have "cstr ESC_CURSOR_HIDE = ESC_CURSOR_HIDE" by (rule cstr_id) (simp add: ESC_CURSOR_HIDE_def)
  ultimately show ?thesis
    by (cases "cursor_hidden d") (auto simp: hide_cursor_def puts_no_eol_def intro: exI [of _ "[]"])
qed

lemma vt_show_cursor:
  "\<exists>w. stdout (show_cursor d) = stdout d @ w \<and> (\<forall>rest. vt (w @ rest) t = vt rest t)"
proof -
  have "vt (ESC_CURSOR_SHOW @ rest) t = vt rest t" for rest
    using vt_csi [of "''?25''" "CHR ''h''" rest t] by (simp add: ESC_CURSOR_SHOW_def v_param_def v_csi_def)
  moreover have "cstr ESC_CURSOR_SHOW = ESC_CURSOR_SHOW" by (rule cstr_id) (simp add: ESC_CURSOR_SHOW_def)
  ultimately show ?thesis
    by (cases "cursor_hidden d") (auto simp: show_cursor_def puts_no_eol_def intro: exI [of _ "[]"])
qed

text \<open>
  Printing a slice: \<open>printed row col cs t t'\<close> says that the characters \<open>cs\<close> have been put on \<open>row\<close>
  from column \<open>col\<close> on and that nothing else on the screen has changed.
\<close>

definition printed :: "int \<Rightarrow> int \<Rightarrow> string \<Rightarrow> vterm \<Rightarrow> vterm \<Rightarrow> bool" where
  "printed row col cs t t' \<longleftrightarrow> v_rows t' = v_rows t \<and> v_cols t' = v_cols t \<and>
     v_row t' = row \<and> v_col t' = col + int (length cs) \<and>
     (\<forall>i j. fst (v_cells t' i j) =
        (if i = row \<and> col \<le> j \<and> j < col + int (length cs) then cs ! nat (j - col) else fst (v_cells t i j)))"

lemma printed_Nil: "v_row t = row \<Longrightarrow> v_col t = col \<Longrightarrow> printed row col [] t (t\<lparr>v_pen := p\<rparr>)"
  by (auto simp: printed_def)

lemma printed_Cons:
  assumes "v_row t = row" and "v_col t = col" and "col < v_cols t"
    and "printed row (col + 1) cs (v_put c (t\<lparr>v_pen := p\<rparr>)) t'"
  shows "printed row col (c # cs) t t'"
proof -
  have "fst (v_cells t' i j) =
      (if i = row \<and> col \<le> j \<and> j < col + int (length (c # cs)) then (c # cs) ! nat (j - col) else fst (v_cells t i j))"
    for i j
  proof (cases "i = row \<and> j = col")
    case False
    then show ?thesis
      using assms by (auto simp: printed_def v_put_def nth_Cons' intro!: arg_cong [where f = "nth cs"])
  qed (use assms in \<open>auto simp: printed_def v_put_def\<close>)
  then show ?thesis using assms by (auto simp: printed_def v_put_def)
qed

lemma vt_emit_slice:
  assumes "v_row t = row" and "v_col t = col" and "col + int k \<le> v_cols t"
    and "\<And>j. i \<le> j \<Longrightarrow> j < i + k \<Longrightarrow> 32 \<le> cval (vline ! j) \<and> cval (vline ! j) < 127"
    and "emit_slice cols sel vline i k cur cs = (w, r)"
  shows "\<exists>t'. (\<forall>rest. vt (w @ rest) t = vt rest t') \<and> printed row col (map (nth vline) [i..<i + k]) t t'"
  using assms
proof (induction k arbitrary: i cur cs t col w r)
  case 0
  then show ?case using printed_Nil [of t row col "v_pen t"] by (intro exI [of _ t]) auto
next
  case (Suc k)
  define o1 where "o1 = (if sel i \<noteq> cs then ESC_NORM_TEXT @ (if sel i then ESC_BOLD_TEXT else []) else [])"
  obtain p1 where p1: "\<And>x. vt (o1 @ x) t = vt x (t\<lparr>v_pen := p1\<rparr>)"
  proof -
    have "\<exists>p. \<forall>x. vt (o1 @ x) t = vt x (t\<lparr>v_pen := p\<rparr>)"
    proof -
      have n: "vt (ESC_NORM_TEXT @ x) t' = vt x (t'\<lparr>v_pen := sgr_params [] 0 (v_pen t')\<rparr>)" for x t'
        by (simp add: ESC_NORM_TEXT_def v_csi_def v_param_def)
      have b: "vt (ESC_BOLD_TEXT @ x) t' = vt x (t'\<lparr>v_pen := sgr_params ''7'' 0 (v_pen t')\<rparr>)" for x t'
        by (simp add: ESC_BOLD_TEXT_def v_csi_def v_param_def)
      show ?thesis by (auto simp: o1_def n b intro: exI [of _ "v_pen t"])
    qed
    then show thesis using that by blast
  qed
  define cur1 where "cur1 = (if sel i \<noteq> cs then None else cur)"
  define o2 where "o2 = (case cols of None \<Rightarrow> []
      | Some cb \<Rightarrow> if \<not> sel i \<and> Some (cb ! i) \<noteq> cur1 then sgr_seq (cb ! i) else [])"
  define cur2 where "cur2 = (case cols of None \<Rightarrow> cur1
      | Some cb \<Rightarrow> if \<not> sel i \<and> Some (cb ! i) \<noteq> cur1 then Some (cb ! i) else cur1)"
  obtain p2 where p2: "\<And>x. vt (o2 @ x) (t\<lparr>v_pen := p1\<rparr>) = vt x (t\<lparr>v_pen := p2\<rparr>)"
  proof -
    have s: "\<exists>p. \<forall>x. vt (sgr_seq c @ x) t' = vt x (t'\<lparr>v_pen := p\<rparr>)" for c t'
      by (cases c) (simp_all add: v_csi_def v_param_def, blast+)
    have "\<exists>p. \<forall>x. vt (o2 @ x) (t\<lparr>v_pen := p1\<rparr>) = vt x (t\<lparr>v_pen := p\<rparr>)"
      using s [of "the cols ! i" "t\<lparr>v_pen := p1\<rparr>"]
      by (auto simp: o2_def intro: exI [of _ p1] split: option.splits)
    then show thesis using that by blast
  qed
  obtain w3 r3 where e: "emit_slice cols sel vline (i + 1) k cur2 (sel i) = (w3, r3)"
    by (cases "emit_slice cols sel vline (i + 1) k cur2 (sel i)")
  have w: "w = o1 @ o2 @ vline ! i # w3"
    using Suc.prems(5) e by (auto simp: Let_def o1_def o2_def cur1_def cur2_def split: option.splits if_splits prod.splits)
  define t1 where "t1 = v_put (vline ! i) (t\<lparr>v_pen := p2\<rparr>)"
  have t1: "v_row t1 = row" "v_col t1 = col + 1" "col + 1 + int k \<le> v_cols t1"
    using Suc.prems(1-3) by (simp_all add: t1_def v_put_def)
  have "\<And>j. i + 1 \<le> j \<Longrightarrow> j < i + 1 + k \<Longrightarrow> 32 \<le> cval (vline ! j) \<and> cval (vline ! j) < 127"
    using Suc.prems(4) by simp
  from Suc.IH [OF t1 this e] obtain t' where t': "\<And>rest. vt (w3 @ rest) t1 = vt rest t'"
    "printed row (col + 1) (map (nth vline) [i + 1..<i + 1 + k]) t1 t'" by blast
  have "vt (w @ rest) t = vt rest t'" for rest
    using vt_printable [of "vline ! i" "w3 @ rest" "t\<lparr>v_pen := p2\<rparr>"] Suc.prems(4) [of i] t'(1)
    by (simp add: w p1 p2 t1_def)
  moreover have "printed row col (vline ! i # map (nth vline) [i + 1..<i + 1 + k]) t t'"
    by (rule printed_Cons) (use Suc.prems(1-3) t'(2) in \<open>auto simp: t1_def\<close>)
  moreover have "map (nth vline) [i..<i + Suc k] = vline ! i # map (nth vline) [i + 1..<i + 1 + k]"
    by (simp add: upt_rec)
  ultimately show ?case by auto
qed

lemma vt_write_slice:
  assumes "v_row t = row" and "v_col t = int a" and "a \<le> b" and "b < n" and "int n \<le> v_cols t"
    and "\<And>j. j < n \<Longrightarrow> 32 \<le> cval (vline ! j) \<and> cval (vline ! j) < 127"
  shows "\<exists>t'. (\<forall>rest. vt (syntax_write_slice mode n vline a (int b) sel @ rest) t = vt rest t') \<and>
     printed row (int a) (map (nth vline) [a..<b + 1]) t t'"
proof -
  obtain w cur cs where e: "emit_slice (line_colors mode vline n) sel vline a (b + 1 - a) None False = (w, cur, cs)"
    by (metis prod_cases3)
  have "\<exists>t'. (\<forall>rest. vt (w @ rest) t = vt rest t') \<and> printed row (int a) (map (nth vline) [a..<a + (b + 1 - a)]) t t'"
    by (rule vt_emit_slice [OF assms(1,2) _ _ e]) (use assms(3-6) in auto)
  then obtain t' where t': "\<And>rest. vt (w @ rest) t = vt rest t'" "printed row (int a) (map (nth vline) [a..<b + 1]) t t'"
    using assms(3) by auto
  have n: "vt (ESC_NORM_TEXT @ x) t' = vt x (t'\<lparr>v_pen := sgr_params [] 0 (v_pen t')\<rparr>)" for x
    by (simp add: ESC_NORM_TEXT_def v_csi_def v_param_def)
  have pp: "printed row (int a) (map (nth vline) [a..<b + 1]) t (t'\<lparr>v_pen := p\<rparr>)" for p
    using t'(2) by (simp add: printed_def)
  have "nat (int b - int a + 1) = b + 1 - a" using assms(3) by simp
  then have "syntax_write_slice mode n vline a (int b) sel = w @
      (if cs \<or> (case cur of None \<Rightarrow> False | Some c \<Rightarrow> c > C_DEFAULT) then ESC_NORM_TEXT else [])"
    using assms(3,4) e by (simp add: syntax_write_slice_def)
  then show ?thesis using t' n pp by auto
qed


subsection \<open>Formatted lines are printable\<close>

definition printables :: "string \<Rightarrow> bool" where
  "printables w \<longleftrightarrow> (\<forall>c \<in> set w. 32 \<le> cval c \<and> cval c < 127)"

lemma printables_append [simp]: "printables (v @ w) \<longleftrightarrow> printables v \<and> printables w"
  by (auto simp: printables_def)

lemma printables_printable: "cval c < 128 \<Longrightarrow> printables (printable c)"
  using cval_range [of c] by (auto simp: printable_def printables_def cval_to_char)

lemma printables_format_loop:
  "printables dest \<Longrightarrow> tend t \<le> src \<longrightarrow> 32 \<le> cval c \<and> cval c < 127 \<Longrightarrow>
   printables (fst (format_loop cols ts t src dest ofs c))"
proof (induction cols ts t src dest ofs c rule: format_loop.induct)
  case (1 cols ts t src dest ofs c)
  define c1 where "c1 = (if src < tend t then (if cval (mem t src) \<ge> 128 then CHR ''.'' else mem t src) else c)"
  define d1 where "d1 = (if src < tend t then dest @ printable c1 else dest @ [c1])"
  define cut where "cut = (ofs \<ge> ts \<and> int (length d1) \<ge> ts)"
  define d2 where "d2 = (if cut then drop (nat ts) d1 else d1)"
  define src1 where "src1 = (if src < tend t then src + 1 else src)"
  define ofs2 where "ofs2 = (if cut then ofs - ts else ofs)"
  have c1: "cval c1 < 128" using 1(4) by (auto simp: c1_def)
  have d1: "printables d1"
    using 1(3,4) c1 printables_printable [OF c1] by (auto simp: d1_def c1_def printables_def)
  then have d2: "printables d2" by (auto simp: d2_def printables_def dest: in_set_dropD)
  have tab: "printables (dest @ replicate n (CHR '' ''))" for n
    using 1(3) by (auto simp: printables_def)
  have step: "format_loop cols ts t src dest ofs c =
     (if int (length dest) < cols + ts then
        if src < tend t \<and> mem t src = NL then (dest, ofs)
        else if src < tend t \<and> mem t src = TAB then
          format_loop cols ts t (src + 1)
            (dest @ replicate (nat (ts - 1 - int (length dest) mod ts)) (CHR '' '')) ofs (CHR '' '')
        else if src1 \<ge> tend t then (d2, ofs2) else format_loop cols ts t src1 d2 ofs2 c1
      else (dest, ofs))"
    by (subst format_loop.simps) (simp only: Let_def c1_def d1_def cut_def d2_def src1_def ofs2_def)
  have IH2: "int (length dest) < cols + ts \<Longrightarrow> \<not> (src < tend t \<and> mem t src = NL) \<Longrightarrow>
      \<not> (src < tend t \<and> mem t src = TAB) \<Longrightarrow> \<not> src1 \<ge> tend t \<Longrightarrow>
      printables (fst (format_loop cols ts t src1 d2 ofs2 c1))"
    using 1(2) [OF _ _ _ c1_def src1_def d1_def cut_def d2_def ofs2_def] d2 by simp
  show ?case
    using 1(1) 1(3) tab d2 IH2 by (simp add: step)
qed

lemma format_line_printable:
  assumes "j < nat (columns (dsp s))"
  shows "32 \<le> cval (format_line s p ! j) \<and> cval (format_line s p ! j) < 127"
proof -
  obtain dest ofs where d: "format_loop (columns (dsp s)) (tabstop s) (tx s) p [] (offset (dsp s)) (CHR ''~'') = (dest, ofs)"
    by (cases "format_loop (columns (dsp s)) (tabstop s) (tx s) p [] (offset (dsp s)) (CHR ''~'')")
  have "printables dest"
    using printables_format_loop [of "[]" "tx s" p "CHR ''~''" "columns (dsp s)" "tabstop s" "offset (dsp s)"] d
    by (simp add: printables_def)
  then have "printables (format_line s p)"
    by (auto simp: format_line_def d Let_def printables_def dest!: in_set_takeD in_set_dropD)
  then show ?thesis using assms by (simp add: printables_def)
qed


subsection \<open>Repainting keeps the terminal in step with the virtual screen\<close>

text \<open>The cells above the status line agree, but for those poisoned in the virtual screen.\<close>

definition in_step :: "display \<Rightarrow> vterm \<Rightarrow> bool" where
  "in_step d t \<longleftrightarrow> v_rows t = rows d \<and> v_cols t = columns d \<and>
     (\<forall>i j. 0 \<le> i \<and> i < rows d - 1 \<and> 0 \<le> j \<and> j < columns d \<longrightarrow>
        screen d (i * columns d + j) = CHR 0xFF \<or> fst (v_cells t i j) = screen d (i * columns d + j))"

text \<open>What a step appends to the output, and what the terminal makes of it.\<close>

definition sends :: "display \<Rightarrow> display \<Rightarrow> vterm \<Rightarrow> vterm \<Rightarrow> bool" where
  "sends d d' t t' \<longleftrightarrow> (\<exists>w. stdout d' = stdout d @ w \<and> (\<forall>rest. vt (w @ rest) t = vt rest t'))"

lemma sends_refl [simp]: "sends d d t t"
  unfolding sends_def by (intro exI [of _ "[]"]) simp

lemma sends_trans [trans]: "sends a b t u \<Longrightarrow> sends b c u v \<Longrightarrow> sends a c t v"
  unfolding sends_def by force

lemma sends_stdout: "stdout d2 = stdout d1 \<Longrightarrow> stdout d2' = stdout d1' \<Longrightarrow> sends d1 d1' t t' = sends d2 d2' t t'"
  by (simp add: sends_def)

lemma sends_place: "0 \<le> row \<Longrightarrow> row < rows d \<Longrightarrow> 0 \<le> col \<Longrightarrow> col < columns d \<Longrightarrow> v_rows t = rows d \<Longrightarrow>
   v_cols t = columns d \<Longrightarrow> sends d (place_cursor row col d) t (t\<lparr>v_row := row, v_col := col\<rparr>)"
  unfolding sends_def by (rule vt_place_cursor)

lemma sends_hide: "sends d (hide_cursor d) t t"
  and sends_show: "sends d (show_cursor d) t t"
  unfolding sends_def by (rule vt_hide_cursor, rule vt_show_cursor)

lemma geometry_place [simp]:
  "rows (place_cursor r c d) = rows d" "columns (place_cursor r c d) = columns d"
  "rows (hide_cursor d) = rows d" "columns (hide_cursor d) = columns d"
  "rows (show_cursor d) = rows d" "columns (show_cursor d) = columns d"
  "offset (place_cursor r c d) = offset d" "offset (show_cursor d) = offset d"
  "screenbegin (place_cursor r c d) = screenbegin d" "screenbegin (show_cursor d) = screenbegin d"
  "crow (place_cursor r c d) = crow d" "crow (show_cursor d) = crow d"
  "ccol (place_cursor r c d) = ccol d" "ccol (show_cursor d) = ccol d"
  by (simp_all add: place_cursor_def hide_cursor_def show_cursor_def puts_no_eol_def Let_def)

lemma refresh_row_sends:
  assumes "0 < columns (dsp s)" and "0 \<le> li" and "li < rows (dsp s) - 1"
    and "v_rows t = rows (dsp s)" and "v_cols t = columns (dsp s)"
  shows "\<exists>t'. sends (dsp s) (dsp (refresh_row full tp li s)) t t' \<and>
    v_rows t' = v_rows t \<and> v_cols t' = v_cols t \<and>
    (\<forall>i j. i \<noteq> li \<longrightarrow> fst (v_cells t' i j) = fst (v_cells t i j)) \<and>
    (\<forall>j. 0 \<le> j \<and> j < columns (dsp s) \<longrightarrow>
       fst (v_cells t' li j) = format_line s tp ! nat j \<or>
       (fst (v_cells t' li j) = fst (v_cells t li j) \<and>
        format_line s tp ! nat j = screen (dsp s) (li * columns (dsp s) + j)))"
proof -
  let ?out = "format_line s tp" and ?sp = "li * columns (dsp s)" and ?d = "dsp s"
  define sel where "sel = (if vi_visual s then visual_line_mask s tp else (\<lambda>_. False))"
  show ?thesis
  proof (cases "repaint_span ?out (screen ?d) ?sp (columns ?d) full (offset ?d \<noteq> refresh_old_offset ?d)")
    case None
    have "?out ! nat j = screen ?d (?sp + j)" if "0 \<le> j" "j < columns ?d" for j
      using repaint_span_none [OF None, of "nat j"] that by simp
    then show ?thesis using None by (intro exI [of _ t]) (simp add: refresh_row_def Let_def)
  next
    case (Some ab)
    obtain cs ce where ab: "ab = (cs, ce)" by (cases ab)
    note sp = Some [unfolded ab]
    note b = repaint_span_bounds [OF sp assms(1)]
    define d1 where "d1 = hide_cursor ?d"
    define d2 where "d2 = d1\<lparr>screen := memcpy_str (screen d1) (?sp + int cs) (take (ce - cs + 1) (drop cs ?out))\<rparr>"
    define d3 where "d3 = place_cursor li (int cs) d2"
    have d': "dsp (refresh_row full tp li s) = d3\<lparr>stdout := stdout d3 @
        syntax_write_slice (cur_syntax d3) (nat (columns d3)) ?out cs (int ce) (\<lambda>i. sel (int i))\<rparr>"
      using sp by (simp add: refresh_row_def Let_def d1_def d2_def d3_def sel_def)
    have g: "columns d3 = columns ?d" by (simp add: d3_def d2_def d1_def)
    define t1 where "t1 = t\<lparr>v_row := li, v_col := int cs\<rparr>"
    have "sends ?d d1 t t" by (simp add: d1_def sends_hide)
    also have "sends d1 d2 t t" unfolding sends_def by (intro exI [of _ "[]"]) (simp add: d2_def)
    also have "sends d2 d3 t t1"
      unfolding d3_def t1_def by (rule sends_place) (use assms b in \<open>auto simp: d2_def d1_def\<close>)
    finally have s1: "sends ?d d3 t t1" .
    obtain t2 where t2: "\<And>rest. vt (syntax_write_slice (cur_syntax d3) (nat (columns d3)) ?out cs (int ce)
          (\<lambda>i. sel (int i)) @ rest) t1 = vt rest t2"
      "printed li (int cs) (map (nth ?out) [cs..<ce + 1]) t1 t2"
    proof -
      have "\<exists>t'. (\<forall>rest. vt (syntax_write_slice (cur_syntax d3) (nat (columns d3)) ?out cs (int ce)
          (\<lambda>i. sel (int i)) @ rest) t1 = vt rest t') \<and> printed li (int cs) (map (nth ?out) [cs..<ce + 1]) t1 t'"
        by (rule vt_write_slice)
          (use b assms format_line_printable [of _ s tp] g in \<open>auto simp: t1_def\<close>)
      then show thesis using that by blast
    qed
    have "sends d3 (dsp (refresh_row full tp li s)) t1 t2"
      using t2(1) unfolding sends_def d' by auto
    with s1 have sends: "sends ?d (dsp (refresh_row full tp li s)) t t2" by (rule sends_trans)
    have cells: "fst (v_cells t2 i j) = (if i = li \<and> int cs \<le> j \<and> j < int ce + 1 then ?out ! nat j
        else fst (v_cells t i j))" for i j
    proof -
      have "map (nth ?out) [cs..<ce + 1] ! nat (j - int cs) = ?out ! nat j" if "int cs \<le> j" "j < int ce + 1"
        using that by (subst nth_map) (auto simp del: upt_Suc intro!: arg_cong [where f = "nth ?out"])
      then show ?thesis
        using t2(2) b(1) by (auto simp: printed_def t1_def simp del: upt_Suc)
    qed
    have "?out ! nat j = screen ?d (?sp + j)" if "0 \<le> j" "j < columns ?d" "\<not> (int cs \<le> j \<and> j < int ce + 1)" for j
    proof (rule ccontr)
      assume "?out ! nat j \<noteq> screen ?d (?sp + j)"
      then show False using b(3) [of "nat j"] that by auto
    qed
    moreover have "v_rows t2 = v_rows t" "v_cols t2 = v_cols t"
      using t2(2) by (simp_all add: printed_def t1_def)
    ultimately show ?thesis
      using sends cells by (intro exI [of _ t2]) simp
  qed
qed

lemma format_line_not_poison:
  "j < nat (columns (dsp s)) \<Longrightarrow> format_line s p ! j \<noteq> CHR 0xFF"
  using format_line_printable [of j s p] by auto

lemma refresh_rows_sends:
  assumes "0 < columns (dsp s)" and "0 \<le> li" and "li + int n \<le> rows (dsp s) - 1" and "in_step (dsp s) t"
  shows "\<exists>t'. sends (dsp s) (dsp (refresh_rows n full tp li s)) t t' \<and>
    v_rows t' = v_rows t \<and> v_cols t' = v_cols t \<and>
    (\<forall>i j. i < li \<longrightarrow> fst (v_cells t' i j) = fst (v_cells t i j)) \<and>
    (\<forall>k j. k < n \<longrightarrow> 0 \<le> j \<longrightarrow> j < columns (dsp s) \<longrightarrow>
       fst (v_cells t' (li + int k) j) = format_line s ((refresh_next (tx s) ^^ k) tp) ! nat j)"
proof -
  let ?step = "\<lambda>s li t. v_rows t = rows (dsp s) \<and> v_cols t = columns (dsp s) \<and>
     (\<forall>i j. li \<le> i \<and> i < rows (dsp s) - 1 \<and> 0 \<le> j \<and> j < columns (dsp s) \<longrightarrow>
        screen (dsp s) (i * columns (dsp s) + j) = CHR 0xFF \<or>
        fst (v_cells t i j) = screen (dsp s) (i * columns (dsp s) + j))"
  have "?step s li t" using assms(2,4) by (auto simp: in_step_def)
  then show ?thesis
    using assms(1-3)
  proof (induction n arbitrary: tp li s t)
    case 0
    then show ?case by (intro exI [of _ t]) simp
  next
    case (Suc n)
    define s1 where "s1 = refresh_row full tp li s"
    have g: "same_geometry s s1" by (simp add: s1_def geometry_refresh_row)
    then have c: "columns (dsp s1) = columns (dsp s)" "rows (dsp s1) = rows (dsp s)" "tx s1 = tx s"
      by (simp_all add: same_geometry_def)
    obtain t1 where t1: "sends (dsp s) (dsp s1) t t1" "v_rows t1 = v_rows t" "v_cols t1 = v_cols t"
      "\<And>i j. i \<noteq> li \<Longrightarrow> fst (v_cells t1 i j) = fst (v_cells t i j)"
      "\<And>j. 0 \<le> j \<Longrightarrow> j < columns (dsp s) \<Longrightarrow> fst (v_cells t1 li j) = format_line s tp ! nat j \<or>
         (fst (v_cells t1 li j) = fst (v_cells t li j) \<and>
          format_line s tp ! nat j = screen (dsp s) (li * columns (dsp s) + j))"
      using refresh_row_sends [of s li t full tp] Suc.prems unfolding s1_def by auto
    have row: "fst (v_cells t1 li j) = format_line s tp ! nat j" if "0 \<le> j" "j < columns (dsp s)" for j
    proof -
      have "screen (dsp s) (li * columns (dsp s) + j) = CHR 0xFF \<or>
          fst (v_cells t li j) = screen (dsp s) (li * columns (dsp s) + j)"
        using Suc.prems that by auto
      then show ?thesis
        using t1(5) [OF that] format_line_not_poison [of "nat j" s tp] that by auto
    qed
    have scr: "screen (dsp s1) (i * columns (dsp s) + j) = screen (dsp s) (i * columns (dsp s) + j)"
      if "li + 1 \<le> i" "0 \<le> j" for i j
    proof -
      have "(li + 1) * columns (dsp s) \<le> i * columns (dsp s)"
        using that Suc.prems(2) by (intro mult_right_mono) auto
      then show ?thesis
        using that Suc.prems(2) by (simp add: s1_def refresh_row_screen distrib_right)
    qed
    have st: "?step s1 (li + 1) t1"
      using Suc.prems t1(2-4) scr c by auto
    have "0 < columns (dsp s1)" "0 \<le> li + 1" "li + 1 + int n \<le> rows (dsp s1) - 1"
      using Suc.prems c by auto
    from Suc.IH [OF st this, unfolded c, of "refresh_next (tx s) tp"] obtain t2 where t2:
      "sends (dsp s1) (dsp (refresh_rows n full (refresh_next (tx s) tp) (li + 1) s1)) t1 t2"
      "v_rows t2 = v_rows t1" "v_cols t2 = v_cols t1"
      "\<And>i j. i < li + 1 \<Longrightarrow> fst (v_cells t2 i j) = fst (v_cells t1 i j)"
      "\<And>k j. k < n \<Longrightarrow> 0 \<le> j \<Longrightarrow> j < columns (dsp s) \<Longrightarrow>
         fst (v_cells t2 (li + 1 + int k) j) = format_line s1 ((refresh_next (tx s) ^^ k) (refresh_next (tx s) tp)) ! nat j"
      by blast
    have "fst (v_cells t2 (li + int k) j) = format_line s ((refresh_next (tx s) ^^ k) tp) ! nat j"
      if "k < Suc n" "0 \<le> j" "j < columns (dsp s)" for k j
    proof (cases k)
      case 0
      then show ?thesis using t2(4) [of li j] row that by simp
    next
      case (Suc k')
      then show ?thesis
        using t2(5) [of k' j] that geometry_format [OF g] by (simp add: funpow_swap1 algebra_simps)
    qed
    moreover have "fst (v_cells t2 i j) = fst (v_cells t i j)" if "i < li" for i j
      using that t2(4) [of i j] t1(4) [of i j] by simp
    moreover have "sends (dsp s) (dsp (refresh_rows (Suc n) full tp li s)) t t2"
      using sends_trans [OF t1(1) t2(1)] by (simp add: s1_def)
    ultimately show ?case using t1(2,3) t2(2,3) by (intro exI [of _ t2]) simp
  qed
qed


text \<open>The bounds \<open>place_cursor\<close> forces on its arguments.\<close>

definition clamp :: "int \<Rightarrow> int \<Rightarrow> int" where
  "clamp n k = max 0 (min k (n - 1))"

lemma place_cursor_clamp:
  "0 < rows d \<Longrightarrow> 0 < columns d \<Longrightarrow> place_cursor row col d = place_cursor (clamp (rows d) row) (clamp (columns d) col) d"
  by (auto simp: place_cursor_def clamp_def Let_def)

lemma refresh_output:
  fixes full :: bool and s :: vi
  assumes "0 < columns (dsp s)" and "0 < rows (dsp s)" and "in_step (dsp s) t"
  defines "s' \<equiv> refresh full s"
  shows "\<exists>w. stdout (dsp s') = stdout (dsp s) @ w \<and> in_step (dsp s') (vt w t) \<and>
     (\<forall>i j. 0 \<le> i \<longrightarrow> i < rows (dsp s') - 1 \<longrightarrow> 0 \<le> j \<longrightarrow> j < columns (dsp s') \<longrightarrow>
        fst (v_cells (vt w t) i j) =
          format_line s' ((refresh_next (tx s') ^^ nat i) (screenbegin (dsp s'))) ! nat j) \<and>
     v_row (vt w t) = clamp (rows (dsp s')) (crow (dsp s')) \<and>
     v_col (vt w t) = clamp (columns (dsp s')) (ccol (dsp s'))"
proof -
  obtain ro co s1 where s1: "sync_cursor (dot s) s = ((ro, co), s1)" by (metis surj_pair)
  have k1: "columns (dsp s1) = columns (dsp s)" "rows (dsp s1) = rows (dsp s)" "tb (ed s1) = tb (ed s)"
    "screen (dsp s1) = screen (dsp s)" "stdout (dsp s1) = stdout (dsp s)"
    using s1 by (auto simp: sync_cursor_def Let_def split: prod.splits)
  define s2 where "s2 = s1\<lparr>dsp := (dsp s1)\<lparr>crow := ro, ccol := co,
      vis_last_screenbegin := (if vi_visual s1 then Some (screenbegin (dsp s1)) else None)\<rparr>\<rparr>"
  define fl where "fl = (full \<or> (vi_visual s1 \<and> Some (screenbegin (dsp s1)) \<noteq> vis_last_screenbegin (dsp s1)))"
  define n where "n = nat (rows (dsp s1) - 1)"
  define s3 where "s3 = refresh_rows n fl (screenbegin (dsp s1)) 0 s2"
  define d4 where "d4 = show_cursor (place_cursor (crow (dsp s3)) (ccol (dsp s3)) (dsp s3))"
  have k2: "columns (dsp s2) = columns (dsp s)" "rows (dsp s2) = rows (dsp s)" "tb (ed s2) = tb (ed s)"
    "screenbegin (dsp s2) = screenbegin (dsp s1)" "screen (dsp s2) = screen (dsp s)" "stdout (dsp s2) = stdout (dsp s)"
    by (simp_all add: s2_def k1)
  have g: "same_geometry s2 s3" unfolding s3_def by (rule geometry_refresh_rows)
  have "in_step (dsp s2) t" using assms(3) k2 by (simp add: in_step_def)
  moreover have "0 < columns (dsp s2)" "0 + int n \<le> rows (dsp s2) - 1" using assms k1 k2 by (simp_all add: n_def)
  ultimately obtain t3 where t3: "sends (dsp s2) (dsp s3) t t3" "v_rows t3 = v_rows t" "v_cols t3 = v_cols t"
    "\<And>k j. k < n \<Longrightarrow> 0 \<le> j \<Longrightarrow> j < columns (dsp s2) \<Longrightarrow>
       fst (v_cells t3 (0 + int k) j) = format_line s2 ((refresh_next (tx s2) ^^ k) (screenbegin (dsp s1))) ! nat j"
    using refresh_rows_sends [of s2 0 n t fl "screenbegin (dsp s1)"] unfolding s3_def by blast
  have g3: "rows (dsp s3) = rows (dsp s)" "columns (dsp s3) = columns (dsp s)"
    using g k2 by (simp_all add: same_geometry_def)
  define row where "row = clamp (rows (dsp s3)) (crow (dsp s3))"
  define col where "col = clamp (columns (dsp s3)) (ccol (dsp s3))"
  define t4 where "t4 = t3\<lparr>v_row := row, v_col := col\<rparr>"
  have v: "v_rows t = rows (dsp s)" "v_cols t = columns (dsp s)" using assms(3) by (simp_all add: in_step_def)
  have pc: "place_cursor (crow (dsp s3)) (ccol (dsp s3)) (dsp s3) = place_cursor row col (dsp s3)"
    unfolding row_def col_def by (rule place_cursor_clamp) (use assms g3 in auto)
  have "sends (dsp s2) (dsp s3) t t3" by (rule t3(1))
  also have "sends (dsp s3) (place_cursor row col (dsp s3)) t3 t4"
    unfolding t4_def
    by (rule sends_place) (use assms g3 t3 v in \<open>auto simp: row_def col_def clamp_def\<close>)
  also have "sends (place_cursor row col (dsp s3)) d4 t4 t4"
    unfolding d4_def pc by (rule sends_show)
  finally have "sends (dsp s2) d4 t t4" .
  then obtain w where w: "stdout d4 = stdout (dsp s2) @ w" "vt w t = t4"
    unfolding sends_def by (metis append_Nil2 vt.simps(1))
  define d5 where "d5 = (if keep_index d4 then d4 else d4\<lparr>cindex := ccol d4 + offset d4\<rparr>)"
  have "refresh full s = s3\<lparr>dsp := d5\<lparr>refresh_old_offset := offset d5\<rparr>\<rparr>"
    unfolding refresh_def s1 prod.case Let_def d5_def d4_def s3_def s2_def fl_def n_def by simp
  then have s': "s' = s3\<lparr>dsp := d5\<lparr>refresh_old_offset := offset d5\<rparr>\<rparr>" by (simp only: s'_def)
  have d': "screen (dsp s') = screen (dsp s3)" "stdout (dsp s') = stdout d4"
    "columns (dsp s') = columns (dsp s3)" "offset (dsp s') = offset (dsp s3)" "rows (dsp s') = rows (dsp s3)"
    "screenbegin (dsp s') = screenbegin (dsp s3)" "crow (dsp s') = crow (dsp s3)" "ccol (dsp s') = ccol (dsp s3)"
    and e: "tb (ed s') = tb (ed s3)" "tabstop s' = tabstop s3"
    by (simp_all add: s' d5_def) (simp_all add: d4_def)
  have "format_line s' p = format_line s3 p" for p
    by (rule format_line_cong) (use e d' in auto)
  then have fm: "format_line s' p = format_line s2 p" for p
    using geometry_format [OF g] by simp
  have sb: "screenbegin (dsp s') = screenbegin (dsp s1)" "tx s' = tx s2"
    using g k2 e d' by (simp_all add: same_geometry_def)
  have shown: "fst (v_cells t4 i j) = format_line s' ((refresh_next (tx s') ^^ nat i) (screenbegin (dsp s'))) ! nat j"
    if "0 \<le> i" "i < rows (dsp s') - 1" "0 \<le> j" "j < columns (dsp s')" for i j
    using t3(4) [of "nat i" j] that g3 d' k1 k2 by (simp add: t4_def fm sb n_def)
  have "screen (dsp s') (i * columns (dsp s') + j) = fst (v_cells t4 i j)"
    if "0 \<le> i" "i < rows (dsp s') - 1" "0 \<le> j" "j < columns (dsp s')" for i j
    using refresh_screen [of s "nat i" "nat j" full, folded s'_def] shown [OF that] that assms(1) d' g3
    by simp
  then have "in_step (dsp s') t4"
    using t3 v d' g3 by (simp add: in_step_def t4_def)
  then show ?thesis
    using w shown d' g3 k2 by (intro exI [of _ w]) (simp add: t4_def row_def col_def)
qed

text \<open>
  C5. The terminal shows the text: if the terminal agrees with the virtual screen outside the
  poisoned cells, then the bytes that \<open>refresh\<close> writes leave every row above the status line
  showing the formatted text line of that row, in step with the virtual screen again, with the
  terminal's cursor at the position computed for dot.
\<close>

theorem refresh_seen:
  fixes full :: bool and s :: vi
  assumes "0 < columns (dsp s)" and "0 < rows (dsp s)" and "in_step (dsp s) t"
  defines "s' \<equiv> refresh full s"
  shows "\<exists>w. stdout (dsp s') = stdout (dsp s) @ w \<and> in_step (dsp s') (vt w t) \<and>
     (\<forall>i j. 0 \<le> i \<longrightarrow> i < rows (dsp s') - 1 \<longrightarrow> 0 \<le> j \<longrightarrow> j < columns (dsp s') \<longrightarrow>
        fst (v_cells (vt w t) i j) =
          format_line s' ((refresh_next (tx s') ^^ nat i) (screenbegin (dsp s'))) ! nat j) \<and>
     v_row (vt w t) = clamp (rows (dsp s')) (crow (dsp s')) \<and>
     v_col (vt w t) = clamp (columns (dsp s')) (ccol (dsp s'))"
  unfolding s'_def by (rule refresh_output) (use assms in auto)

definition blank_terminal :: vterm where
  "blank_terminal = \<lparr>v_rows = 3, v_cols = 20, v_cells = (\<lambda>_ _. (CHR '' '', plain_pen)), v_row = 0, v_col = 0,
     v_pen = plain_pen\<rparr>"

theorem refresh_seen_witness:
  "\<exists>w. stdout (dsp (refresh False demo)) = stdout (dsp demo) @ w \<and>
     in_step (dsp (refresh False demo)) (vt w blank_terminal) \<and>
     (\<forall>i j. 0 \<le> i \<longrightarrow> i < rows (dsp (refresh False demo)) - 1 \<longrightarrow> 0 \<le> j \<longrightarrow> j < columns (dsp (refresh False demo)) \<longrightarrow>
        fst (v_cells (vt w blank_terminal) i j) =
          format_line (refresh False demo)
            ((refresh_next (tx (refresh False demo)) ^^ nat i) (screenbegin (dsp (refresh False demo)))) ! nat j) \<and>
     v_row (vt w blank_terminal) = clamp (rows (dsp (refresh False demo))) (crow (dsp (refresh False demo))) \<and>
     v_col (vt w blank_terminal) = clamp (columns (dsp (refresh False demo))) (ccol (dsp (refresh False demo)))"
  by (rule refresh_seen) (simp_all add: demo_def editor_of_def in_step_def blank_terminal_def)

subsection \<open>Repainting from scratch\<close>

text \<open>The preparation of \<open>redraw\<close>: home, clear to the end of the screen, forget the virtual screen.\<close>

definition clear_for_redraw :: "vi \<Rightarrow> vi" where
  "clear_for_redraw = on_dsp (\<lambda>d. (screen_erase
     (puts_no_eol (ESC_SET_CURSOR_TOPLEFT @ ESC_CLEAR2EOS) d))\<lparr>last_status_cksum := 0\<rparr>)"

lemma redraw_with_clear: "redraw_with status full s = status (refresh full (clear_for_redraw s))"
  by (simp add: redraw_with_def clear_for_redraw_def)

lemma vt_home_clear:
  "0 < v_rows t \<Longrightarrow> 0 < v_cols t \<Longrightarrow> vt (ESC_SET_CURSOR_TOPLEFT @ ESC_CLEAR2EOS @ w) t =
   vt w (t\<lparr>v_row := 0, v_col := 0, v_cells := (\<lambda>i j. if 0 < i \<or> (i = 0 \<and> 0 \<le> j) then (CHR '' '', v_pen t)
     else v_cells t i j)\<rparr>)"
  by (simp add: ESC_SET_CURSOR_TOPLEFT_def ESC_CLEAR2EOS_def v_csi_def v_home_def v_param_def cong: if_cong)

lemma clear_in_step:
  assumes "v_rows t = rows (dsp s)" and "v_cols t = columns (dsp s)" and "0 < rows (dsp s)" and "0 < columns (dsp s)"
    and "rows (dsp s) * columns (dsp s) \<le> screensize (dsp s)"
  shows "\<exists>w. stdout (dsp (clear_for_redraw s)) = stdout (dsp s) @ w \<and>
    (\<exists>t'. in_step (dsp (clear_for_redraw s)) t' \<and> (\<forall>rest. vt (w @ rest) t = vt rest t'))"
proof -
  have "cstr (ESC_SET_CURSOR_TOPLEFT @ ESC_CLEAR2EOS) = ESC_SET_CURSOR_TOPLEFT @ ESC_CLEAR2EOS"
    by (rule cstr_id) (simp add: ESC_SET_CURSOR_TOPLEFT_def ESC_CLEAR2EOS_def)
  then have out: "stdout (dsp (clear_for_redraw s)) = stdout (dsp s) @ ESC_SET_CURSOR_TOPLEFT @ ESC_CLEAR2EOS"
    by (simp add: clear_for_redraw_def on_dsp_def screen_erase_def puts_no_eol_def)
  define t' where "t' = t\<lparr>v_row := 0, v_col := 0, v_cells := (\<lambda>i j. if 0 < i \<or> (i = 0 \<and> 0 \<le> j)
      then (CHR '' '', v_pen t) else v_cells t i j)\<rparr>"
  have "vt ((ESC_SET_CURSOR_TOPLEFT @ ESC_CLEAR2EOS) @ rest) t = vt rest t'" for rest
    using vt_home_clear [of t rest] assms by (simp add: t'_def)
  moreover have "in_step (dsp (clear_for_redraw s)) t'"
  proof -
    have "i * columns (dsp s) + j < screensize (dsp s)"
      if "0 \<le> i" "i < rows (dsp s) - 1" "0 \<le> j" "j < columns (dsp s)" for i j
    proof -
      have "(i + 1) * columns (dsp s) \<le> rows (dsp s) * columns (dsp s)"
        using that by (intro mult_right_mono) auto
      then show ?thesis using that assms(5) by (simp add: distrib_right)
    qed
    then show ?thesis
      using assms by (auto simp: in_step_def t'_def clear_for_redraw_def on_dsp_def screen_erase_def puts_no_eol_def memset_def)
  qed
  ultimately show ?thesis using out by blast
qed

text \<open>
  C12. A redraw repairs any screen: whatever the terminal shows and whatever the virtual screen says,
  the bytes written for clearing and refreshing leave every row above the status line showing the
  text, in step with the virtual screen.
\<close>

theorem redraw_repairs:
  fixes full :: bool and s :: vi
  assumes "v_rows t = rows (dsp s)" and "v_cols t = columns (dsp s)" and "0 < rows (dsp s)" and "0 < columns (dsp s)"
    and "rows (dsp s) * columns (dsp s) \<le> screensize (dsp s)"
  defines "s' \<equiv> refresh full (clear_for_redraw s)"
  shows "\<exists>w. stdout (dsp s') = stdout (dsp s) @ w \<and> in_step (dsp s') (vt w t) \<and>
     (\<forall>i j. 0 \<le> i \<longrightarrow> i < rows (dsp s') - 1 \<longrightarrow> 0 \<le> j \<longrightarrow> j < columns (dsp s') \<longrightarrow>
        fst (v_cells (vt w t) i j) =
          format_line s' ((refresh_next (tx s') ^^ nat i) (screenbegin (dsp s'))) ! nat j)"
proof -
  obtain w1 t1 where c: "stdout (dsp (clear_for_redraw s)) = stdout (dsp s) @ w1"
    "in_step (dsp (clear_for_redraw s)) t1" "\<And>rest. vt (w1 @ rest) t = vt rest t1"
    using clear_in_step [OF assms(1-5)] by blast
  have "0 < columns (dsp (clear_for_redraw s))" "0 < rows (dsp (clear_for_redraw s))"
    using assms by (simp_all add: clear_for_redraw_def on_dsp_def screen_erase_def puts_no_eol_def)
  from refresh_output [OF this c(2), of full, folded s'_def] obtain w2 where
    "stdout (dsp s') = stdout (dsp (clear_for_redraw s)) @ w2" "in_step (dsp s') (vt w2 t1)"
    "\<forall>i j. 0 \<le> i \<longrightarrow> i < rows (dsp s') - 1 \<longrightarrow> 0 \<le> j \<longrightarrow> j < columns (dsp s') \<longrightarrow>
        fst (v_cells (vt w2 t1) i j) =
          format_line s' ((refresh_next (tx s') ^^ nat i) (screenbegin (dsp s'))) ! nat j" by blast
  then show ?thesis using c(1,3) by (intro exI [of _ "w1 @ w2"]) simp
qed

theorem redraw_repairs_witness:
  "\<exists>w. stdout (dsp (refresh True (clear_for_redraw demo))) = stdout (dsp demo) @ w \<and>
     in_step (dsp (refresh True (clear_for_redraw demo))) (vt w (v_put (CHR ''x'') blank_terminal)) \<and>
     (\<forall>i j. 0 \<le> i \<longrightarrow> i < rows (dsp (refresh True (clear_for_redraw demo))) - 1 \<longrightarrow> 0 \<le> j \<longrightarrow>
        j < columns (dsp (refresh True (clear_for_redraw demo))) \<longrightarrow>
        fst (v_cells (vt w (v_put (CHR ''x'') blank_terminal)) i j) =
          format_line (refresh True (clear_for_redraw demo))
            ((refresh_next (tx (refresh True (clear_for_redraw demo))) ^^ nat i)
              (screenbegin (dsp (refresh True (clear_for_redraw demo))))) ! nat j)"
  by (rule redraw_repairs) (simp_all add: demo_def editor_of_def blank_terminal_def v_put_def)

end
