(* ===== verification/EditLoop.thy ===== *)
theory EditLoop
  imports Commands TerminalView
begin

text \<open>
  The editing loop and the process (\<open>vim_main.c\<close>): one key after the other until \<open>editing\<close> drops
  to zero, the list of files, and the start-up commands. The loops may run for ever, so they are
  partial functions into \<open>option\<close>. The terminal's raw mode is the driver's business and is not
  modelled.
\<close>

text \<open>\<open>strchr(q, '\n')\<close> and the run of newlines after it: one command and what follows, if any.\<close>

definition next_command :: "string \<Rightarrow> string \<times> string option" where
  "next_command w =
     (let q = takeWhile (\<lambda>c. c \<noteq> NL) w; rest = drop (length q) w
      in (q, if rest = [] then None else Some (dropWhile (\<lambda>c. c = NL) rest)))"

lemma next_command_shorter: "next_command w = (q, Some rest) \<Longrightarrow> length rest < length w"
proof -
  assume a: "next_command w = (q, Some rest)"
  define r where "r = drop (length (takeWhile (\<lambda>c. c \<noteq> NL) w)) w"
  have r: "r \<noteq> []" "rest = dropWhile (\<lambda>c. c = NL) r"
    using a by (auto simp: next_command_def Let_def r_def split: if_splits)
  have "r = dropWhile (\<lambda>c. c \<noteq> NL) w"
    unfolding r_def by (rule dropWhile_eq_drop [symmetric])
  then have "hd r = NL" using r(1) hd_dropWhile [of "\<lambda>c. c \<noteq> NL" w] by auto
  then have "length rest < length r"
    using r length_dropWhile_le [of "\<lambda>c. c = NL" "tl r"] by (cases r) auto
  then show ?thesis by (simp add: r_def)
qed

function run_cmds :: "string \<Rightarrow> vi \<Rightarrow> vi option" where
  "run_cmds w s =
     (case next_command w of
        (q, rest) \<Rightarrow>
          (case (if length q < MAX_INPUT_LEN then colon q s else Some s) of
             None \<Rightarrow> None
           | Some s1 \<Rightarrow> (case rest of None \<Rightarrow> Some s1 | Some w' \<Rightarrow> run_cmds w' s1)))"
  by pat_completeness auto
termination
  by (relation "measure (\<lambda>(w, s). length w)") (auto dest: next_command_shorter [OF sym])

declare run_cmds.simps [simp del]

subsection \<open>One round of the loop\<close>

definition remember_line :: "vi \<Rightarrow> vi" where
  "remember_line s =
     (let b = begin_line (tx s) (dot s)
      in if Some b \<noteq> edit_file_cur_line s
         then text_yank b (end_line (tx s) (dot s)) 27 PARTIAL (s\<lparr>edit_file_cur_line := Some b\<rparr>)
         else s)"

definition modifying_cmds :: string where
  "modifying_cmds = ''aAcCdDiIJoOpPrRsxX<>~''"

definition starts_recording :: "int \<Rightarrow> vi \<Rightarrow> bool" where
  "starts_recording c s \<longleftrightarrow>
     \<not> adding2q (kbd s) \<and> ioq (kbd s) = None \<and> cmd_mode s = 0 \<and> \<not> vi_visual s \<and> c > 0 \<and> c < 127 \<and>
     in_strchr modifying_cmds c"

definition selection :: "vi \<Rightarrow> (ptr option \<times> ptr option)" where
  "selection s =
     (if vi_visual s then (Some (min (anchor_of s) (dot s)), Some (max (anchor_of s) (dot s)))
      else (None, None))"

definition update_screen :: "ptr option \<times> ptr option \<Rightarrow> vi \<Rightarrow> vi option" where
  "update_screen vis s =
     (if rb_count (kbd s) = 0 \<or> (fst vis \<noteq> None \<and> \<not> vi_visual s) then
        (let s1 = (if vi_visual s then
                     (if vis \<noteq> selection s then
                        visual_invalidate_span (fst (selection s)) (snd (selection s))
                          (visual_invalidate_span (fst vis) (snd vis) s)
                      else s)
                   else if fst vis \<noteq> None then visual_invalidate_span (fst vis) (snd vis) s
                   else s)
         in show_status_line (refresh False s1))
      else Some s)"

definition edit_round :: "vi \<Rightarrow> vi option" where
  "edit_round s =
     do {
       (c, s1) \<leftarrow> getc s;
       (let s2 = remember_line s1;
            s3 = (if starts_recording c s2 then start_new_cmd_q c s2 else s2);
            vis = selection s3
        in do {
             s4 \<leftarrow> do_cmd c s3;
             update_screen vis s4
           })
     }"

partial_function (option) edit_loop :: "vi \<Rightarrow> vi option" where
  "edit_loop s = (if editing s > 0 then Option.bind (edit_round s) edit_loop else Some s)"

declare edit_loop.simps [code]

definition edit_file_init :: "string option \<Rightarrow> vi \<Rightarrow> vi option" where
  "edit_file_init fn s =
     do {
       (rc, s1) \<leftarrow> init_text_buffer fn
          (on_dsp (\<lambda>d. new_screen (rows d) (columns d) d) (s\<lparr>editing := 1\<rparr>));
       (let s2 = s1\<lparr>YDreg := 26, marks := (marks s1)(26 := Some 0, 27 := Some 0), cmd_mode := 0,
                    vi_visual := False, vi_visual_anchor := None, cmdcnt := 0\<rparr>;
            s3 = on_kbd (\<lambda>k. k\<lparr>ioq := None, adding2q := False\<rparr>)
                   (on_dsp (\<lambda>d. d\<lparr>crow := 0, ccol := 0, offset := 0\<rparr>) s2)
        in redraw False s3)
     }"

definition edit_file :: "string option \<Rightarrow> vi \<Rightarrow> vi option" where
  "edit_file fn s =
     do {
       s1 \<leftarrow> edit_file_init fn s;
       s2 \<leftarrow> edit_loop s1;
       Some (on_dsp go_bottom_and_clear_to_eol s2)
     }"

subsection \<open>The process\<close>

text \<open>
  The loop over the arguments: \<open>vi_optind\<close> may be moved by \<open>:prev\<close>, \<open>:rewind\<close> and \<open>:x!\<close>.
  \<open>argv\<close> is the vector, with the program's name first. The bound is \<open>main\<close>'s own parameter,
  which hides the global \<open>argc\<close> that the colon commands read: that one keeps its zero.
\<close>

partial_function (option) edit_files :: "string list \<Rightarrow> vi \<Rightarrow> vi option" where
  "edit_files argv s =
     (if vi_optind s < int (length argv) then
        Option.bind (edit_file (Some (argv ! nat (vi_optind s))) s)
          (\<lambda>s1. edit_files argv (s1\<lparr>vi_optind := vi_optind s1 + 1\<rparr>))
      else Some s)"

declare edit_files.simps [code]

text \<open>The state in which \<open>main\<close> finds the globals, for a driver, an input and a file system.\<close>

definition initial_vi :: "tty_driver \<Rightarrow> event list \<Rightarrow> filesystem \<Rightarrow> vi" where
  "initial_vi drv input files =
     get_screen_xy drv
       \<lparr>ed = \<lparr>tb = \<lparr>mem = \<lambda>_. NUL, tend = 0, tsize = 0\<rparr>, modified_count = 0, undo_stack = [],
              undo_queue_state = UNDO_EMPTY, undo_queue_spos = 0, undo_q = 0, undo_queue = \<lambda>_. NUL\<rparr>,
        dsp = \<lparr>rows = 0, columns = 0, crow = 0, ccol = 0, offset = 0, screen = \<lambda>_. NUL, screensize = 0,
               screenbegin = 0, have_status_msg = 0, last_status_cksum = 0, status_buffer = [],
               last_modified_count = - 1, format_edit_status_tot = 0, refresh_old_offset = 0,
               cursor_hidden = False, vis_last_screenbegin = None, cindex = 0, keep_index = False,
               cur_syntax = SYNTAX_NONE, stdout = []\<rparr>,
        kbd = \<lparr>stdin = input, rb_count = 0, rb = \<lambda>_. NUL, adding2q = False, last_modifying_cmd = [],
               ioq = None, dotcnt = 0\<rparr>,
        fsys = files, dot = 0, marks = \<lambda>_. None, regs = \<lambda>_. None, regtype = \<lambda>_. PARTIAL, allocs = 0,
        YDreg = 0, vi_setops = 0, tabstop = 8, cmd_mode = 0, cmdcnt = 0, cmd_error = False,
        editing = 0, current_filename = None, last_search_pattern = [], last_search_char = 0,
        last_search_cmd = 0, indentcol = 0, vi_visual = False, vi_visual_anchor = None,
        edit_file_cur_line = None, argc = 0, vi_optind = 0\<rparr>"

definition exrc :: string where
  "exrc = ''/.exrc''"

definition run_exrc :: "vi \<Rightarrow> vi option" where
  "run_exrc s =
     (if st_size (fsys s) exrc = None \<or> \<not> can_read (fsys s) exrc then Some s
      else
        do {
          (rc, s1) \<leftarrow> init_text_buffer None s;
          run_cmds (cstr (case read_bytes (fsys s) exrc of Some w \<Rightarrow> w | None \<Rightarrow> [])) s1
        })"

definition main :: "string list \<Rightarrow> vi \<Rightarrow> vi option" where
  "main argv s =
     do {
       s1 \<leftarrow> run_exrc s;
       (let s2 = (on_dsp (puts_no_eol (ESC # ''[H'' @ ESC # ''[2J'')) s1)\<lparr>vi_optind := 0\<rparr>
        in do {
             s3 \<leftarrow> (if length argv < 2 then edit_file None s2
                    else edit_files argv (s2\<lparr>vi_optind := 1\<rparr>));
             Some (on_dsp (\<lambda>d. puts_no_eol (ESC # ''[H'' @ ESC # ''[2J'') (show_cursor d))
                    (on_ed flush_undo_data s3))
           })
     }"

end
