(* ===== verification/EditSession.thy ===== *)
theory EditSession
  imports EditLoop UndoCommand
begin

text \<open>
  What holds through a whole session: the cursor after any number of rounds of the editing loop, the
  options after any \<open>:set\<close>, and the commands a start-up file runs.
\<close>

subsection \<open>Rounds of the loop\<close>

definition in_text :: "vi \<Rightarrow> bool" where
  "in_text s \<longleftrightarrow> 0 < vend s \<and> 0 \<le> dot s \<and> dot s \<le> vend s"

text \<open>The cursor of the normal mode is on a newline only if the line is empty.\<close>

definition on_line :: "vi \<Rightarrow> bool" where
  "on_line s \<longleftrightarrow> (cmd_mode s = 0 \<and> ch s (dot s) = NL \<longrightarrow> begin_line (tx s) (dot s) = dot s)"

inductive session :: "vi \<Rightarrow> vi \<Rightarrow> bool" for s0 :: vi where
  session_start: "session s0 s0"
| session_round: "session s0 s \<Longrightarrow> 0 < editing s \<Longrightarrow> edit_round s = Some s' \<Longrightarrow> session s0 s'"

lemma in_text_do_cmd: "do_cmd c s = Some s' \<Longrightarrow> 0 \<le> vend s \<Longrightarrow> in_text s'"
  unfolding in_text_def do_cmd_def
  by (rule do_cmd_with_bounds [OF do_cmd_with_end [OF keeps_end_none]])

lemma on_line_finish:
  assumes "finish_cmd c orig s = Some s'" and "0 \<le> vend s"
  shows "on_line s'"
proof -
  obtain s4 where s4: "s' = (if ch s4 (dot s4) = NL \<and> dot s4 - begin_line (tx s4) (dot s4) > 0 \<and> cmd_mode s4 = 0
      then s4\<lparr>dot := dot s4 - 1\<rparr> else s4)"
    using assms(1) by (auto simp: finish_cmd_def bind_eq_Some_conv Let_def)
  show ?thesis
  proof (cases "ch s4 (dot s4) = NL \<and> dot s4 - begin_line (tx s4) (dot s4) > 0 \<and> cmd_mode s4 = 0")
    case True
    then have "0 \<le> dot s4"
      using finish_cmd_bounds [OF assms] by (simp add: s4 split: if_splits)
    then have "ch s4 (dot s4 - 1) \<noteq> NL"
      using True begin_line_no_NL [of "dot s4" "tx s4" "dot s4 - 1"] by simp
    then show ?thesis using True by (simp add: s4 on_line_def)
  next
    case False
    then show ?thesis using begin_line_le [of "tx s4" "dot s4"] by (auto simp: s4 on_line_def)
  qed
qed

lemma on_line_do_cmd: "do_cmd c s = Some s' \<Longrightarrow> 0 \<le> vend s \<Longrightarrow> on_line s'"
proof -
  assume d: "do_cmd c s = Some s'" and v: "0 \<le> vend s"
  obtain s1 orig s2 where
    s1: "show_status_line (on_dsp (\<lambda>d. d\<lparr>keep_index := False\<rparr>) (s\<lparr>cmd_error := False\<rparr>)) = Some s1"
    and s2: "mode_cmd (do_cmd_with (\<lambda>_ _. None)) c s1 = Some (orig, s2)" and f: "finish_cmd c orig s2 = Some s'"
    using d by (auto simp: do_cmd_def do_cmd_with_def bind_eq_Some_conv)
  have "0 \<le> vend s1" using keeps_end_shown(2) [OF s1] v by (simp add: on_dsp_def)
  then have "0 \<le> vend s2" using mode_cmd_end [OF do_cmd_with_end [OF keeps_end_none] s2] by blast
  then show "on_line s'" using on_line_finish [OF f] by blast
qed

lemma screen_only_position: "screen_only s s' \<Longrightarrow> vend s' = vend s \<and> dot s' = dot s \<and> on_line s' = on_line s"
  using screen_only_end [of s s'] screen_onlyD [of s s'] by (simp add: on_line_def)

lemma screen_only_invalidate_rows: "screen_only a (invalidate_rows n x y tp li s) = screen_only a s"
  by (induction n arbitrary: tp li s) (simp_all add: Let_def)

lemma screen_only_invalidate: "screen_only a (visual_invalidate_span p q s) = screen_only a s"
  by (simp add: visual_invalidate_span_def screen_only_invalidate_rows split: option.split)

lemma update_screen_position:
  "update_screen vis s = Some s' \<Longrightarrow> vend s' = vend s \<and> dot s' = dot s \<and> on_line s' = on_line s"
  by (rule screen_only_position)
    (auto simp: update_screen_def Let_def screen_only_invalidate split: if_splits
      elim!: shown(1) [where a = s])

lemma vend_remember_line: "vend (remember_line s) = vend s"
  by (simp add: remember_line_def Let_def frame_simps)

lemma edit_round_in_text:
  assumes "edit_round s = Some s'" and "0 \<le> vend s"
  shows "in_text s' \<and> on_line s'"
proof -
  obtain c s1 where g: "getc s = Some (c, s1)" using assms(1) by (auto simp: edit_round_def bind_eq_Some_conv)
  define s3 where "s3 = (if starts_recording c (remember_line s1) then start_new_cmd_q c (remember_line s1)
      else remember_line s1)"
  have "vend s3 = vend s"
    using keeps_end_shown(5) [OF g] by (simp add: s3_def vend_remember_line frame_simps)
  moreover obtain s4 where d: "do_cmd c s3 = Some s4" and u: "update_screen (selection s3) s4 = Some s'"
    using assms(1) g by (auto simp: edit_round_def bind_eq_Some_conv Let_def s3_def)
  ultimately have "in_text s4 \<and> on_line s4" using in_text_do_cmd [OF d] on_line_do_cmd [OF d] assms(2) by simp
  then show ?thesis using update_screen_position [OF u] by (simp add: in_text_def)
qed

lemma dot_ed_steps [frame_simps]:
  "dot (on_ed f s) = dot s" "dot (on_tb g s) = dot s" "dot (push_insert p n m s) = dot s"
  "dot (snd (hole_delete p q m s)) = dot s" "dot (insert_byte p c s) = dot s" "dot (commit s) = dot s"
  by (simp_all add: on_ed_def on_tb_def push_insert_def hole_delete_def insert_byte_def commit_def split: prod.split)

lemma dot_file_insert: "dot (snd (file_insert fn p i s)) = dot s"
  by (simp add: file_insert_def Let_def frame_simps split: option.split)

lemma dot_insert_newline:
  assumes "char_insert p NL m s = Some (q, s')"
  shows "dot s' = dot s"
proof -
  have "to_char (cval NL) = NL" by (rule to_char_cval)
  then have "\<not> in_strchr '')]}'' (cval NL)" by (simp add: in_strchr_def)
  moreover have "dot (snd (indent_after_newline r m x)) = dot x" for r x
    by (simp add: indent_after_newline_def Let_def frame_simps split: prod.split)
  ultimately show ?thesis
    using assms by (auto simp: char_insert_def insert_plain_def Let_def frame_simps split: if_splits)
      (metis dot_ed_steps(5,6) snd_conv)+
qed

lemma dot_update_filename: "dot (update_filename fn s) = dot s"
  by (simp add: update_filename_def frame_simps split: option.split)

lemma dot_init_text_buffer:
  assumes "init_text_buffer fn s = Some (rc, s')"
  shows "dot s' = 0"
proof -
  define s1 where "s1 = on_dsp (\<lambda>d. d\<lparr>screenbegin := 0\<rparr>)
                 ((on_tb (\<lambda>_. \<lparr>mem = \<lambda>_. NUL, tend = 0, tsize = 10240\<rparr>) s)\<lparr>dot := 0\<rparr>)"
  obtain n s2 where f: "file_insert fn 0 True (update_filename fn s1) = (n, s2)" by fastforce
  have d2: "dot s2 = 0"
    using dot_file_insert [of fn 0 True "update_filename fn s1"] f
    by (simp add: dot_update_filename s1_def frame_simps)
  obtain s3 where s3: "(if n < 0 then map_option snd (char_insert 0 NL NO_UNDO s2) else Some s2) = Some s3"
    and s': "dot s' = dot s3"
    using assms f by (auto simp: init_text_buffer_def Let_def s1_def [symmetric] bind_eq_Some_conv frame_simps)
  show ?thesis using s3 s' d2 by (auto dest: dot_insert_newline split: if_splits)
qed

lemma start_position:
  assumes "edit_file_init fn s = Some s0"
  shows "0 \<le> vend s0 \<and> dot s0 = 0"
proof -
  obtain rc s1 where i: "init_text_buffer fn (on_dsp (\<lambda>d. new_screen (rows d) (columns d) d) (s\<lparr>editing := 1\<rparr>)) = Some (rc, s1)"
    using assms by (auto simp: edit_file_init_def bind_eq_Some_conv)
  have v: "0 \<le> vend s1" using vend_init_text_buffer [OF i] .
  have d: "dot s1 = 0" using dot_init_text_buffer [OF i] .
  obtain s2 where "redraw False s2 = Some s0" "vend s2 = vend s1" "dot s2 = dot s1"
    using assms i by (auto simp: edit_file_init_def bind_eq_Some_conv Let_def on_kbd_def on_dsp_def)
  then show ?thesis using v d shown(2) [of False s2 s0 s2] screen_only_position [of s2 s0] by simp
qed

lemma session_position:
  assumes "session s0 s"
  shows "0 \<le> vend s0 \<Longrightarrow> s = s0 \<or> in_text s \<and> on_line s"
  using assms
proof (induction rule: session.induct)
  case (session_round s s')
  then have "0 \<le> vend s" by (auto simp: in_text_def)
  then show ?case using edit_round_in_text [OF session_round.hyps(3)] by blast
qed simp

text \<open>
  C2. Where the cursor is while a file is edited: at its start when the file is opened (which may be
  empty), and after every round of the loop, whatever was typed, in a text of at least one character,
  between its first character and the position after its last one; and in normal mode it is on
  a newline only at the start of a line, that is, on an empty line.
\<close>

theorem session_in_text:
  assumes "edit_file_init fn s00 = Some s0" and "session s0 s"
  shows "s = s0 \<and> dot s = 0 \<and> 0 \<le> vend s \<or>
    0 < vend s \<and> 0 \<le> dot s \<and> dot s \<le> vend s \<and>
    (cmd_mode s = 0 \<and> ch s (dot s) = NL \<longrightarrow> begin_line (tx s) (dot s) = dot s)"
  using start_position [OF assms(1)] session_position [OF assms(2)] by (auto simp: in_text_def on_line_def)

lemma kbd_refresh: "kbd (refresh full s) = kbd s"
proof -
  have "kbd (refresh_rows n b tp li x) = kbd x" for n b tp li x
    by (induction n arbitrary: tp li x) (auto simp: refresh_row_def Let_def split: option.split)
  then show ?thesis by (auto simp: refresh_def Let_def sync_cursor_def split: prod.split)
qed

lemma msg_display: "have_status_msg (puts_no_eol w d) = have_status_msg d" "have_status_msg (hide_cursor d) = have_status_msg d"
  "have_status_msg (show_cursor d) = have_status_msg d" "have_status_msg (place_cursor y x d) = have_status_msg d"
  "have_status_msg (go_bottom_and_clear_to_eol d) = have_status_msg d" "have_status_msg (screen_erase d) = have_status_msg d"
  by (simp_all add: puts_no_eol_def hide_cursor_def show_cursor_def place_cursor_def go_bottom_and_clear_to_eol_def clear_to_eol_def screen_erase_def)

text \<open>Showing the status without a pending message neither waits for a key nor leaves a message.\<close>

definition calm :: "vi \<Rightarrow> vi \<Rightarrow> bool" where
  "calm s s' \<longleftrightarrow> screen_only s s' \<and> kbd s' = kbd s \<and> have_status_msg (dsp s') = 0"

lemma status_calm: "have_status_msg (dsp s) = 0 \<Longrightarrow> \<exists>s'. show_status_line s = Some s' \<and> calm s s'"
proof -
  assume m: "have_status_msg (dsp s) = 0"
  obtain n s1 where f: "format_edit_status s = (n, s1)" by fastforce
  have s1: "kbd s1 = kbd s" "have_status_msg (dsp s1) = 0"
    using f m by (auto simp: format_edit_status_def Let_def)
  define cksum where "cksum = bufsum (status_buffer (dsp s1)) n"
  define s2 where "s2 = on_dsp (\<lambda>d. show_cursor (place_cursor (crow d) (ccol d) d))
      (on_dsp (\<lambda>d. puts_no_eol (status_buffer d)
         (go_bottom_and_clear_to_eol (hide_cursor (d\<lparr>last_status_cksum := cksum\<rparr>)))) s1)"
  have e: "show_status_line s = Some (if n > 0 \<and> last_status_cksum (dsp s1) \<noteq> cksum then s2 else s1)"
    unfolding show_status_line_def show_status_line_with_def Let_def by (simp add: m f s2_def cksum_def)
  have "kbd s2 = kbd s" "have_status_msg (dsp s2) = 0" by (simp_all add: s2_def s1 on_dsp_def msg_display)
  then show ?thesis using shown(1) [OF e, of s] e s1 by (auto simp: calm_def)
qed

lemma redraw_calm: "have_status_msg (dsp s) = 0 \<Longrightarrow> \<exists>s'. redraw full s = Some s' \<and> calm s s'"
proof -
  assume m: "have_status_msg (dsp s) = 0"
  define s1 where "s1 = refresh full (on_dsp (\<lambda>d. (screen_erase
       (puts_no_eol (ESC_SET_CURSOR_TOPLEFT @ ESC_CLEAR2EOS) d))\<lparr>last_status_cksum := 0\<rparr>) s)"
  have "have_status_msg (dsp s1) = 0" by (simp add: s1_def msg_refresh on_dsp_def msg_display m)
  then obtain s' where s': "show_status_line s1 = Some s'" "calm s1 s'" using status_calm by blast
  have "kbd s1 = kbd s" by (simp add: s1_def kbd_refresh on_dsp_def)
  moreover have "redraw full s = Some s'" using s'(1) by (simp add: redraw_def redraw_with_def s1_def)
  ultimately show ?thesis using s'(2) shown(2) [of full s s' s] by (auto simp: calm_def)
qed

lemma calmD: "calm s s' \<Longrightarrow> ed s' = ed s \<and> dot s' = dot s \<and> cmd_mode s' = cmd_mode s \<and> vi_visual s' = vi_visual s \<and>
    kbd s' = kbd s \<and> have_status_msg (dsp s') = 0 \<and> editing s' = editing s"
  using screen_onlyD [of s s'] by (simp add: calm_def)

text \<open>So the round of the key \<open>i\<close> always returns.\<close>

lemma insert_round:
  assumes "have_status_msg (dsp s) = 0" and "cmd_mode s = 0" and "\<not> vi_visual s" and "undo_q (ed s) = 0"
    and "0 \<le> dot s" and "dot s < vend s" and "rb_count (kbd s) = 0" and "stdin (kbd s) = [Byte CHR ''i'']"
    and "\<not> adding2q (kbd s)" and "ioq (kbd s) = None"
  shows "\<exists>s'. edit_round s = Some s' \<and> cmd_mode s' = 1"
proof -
  have i: "cval CHR ''i'' = 105" by simp
  obtain s1 where g: "getc s = Some (105, s1)" and s1: "s1 = s\<lparr>kbd := (kbd s)\<lparr>stdin := [], rb := (rb (kbd s))(0 := CHR ''i'')\<rparr>\<rparr>"
    using read_key_plain [OF assms(7,8)] assms(9,10) by (simp add: getc_def get_one_char_def readit_def)
  define s3 where "s3 = (if starts_recording 105 (remember_line s1) then start_new_cmd_q 105 (remember_line s1) else remember_line s1)"
  have s3: "ed s3 = ed s" "dot s3 = dot s" "cmd_mode s3 = 0" "\<not> vi_visual s3" "dsp s3 = dsp s" "rb_count (kbd s3) = 0"
    using assms(2,3,7) by (auto simp: s3_def remember_line_def Let_def text_yank_def start_new_cmd_q_def on_kbd_def s1)
  obtain t1 where t1: "show_status_line (on_dsp (\<lambda>d. d\<lparr>keep_index := False\<rparr>) (s3\<lparr>cmd_error := False\<rparr>)) = Some t1"
    and c1: "calm (on_dsp (\<lambda>d. d\<lparr>keep_index := False\<rparr>) (s3\<lparr>cmd_error := False\<rparr>)) t1"
    using status_calm [of "on_dsp (\<lambda>d. d\<lparr>keep_index := False\<rparr>) (s3\<lparr>cmd_error := False\<rparr>)"] assms(1) s3(5)
    by (auto simp: on_dsp_def)
  have t1': "ed t1 = ed s" "dot t1 = dot s" "cmd_mode t1 = 0" "\<not> vi_visual t1" "have_status_msg (dsp t1) = 0" "rb_count (kbd t1) = 0"
    using calmD [OF c1] s3 by (simp_all add: on_dsp_def)
  have cm: "commit (t1\<lparr>cmd_mode := 1\<rparr>) = t1\<lparr>cmd_mode := 1\<rparr>"
    using assms(4) by (simp add: commit_def on_ed_def t1' commit_idle)
  have "mode_cmd (do_cmd_with (\<lambda>_ _. None)) 105 t1 = Some (dot s, t1\<lparr>cmd_mode := 1\<rparr>)"
    by (simp add: mode_cmd_def is_cursor_key_def key_cmd_mode_def switch_cmd_def simple_cmd_def key_isdigit_def t1' dc_i_def cm Let_def)
  moreover have "finish_cmd 105 (dot s) (t1\<lparr>cmd_mode := 1\<rparr>) = Some (t1\<lparr>cmd_mode := 1, cmdcnt := 0\<rparr>)"
    using assms(5,6) by (simp add: finish_cmd_def t1' with_dot_def bound_dot_def key_isdigit_def Let_def)
  ultimately have d: "do_cmd 105 s3 = Some (t1\<lparr>cmd_mode := 1, cmdcnt := 0\<rparr>)"
    by (simp add: do_cmd_def do_cmd_with_def t1)
  define t2 where "t2 = refresh False (t1\<lparr>cmd_mode := 1, cmdcnt := 0\<rparr>)"
  obtain s' where s': "show_status_line t2 = Some s'" "calm t2 s'"
    using status_calm [of t2] by (auto simp: t2_def msg_refresh t1')
  have "screen_only (t1\<lparr>cmd_mode := 1, cmdcnt := 0\<rparr>) t2" by (simp add: t2_def)
  then have "cmd_mode s' = 1" using calmD [OF s'(2)] screen_onlyD(3) by fastforce
  moreover have "edit_round s = Some s'"
    using g d s'(1) s3(4) t1' by (simp add: edit_round_def Let_def s3_def [symmetric] update_screen_def selection_def t2_def)
  ultimately show ?thesis by blast
qed

text \<open>The witness opens a new file and types \<open>i\<close>.\<close>

theorem session_in_text_witness:
  "\<exists>s0 s. edit_file_init None (editor_of [] [Byte CHR ''i'']) = Some s0 \<and> edit_round s0 = Some s \<and> session s0 s \<and>
     cmd_mode s = 1 \<and> 0 < vend s \<and> 0 \<le> dot s \<and> dot s \<le> vend s"
proof -
  let ?s = "editor_of [] [Byte CHR ''i'']"
  let ?x = "on_dsp (\<lambda>d. new_screen (rows d) (columns d) d) (?s\<lparr>editing := 1\<rparr>)"
  have "\<exists>rc s1. init_text_buffer None ?x = Some (rc, s1) \<and> have_status_msg (dsp s1) = 0 \<and> undo_q (ed s1) = 0 \<and>
      dot s1 = 0 \<and> vend s1 = 1 \<and> rb_count (kbd s1) = 0 \<and> stdin (kbd s1) = [Byte CHR ''i''] \<and> editing s1 = 1"
    by (simp add: init_text_buffer_def file_insert_def update_filename_def char_insert_def insert_plain_def showmatch_def
        autoindent_def insert_byte_def commit_def Let_def on_dsp_def on_ed_def on_tb_def new_screen_def screen_erase_def
        editor_of_def buffer_of_def text_of_def undo_queue_commit_def flush_undo_data_def stupid_insert_def frame_simps
        set_byte_def)
  then obtain rc s1 where s1: "init_text_buffer None ?x = Some (rc, s1)" "have_status_msg (dsp s1) = 0" "undo_q (ed s1) = 0"
    "dot s1 = 0" "vend s1 = 1" "rb_count (kbd s1) = 0" "stdin (kbd s1) = [Byte CHR ''i'']" "editing s1 = 1" by blast
  define s3 where "s3 = on_kbd (\<lambda>k. k\<lparr>ioq := None, adding2q := False\<rparr>)
      (on_dsp (\<lambda>d. d\<lparr>crow := 0, ccol := 0, offset := 0\<rparr>)
        (s1\<lparr>YDreg := 26, marks := (marks s1)(26 := Some 0, 27 := Some 0), cmd_mode := 0, vi_visual := False,
           vi_visual_anchor := None, cmdcnt := 0\<rparr>))"
  have i: "edit_file_init None ?s = redraw False s3" by (simp add: edit_file_init_def s1(1) s3_def Let_def)
  have s3: "have_status_msg (dsp s3) = 0" "cmd_mode s3 = 0"
    "\<not> vi_visual s3" "undo_q (ed s3) = 0" "dot s3 = 0" "vend s3 = 1" "rb_count (kbd s3) = 0"
    "stdin (kbd s3) = [Byte CHR ''i'']" "\<not> adding2q (kbd s3)" "ioq (kbd s3) = None" "editing s3 = 1"
    using s1 by (simp_all add: s3_def on_kbd_def on_dsp_def)
  obtain s0 where s0: "redraw False s3 = Some s0" and c: "calm s3 s0" using redraw_calm [OF s3(1)] by blast
  obtain s where r: "edit_round s0 = Some s" "cmd_mode s = 1"
    using insert_round [of s0] calmD [OF c] s3 by auto
  have se: "session s0 s" using session_round [OF session_start _ r(1)] calmD [OF c] s3(11) by simp
  have "s \<noteq> s0" using r(2) calmD [OF c] s3(2) by auto
  with session_in_text [OF _ se, of None ?s] i s0 r se show ?thesis by auto
qed

subsection \<open>Options\<close>

definition options_ok :: "vi \<Rightarrow> bool" where
  "options_ok s \<longleftrightarrow> 1 \<le> tabstop s \<and> tabstop s \<le> MAX_TABSTOP \<and> vi_setops s < 32"

lemma options_status [simp]: "options_ok (status_line_bold w s) = options_ok s"
  by (simp add: options_ok_def status_line_bold_def on_dsp_def)

lemma options_update:
  "options_ok s \<Longrightarrow> v < 32 \<Longrightarrow> options_ok (s\<lparr>vi_setops := v\<rparr>)"
  "options_ok s \<Longrightarrow> 0 < t \<and> t \<le> MAX_TABSTOP \<Longrightarrow> options_ok (s\<lparr>tabstop := t\<rparr>)"
  by (simp_all add: options_ok_def)

lemma five_bits: "take_bit 5 v = v \<longleftrightarrow> v < 32" for v :: "16 word"
  by (simp add: take_bit_eq_mod word_less_nat_alt word_unat_eq_iff unat_mod mod_eq_self_iff_div_eq_0
      div_eq_0_iff)

lemma opts_index: "index_in_strings OPTS w = Some i \<Longrightarrow> i < 12"
  by (auto simp: OPTS_def split: if_splits)

lemma options_setops:
  assumes "options_ok s"
  shows "options_ok (setops w n s)"
proof -
  have bits: "set_bit k v < 32 \<and> unset_bit k v < 32" if "k < 5" "v < 32" for k and v :: "16 word"
  proof -
    have "take_bit 5 v = v" using that by (simp add: five_bits)
    then have "take_bit 5 (set_bit k v) = set_bit k v" "take_bit 5 (unset_bit k v) = unset_bit k v"
      using that(1) by (simp_all add: take_bit_set_bit_eq take_bit_unset_bit_eq)
    then show ?thesis by (simp add: five_bits [symmetric])
  qed
  have "i div 2 < 5" if "index_in_strings OPTS x = Some i" "i div 2 \<noteq> 5" for x i
    using opts_index [OF that(1)] that(2) by arith
  note five = this
  have v: "vi_setops s < 32" using assms by (simp add: options_ok_def)
  show ?thesis
  proof (cases "index_in_strings OPTS (drop n (takeWhile (\<lambda>c. c \<noteq> CHR ''='') w))")
    case None
    then show ?thesis using assms by (simp add: setops_def Let_def)
  next
    case (Some i)
    show ?thesis
    proof (cases "i div 2 = 5")
      case True
      then show ?thesis
        using assms by (simp add: setops_def Let_def Some options_update(2))
    next
      case False
      note k = five [OF Some False]
      have "options_ok (s\<lparr>vi_setops := set_bit (i div 2) (vi_setops s)\<rparr>)"
        "options_ok (s\<lparr>vi_setops := unset_bit (i div 2) (vi_setops s)\<rparr>)"
        using bits [OF k v] options_update(1) [OF assms] by blast+
      then show ?thesis using assms False by (simp add: setops_def Let_def Some)
    qed
  qed
qed

lemma options_set_args: "options_ok s \<Longrightarrow> options_ok (set_args w s)"
  by (induction w s rule: set_args.induct) (subst set_args.simps, simp add: options_setops)

text \<open>
  C37. \<open>:set\<close> cannot break the options: whatever its arguments, the tab stop stays between 1 and 32,
  so no division by it fails and the line buffers' slack suffices, and no flag outside the five
  options is ever set.
\<close>

theorem set_keeps_options:
  assumes "options_ok s"
  shows "options_ok (colon_set l s)"
  using assms by (simp add: colon_set_def options_set_args)

theorem set_keeps_options_witness:
  "options_ok (colon_set \<lparr>c_cmd = ''set'', c_args = ''ts=0 noai ts=40 tabstop=4'', c_force = False, c_q = 0, c_r = 0,
      c_b = 0, c_e = 0, c_got = 0, c_buf = []\<rparr> demo)"
  by (rule set_keeps_options) (simp add: options_ok_def demo_def editor_of_def MAX_TABSTOP_def)

subsection \<open>Start-up commands\<close>

fun split_lines :: "string \<Rightarrow> string list" where
  "split_lines [] = [[]]"
| "split_lines (c # cs) =
     (if c = NL then [] # split_lines cs else (c # hd (split_lines cs)) # tl (split_lines cs))"

text \<open>The lines that are commands: the first, then those not empty, and what follows the last newline.\<close>

definition later_lines :: "string list \<Rightarrow> string list" where
  "later_lines ls = filter (\<lambda>q. q \<noteq> []) (butlast ls) @ [last ls]"

definition cmd_lines :: "string \<Rightarrow> string list" where
  "cmd_lines w =
     (case split_lines w of [] \<Rightarrow> [] | q # ls \<Rightarrow> q # (if ls = [] then [] else later_lines ls))"

fun run_each :: "('a \<Rightarrow> 's \<Rightarrow> 's option) \<Rightarrow> 'a list \<Rightarrow> 's \<Rightarrow> 's option" where
  "run_each f [] s = Some s"
| "run_each f (x # xs) s = Option.bind (f x s) (run_each f xs)"

lemma split_lines_nonempty [simp]: "split_lines w \<noteq> []"
  by (cases w) auto

lemma split_lines_first: "split_lines (takeWhile (\<lambda>c. c \<noteq> NL) w) = [takeWhile (\<lambda>c. c \<noteq> NL) w]"
  by (induction w) auto

lemma split_lines_cut: "NL \<notin> set q \<Longrightarrow> split_lines (q @ NL # v) = q # split_lines v"
  by (induction q) auto

lemma later_lines_skip: "later_lines (split_lines (dropWhile (\<lambda>c. c = NL) v)) = later_lines (split_lines v)"
  by (induction v) (auto simp: later_lines_def)

lemma later_is_cmd_lines: "later_lines (split_lines (dropWhile (\<lambda>c. c = NL) v)) = cmd_lines (dropWhile (\<lambda>c. c = NL) v)"
proof (cases "dropWhile (\<lambda>c. c = NL) v")
  case (Cons c cs)
  then have "c \<noteq> NL" using hd_dropWhile [of "\<lambda>c. c = NL" v] by auto
  then show ?thesis by (simp add: Cons later_lines_def cmd_lines_def)
next
  case Nil
  show ?thesis unfolding Nil by (simp add: later_lines_def cmd_lines_def)
qed

lemma cmd_lines_next:
  "cmd_lines w = (case next_command w of (q, None) \<Rightarrow> [q] | (q, Some r) \<Rightarrow> q # cmd_lines r)"
proof (cases "NL \<in> set w")
  case True
  then obtain q v where w: "w = q @ NL # v" "NL \<notin> set q" using split_list_first by metis
  have "next_command w = (q, Some (dropWhile (\<lambda>c. c = NL) v))"
  proof -
    have "takeWhile (\<lambda>c. c \<noteq> NL) (q @ NL # v) = q" using w(2) by (subst takeWhile_append2) auto
    then show ?thesis by (simp add: w(1) next_command_def)
  qed
  moreover have "cmd_lines w = q # later_lines (split_lines v)" using w split_lines_cut by (simp add: cmd_lines_def)
  ultimately show ?thesis using later_lines_skip [of v] later_is_cmd_lines [of v] by simp
next
  case False
  then have t: "takeWhile (\<lambda>c. c \<noteq> NL) w = w" by (auto simp: takeWhile_eq_all_conv)
  have "split_lines w = [w]" using split_lines_first [of w] unfolding t .
  then have "cmd_lines w = [w]" by (simp add: cmd_lines_def)
  moreover have "next_command w = (w, None)" unfolding next_command_def t by simp
  ultimately show ?thesis by simp
qed

text \<open>
  C40. A start-up file runs line by line: \<open>run_cmds\<close> executes, in order and each exactly once, those of
  the following lines that are shorter than 128 characters: the first line, the non-empty lines after
  it and what follows the last newline. Lines of 128 characters and more are not executed at all.
\<close>

theorem run_cmds_lines:
  "run_cmds w s = run_each colon (filter (\<lambda>q. length q < MAX_INPUT_LEN) (cmd_lines w)) s"
proof (induction w s rule: run_cmds.induct)
  case (1 w s)
  obtain q rest where n: "next_command w = (q, rest)" by fastforce
  show ?case
    using 1 n by (subst run_cmds.simps) (auto simp: cmd_lines_next [of w] split: option.splits)
qed

end
