(* ===== verification/RepeatCommand.thy ===== *)
theory RepeatCommand
  imports Commands
begin

text \<open>
  The repeat key \<open>.\<close> (\<open>start_new_cmd_q\<close> of \<open>vim_text.c\<close>, \<open>get_one_char\<close> of \<open>vim_input.c\<close>, case \<open>'.'\<close> of \<open>do_cmd\<close>):
  what is recorded while a modifying command runs is what \<open>cmd_repeat\<close> stuffs back into the input.
\<close>

text \<open>The count a numeral stands for when its digits are typed, as \<open>cmd_digit\<close> adds them up.\<close>

definition typed_count :: "int list \<Rightarrow> int" where
  "typed_count = foldl (\<lambda>n d. n * 10 + (d - 48)) 0"

lemma digit_char: "k < 10 \<Longrightarrow> cval (char_of (48 + k)) = 48 + int k \<and> NUL \<noteq> char_of (48 + k)" for k :: nat
proof -
  assume k: "k < 10"
  then have c: "cval (char_of (48 + k)) = 48 + int k" by (simp add: cval_char_of)
  have "NUL \<noteq> char_of (48 + k)"
  proof
    assume "NUL = char_of (48 + k)"
    then have "cval NUL = 48 + int k" using c by (simp only:)
    then show False by simp
  qed
  with c show ?thesis by blast
qed

lemma typed_dec_nat: "typed_count (map cval (dec_nat n)) = int n \<and> NUL \<notin> set (dec_nat n)"
proof (induction n rule: dec_nat.induct)
  case (1 n)
  show ?case
  proof (cases "n < 10")
    case True
    then show ?thesis using digit_char [of n] by (simp add: dec_nat.simps [of n] typed_count_def)
  next
    case False
    have "typed_count (map cval (dec_nat n)) = typed_count (map cval (dec_nat (n div 10))) * 10 + int (n mod 10)"
      using False digit_char [of "n mod 10"] by (simp add: dec_nat.simps [of n] typed_count_def)
    moreover have "NUL \<notin> set (dec_nat n)"
      using False 1 digit_char [of "n mod 10"] by (simp add: dec_nat.simps [of n])
    ultimately show ?thesis using False 1 by (simp add: zdiv_int zmod_int)
  qed
qed

lemma get_keys_dotcnt: "get_keys n k = Some (cs, k') \<Longrightarrow> dotcnt k' = dotcnt k"
proof (induction n arbitrary: k cs)
  case (Suc n)
  obtain c k1 cs1 where g: "get_one_char k = Some (c, k1)" "get_keys n k1 = Some (cs1, k')"
    using Suc.prems by (auto split: option.splits)
  have r: "readit x = Some (c, y) \<Longrightarrow> dotcnt y = dotcnt x" for x y
    using input_only_read_key [of "- 1" x "(c, y)"] by (simp add: readit_def input_only_def)
  have "dotcnt k1 = dotcnt k"
    using g(1) by (auto simp: get_one_char_def dest: r split: if_splits option.splits)
  then show ?case using Suc.IH [OF g(2)] by simp
qed simp

text \<open>
  C10. \<open>.\<close> repeats the last modifying command: when a command \<open>c\<close> is recorded with the \<open>n\<close> keys read after
  it, as long as they fit the recording buffer and none of them is stored as a NUL, then \<open>.\<close> makes the
  following keys come from the recording: first a numeral, which typed as a count is the count given
  to \<open>.\<close> or else the one the command had (1 if none), then \<open>c\<close> and the recorded keys in their order, each as
  the byte it was stored as, with nothing read from the input and nothing left over.
\<close>

theorem repeat_replays:
  assumes "0 < c" and "c < 256" and "0 \<le> cmdcnt s" and "0 \<le> cmdcnt r"
    and "get_keys n (kbd (start_new_cmd_q c s)) = Some (cs, k')" and "n \<le> MAX_INPUT_LEN - 3"
    and "\<forall>d \<in> set cs. to_char d \<noteq> NUL" and "kbd r = k'\<lparr>adding2q := False\<rparr>"
  shows "\<exists>digits. get_keys (length digits + Suc n) (kbd (cmd_repeat r)) =
      Some (digits @ c # map (\<lambda>d. cval (to_char d)) cs, (kbd (cmd_repeat r))\<lparr>ioq := Some []\<rparr>) \<and>
    typed_count digits = (if cmdcnt r \<noteq> 0 then cmdcnt r else if cmdcnt s \<noteq> 0 then cmdcnt s else 1) \<and>
    stdin (kbd (cmd_repeat r)) = stdin k'"
proof -
  define m where "m = (if cmdcnt r \<noteq> 0 then cmdcnt r else if cmdcnt s \<noteq> 0 then cmdcnt s else 1)"
  define k where "k = kbd (start_new_cmd_q c s)"
  have k: "adding2q k" "last_modifying_cmd k = [to_char c]" "dotcnt k = (if cmdcnt s \<noteq> 0 then cmdcnt s else 1)"
    by (simp_all add: k_def start_new_cmd_q_def on_kbd_def)
  have rec: "last_modifying_cmd k' = to_char c # map to_char cs" "length cs = n"
    using keys_recorded [OF assms(5) [folded k_def] k(1)] assms(6) by (simp_all add: k(2) MAX_INPUT_LEN_def)
  have dc: "dotcnt k' = dotcnt k" using get_keys_dotcnt [OF assms(5)] by (simp add: k_def)
  have c: "cval (to_char c) = c" using assms(1,2) by (simp add: cval_to_char)
  then have c0: "to_char c \<noteq> NUL" using assms(1) by auto
  have nn: "\<forall>x \<in> set (to_char c # map to_char cs). x \<noteq> NUL" using c0 assms(7) by auto
  then have cs: "cstr (to_char c # map to_char cs) = to_char c # map to_char cs"
    unfolding cstr_def by (intro takeWhile_eq_all_conv [THEN iffD2])
  define q where "q = dec m @ to_char c # map to_char cs"
  have "0 \<le> m" using assms(3,4) by (simp add: m_def)
  then have d: "typed_count (map cval (dec m)) = m" "NUL \<notin> set (dec m)"
    using typed_dec_nat [of "nat m"] by (simp_all add: dec_def)
  have K: "kbd (cmd_repeat r) = k'\<lparr>adding2q := False, dotcnt := m, ioq := Some q\<rparr>"
    by (simp add: cmd_repeat_def on_kbd_def assms(8) rec cs q_def m_def dc k(3) Let_def)
  have "get_keys (length q) (kbd (cmd_repeat r)) = Some (map cval q, (kbd (cmd_repeat r))\<lparr>ioq := Some []\<rparr>)"
    by (rule keys_replayed) (use nn d(2) in \<open>auto simp: K q_def\<close>)
  then show ?thesis
    using d(1) rec(2) c
    by (intro exI [of _ "map cval (dec m)"]) (simp add: q_def K m_def comp_def)
qed

text \<open>\<open>3ry\<close> and then \<open>.\<close>: the numeral 3, \<open>r\<close> and \<open>y\<close> come back.\<close>

theorem repeat_replays_witness:
  "\<exists>cs k'. get_keys 1 (kbd (start_new_cmd_q (key CHR ''r'') ((editor_of [] [Byte CHR ''y''])\<lparr>cmdcnt := 3\<rparr>))) = Some (cs, k') \<and>
     (\<exists>digits. get_keys (length digits + 2) (kbd (cmd_repeat (demo\<lparr>kbd := k'\<lparr>adding2q := False\<rparr>\<rparr>))) =
        Some (digits @ [key CHR ''r'', key CHR ''y''],
          (kbd (cmd_repeat (demo\<lparr>kbd := k'\<lparr>adding2q := False\<rparr>\<rparr>)))\<lparr>ioq := Some []\<rparr>) \<and> typed_count digits = 3)"
proof -
  define s where "s = (editor_of [] [Byte CHR ''y''])\<lparr>cmdcnt := 3\<rparr>"
  define k where "k = kbd (start_new_cmd_q (key CHR ''r'') s)"
  define k' where "k' = k\<lparr>stdin := [], rb := (rb k)(0 := CHR ''y''), last_modifying_cmd := ''ry''\<rparr>"
  have rc: "to_char (key CHR ''r'') = CHR ''r''" using to_char_cval [of "CHR ''r''"] by simp
  have "readit k = Some (cval CHR ''y'', k\<lparr>stdin := [], rb := (rb k)(0 := CHR ''y'')\<rparr>)"
    by (simp add: k_def s_def start_new_cmd_q_def on_kbd_def readit_def read_key_plain [of _ "CHR ''y''" "[]"] editor_of_def)
  then have g: "get_keys 1 k = Some ([121], k')"
    using to_char_cval [of "CHR ''y''"] rc
    by (simp add: get_one_char_def k'_def MAX_INPUT_LEN_def) (simp add: k_def start_new_cmd_q_def on_kbd_def)
  have y: "cval (to_char 121) = 121" by (simp add: cval_to_char)
  then have ny: "to_char 121 \<noteq> NUL" by auto
  have cnt: "cmdcnt s = 3" "cmdcnt (demo\<lparr>kbd := k'\<lparr>adding2q := False\<rparr>\<rparr>) = 0" by (simp_all add: s_def demo_def editor_of_def)
  show ?thesis
    using repeat_replays [of "key CHR ''r''" s "demo\<lparr>kbd := k'\<lparr>adding2q := False\<rparr>\<rparr>" 1 "[121]" k'] g cnt y ny
    unfolding s_def [symmetric] k_def [symmetric]
    by (intro exI [of _ "[121]"] exI [of _ k']) (auto simp: MAX_INPUT_LEN_def)
qed

end
