(* ===== verification/Spec2Isabelle.thy ===== *)
theory Spec2Isabelle
  imports TetrisPlay CurlMulti GitCompat Relocation Searching CutPaste LoadSave CommandUndo ColonQuit
    EditSession RepeatCommand
begin

text \<open>
  Verification of the C programs that are ewokos.extra's own: \<open>evim\<close>, a vi (\<open>src/bin/evim\<close>), the
  libcurl and libc layers of the git port (\<open>src/bin/git/port/ewokos\<close>), and the tetris game
  (\<open>src/apps/sdl_tetris\<close>). The three programs share nothing but \<open>Prelude\<close>.
\<close>

section \<open>What is modelled\<close>

text \<open>
  \<^bold>\<open>Conventions.\<close> A C file's globals are one record, a function that changes them takes the record and
  returns it; a function that may block for ever or loop returns an \<open>option\<close>, \<open>None\<close> standing for
  not returning (\<open>partial_function\<close>), and one whose loop is bounded is a terminating \<open>function\<close> or
  takes as fuel a bound that is proved or evident from the code (the rows of the screen, the length
  of a line, the length of the undo stack). Errors are values. Names are the code's; a suffix or a
  prefix is added where HOL has the name already.

  \<^bold>\<open>evim.\<close>
  \<^item> \<open>TextBuffer\<close> (\<open>vim_text.c\<close>, \<open>vim_util.c\<close>): \<open>text[]\<close>, \<open>end\<close> and the size of the block as a flat
    memory; line scans, line numbers, columns. A pointer is its offset from \<open>text\<close>.
  \<^item> \<open>UndoStack\<close>, \<open>Relocation\<close> (\<open>vim_text.c\<close>): holes, the undo objects and the queue of single
    characters; the same hole over addresses, with the pointers that follow a moved block.
  \<^item> \<open>Syntax\<close> (\<open>vim_syntax.c\<close>): the scanners and the emission of a coloured slice.
  \<^item> \<open>EditorState\<close> (\<open>vim.h\<close> and the small operations of all files): \<open>vi\<close> groups the globals into the
    text with its journal (\<open>ed\<close>), the display (\<open>dsp\<close>), the keyboard (\<open>kbd\<close>), the file system and the rest.
  \<^item> \<open>Keyboard\<close> (\<open>vim_input.c\<close>): \<open>read_key\<close> with its read-ahead, the recording and replay of a command.
  \<^item> \<open>Terminal\<close>, \<open>TerminalView\<close> (\<open>vim_term.c\<close>): the virtual screen, \<open>refresh\<close>, the status line, the
    input line; and a model of the terminal that receives the bytes.
  \<^item> \<open>EditOps\<close> with \<open>Searching\<close>, \<open>UndoCommand\<close>, \<open>CutPaste\<close>, \<open>LoadSave\<close> (\<open>vim_text.c\<close>): typing a
    character, brackets, searches, undo, registers, files; \<open>CommandUndo\<close>: undo and the normal mode keys.
  \<^item> \<open>Motions\<close>, \<open>Colon\<close> with \<open>ColonQuit\<close> (\<open>vim_cmd.c\<close>), \<open>Commands\<close> (\<open>vim_dcmd.c\<close>): ranges, the colon
    commands, and every case of \<open>do_cmd\<close>; \<open>RepeatCommand\<close>: the key \<open>.\<close>. The recursion of \<open>do_cmd\<close> through its operators is a nesting
    of two, which \<open>do_cmd_unfold\<close> shows to be the recursion.
  \<^item> \<open>EditLoop\<close>, \<open>EditSession\<close> (\<open>vim_main.c\<close>): the loop over keys and files, \<open>.exrc\<close>, \<open>main\<close>.

  \<^bold>\<open>The git port.\<close>
  \<^item> \<open>CurlText\<close>: URLs, origins, redirect targets, base64, percent encoding.
  \<^item> \<open>CurlState\<close>: the easy handle, \<open>curl_easy_setopt\<close>, \<open>curl_easy_getinfo\<close>, buffers, string lists.
  \<^item> \<open>CurlTransfer\<close>, \<open>CurlTrace\<close>: a transfer with its redirects and its retry over an HTTP library and
    callbacks that are the fields of a record \<open>net\<close>, and the trace of what it sends.
  \<^item> \<open>CurlMulti\<close>: the list of handles and the queue of messages, as the pointers the code links.
  \<^item> \<open>GitCompat\<close> (\<open>compat.c\<close>): \<open>freopen\<close>, \<open>execlp\<close>, \<open>getpass\<close>.

  \<^bold>\<open>The game.\<close> \<open>Tetris\<close> (\<open>game.c\<close>, \<open>input.c\<close>, \<open>main.c\<close>), \<open>TetrisDraw\<close> (\<open>graphics.c\<close>, the SDL calls as values),
  \<open>TetrisBoard\<close> and \<open>TetrisPlay\<close> (the properties).
\<close>

section \<open>What is shown\<close>

text \<open>
  \<^item> The editor never leaves its text: after every key and in every session (\<open>do_cmd_bounds\<close>,
    \<open>session_in_text\<close>) the cursor is on a character or just after the last one, for every input, file
    and terminal. \<open>set_keeps_options\<close> and \<open>key_within_buffers\<close>
    bound the options and the input buffers.
  \<^item> The journal: any sequence of logged edits is undone by its objects (\<open>edit_steps_restored\<close>, over
    the locale \<open>undo_journal\<close>), a run of backspaces by one object (\<open>revert_erased\<close>), a chain by one
    command (\<open>undo_pop_group\<close>), the whole of an editing key by \<open>u\<close> (\<open>command_undone\<close>), and a deletion
    also by putting its register back (\<open>deleted_comes_back\<close>). What the code does not give back is excluded
    by name: the last character of a deletion that empties the text, half a text erased backwards.
  \<^item> The lines and columns are those of the text (\<open>text_is_its_lines\<close>, \<open>column_roundtrip\<close>), brackets
    come in pairs, searches find the nearest match, a file is loaded and saved byte for byte, a
    start-up file runs line by line (the lines shorter than 128 characters), and no colon command leaves a modified text unsaved unless it is
    forced to (\<open>quit_keeps_work\<close>).
  \<^item> The screen: the virtual screen is the formatted text (\<open>refresh_shows_text\<close>), the terminal shows
    it (\<open>refresh_seen\<close>) and is repaired by a redraw (\<open>redraw_repairs\<close>), the colours of a slice and
    its bold exactly (\<open>slice_shown\<close>); the scanners end (\<open>scanners_finish\<close>, over the locale \<open>token_scanner\<close>).
  \<^item> Keys: escape sequences are decoded and \<open>.\<close> delivers the command that was
    recorded, with its count (\<open>repeat_replays\<close>).
  \<^item> The relocation of the text is invisible to the offset model (\<open>hole_make_relocates\<close>).
  \<^item> curl: credentials stay at their origin, requests are bounded and a transfer returns, refused
    options block it, options keep the fields of the handle in their
    C types and the methods as last set, buffers never overflow their capacity;
    the message queue refines a list (locale \<open>fifo_queue\<close>), and so does the list of handles.
  \<^item> Tetris: the invariant of every session, clearing rows against an abstract board, and that a
    piece locks within 1200 frames.

  Bounds: the four levels of \<open>option\<close> loops of evim (keys, \<open>Hit_Return\<close>, the session, the files)
  have no bound, they end when the input does; the 1200 frames are 48 frames for each of the 24 rows
  a piece can fall and the one it lies on; a transfer makes at most \<open>maxredirs + 2\<close> requests.
\<close>

section \<open>Not modelled\<close>

text \<open>
  The vendored sources (git's upstream, the curses library), the C++ applications and the test
  programs. Of the modelled files: raw terminal mode, signals, \<open>fflush\<close> and pauses; running out of
  memory in evim (the curl layer does model it); in evim \<open>int\<close> is unbounded, since positions are
  bounded by the text; \<open>free\<close>; opening and releasing the window and fonts of the game and its
  emscripten build; the functions of \<open>compat.c\<close> that only pass their arguments on. The input is a
  list of events, after whose end a read blocks. The file system, the random numbers, the HTTP
  library and the client's callbacks are parameters; a callback does not change the handle it is
  called for. Positions are offsets: where the code goes on with a pointer into a text that has moved
  (\<open>undo_pop\<close>, the operator \<open>>\<close>), the model has the place meant.

  Where the code does not do what it means to, the model does what the code does; the places are
  named where they are defined (for instance \<open>erased_half_lost\<close> and \<open>undo_apply\<close> in \<open>UndoStack\<close>, \<open>stale_pointers\<close> in
  \<open>Relocation\<close>, \<open>redirect_leaves_origin\<close> in \<open>CurlText\<close>).
\<close>

section \<open>The editor's keys\<close>

text \<open>
  C1. Handling a key never leaves the text: after \<open>do_cmd\<close> returns, whatever the key, the mode, the
  pending input and the buffer, the text holds at least one character and dot is inside it or at
  its end.
\<close>

theorem do_cmd_bounds:
  assumes "do_cmd c s = Some s'" and "0 \<le> vend s"
  shows "0 < vend s' \<and> 0 \<le> dot s' \<and> dot s' \<le> vend s'"
  using assms(1) unfolding do_cmd_def
  by (rule do_cmd_with_bounds [OF do_cmd_with_end [OF keeps_end_none] _ assms(2)])

theorem do_cmd_bounds_witness: "\<exists>s'. do_cmd 108 demo = Some s' \<and> 0 < vend s' \<and> 0 \<le> dot s' \<and> dot s' \<le> vend s'"
proof -
  have "map_option dot (do_cmd 108 demo) = Some 1" by code_simp
  then obtain s' where s: "do_cmd 108 demo = Some s'" by auto
  have "0 \<le> vend demo" by (simp add: demo_def editor_of_def buffer_of_def text_of_def)
  from do_cmd_bounds [OF s this] s show ?thesis by blast
qed

text \<open>
  The nesting of the model is the recursion of the code: \<open>do_cmd\<close> satisfies the equation in which
  the operators run their motion with \<open>do_cmd\<close> itself, because a motion is never an operator.
\<close>

theorem do_cmd_unfold: "do_cmd c s = do_cmd_with do_cmd c s"
  using do_cmd_nesting [of "do_cmd_with (\<lambda>_ _. None)"] by (simp only: do_cmd_def [symmetric])

end
